(* ===== verification/Prelude.thy ===== *)
theory Prelude
  imports Main "HOL-Library.Word" "HOL-Library.Char_ord" "HOL-Library.List_Lexorder"
    "HOL-Library.Code_Target_Numeral"
begin

text \<open>
  Shared vocabulary of the development: bytes, the error values that stand for the C++
  exceptions, the result type with its sequencing operator, the unsigned arithmetic of
  \<^verbatim>\<open>uint32_t\<close> and \<^verbatim>\<open>size_t\<close>, alignment arithmetic, and the little-endian byte encoding that a
  \<^verbatim>\<open>memcpy\<close> of an integer produces on the hosts the library supports (it always announces
  \<^verbatim>\<open>Endianness::LITTLE_ENDIAN_TYPE\<close> and copies integers in host order).
\<close>

section \<open>Lemma collections\<close>

named_theorems wire_simps \<open>unfolding rules of the encoders and of the wire layout\<close>
named_theorems unm_simps \<open>unfolding rules of the decoders\<close>
named_theorems conn_simps \<open>unfolding rules of the connection's operations\<close>

section \<open>Errors and results\<close>

text \<open>
  One constructor per exception class the library throws. \<open>UndefinedBehaviour\<close> stands for an
  access outside a buffer, which C++ leaves undefined, \<open>OutOfFuel\<close> for a loop that has not
  returned within the fuel given to the model, and \<open>NoAnswer\<close> for a coroutine that is never resumed, because what it
  waits for does not come; none of these three is an exception of the code.
\<close>

datatype error =
    DBusMalformedInputError
  | DBusInvalidSignatureError
  | DBusDeserializationError
  | DBusSerializationError
  | VariantUnmarshalError
  | LengthError
  | RuntimeError
  | LogicError
  | InvalidDBusName string
  | InvalidDBusObjectPath string
  | EmptyDBusMatchRule
  | InvalidDBusMatchRule
  | InternalError
  | DBusError string string
  | SystemError
  | UndefinedBehaviour
  | OutOfFuel
  | NoAnswer

definition thrown :: "error \<Rightarrow> bool" where
  "thrown e \<longleftrightarrow> e \<noteq> UndefinedBehaviour \<and> e \<noteq> OutOfFuel \<and> e \<noteq> NoAnswer"

definition endless :: "error \<Rightarrow> bool" where
  "endless e \<longleftrightarrow> e = OutOfFuel \<or> e = NoAnswer"

lemma thrown_not_endless: "thrown e \<Longrightarrow> \<not> endless e"
  by (auto simp: thrown_def endless_def)

type_synonym 'a result = "error + 'a"

definition bindE :: "'a result \<Rightarrow> ('a \<Rightarrow> 'b result) \<Rightarrow> 'b result" where
  "bindE r f = (case r of Inl e \<Rightarrow> Inl e | Inr x \<Rightarrow> f x)"

text \<open>Evaluation unfolds the case distinction, so that it looks at the first result before the rest.\<close>

declare bindE_def [code_unfold]

lemma bindE_simps [simp]:
  "bindE (Inl e) f = Inl e"
  "bindE (Inr x) f = f x"
  by (simp_all add: bindE_def)

lemma bindE_Inr_iff: "bindE r f = Inr y \<longleftrightarrow> (\<exists>x. r = Inr x \<and> f x = Inr y)"
  by (cases r) auto

lemma bindE_Inl_iff: "bindE r f = Inl e \<longleftrightarrow> r = Inl e \<or> (\<exists>x. r = Inr x \<and> f x = Inl e)"
  by (cases r) auto

lemma bindE_cong [fundef_cong]:
  "r = r' \<Longrightarrow> (\<And>x. r' = Inr x \<Longrightarrow> f x = f' x) \<Longrightarrow> bindE r f = bindE r' f'"
  by (cases r') auto

lemma bindE_if:
  "bindE (if b then r else s) f = (if b then bindE r f else bindE s f)"
  by simp

section \<open>Unsigned machine arithmetic\<close>

text \<open>
  A \<^verbatim>\<open>uint32_t\<close> is a natural number reduced modulo \<open>2 ^ 32\<close> wherever the code stores into one;
  \<open>usub64\<close> is the \<^verbatim>\<open>size_t\<close> subtraction, which wraps around instead of going negative.
\<close>

definition u32 :: "nat \<Rightarrow> nat" where
  "u32 n = n mod 4294967296"

definition usub64 :: "nat \<Rightarrow> nat \<Rightarrow> nat" where
  "usub64 a b = (a + 18446744073709551616 - b) mod 18446744073709551616"

definition usub32 :: "nat \<Rightarrow> nat \<Rightarrow> nat" where
  "usub32 a b = (a + 4294967296 - b) mod 4294967296"

lemma u32_id [simp]: "n < 4294967296 \<Longrightarrow> u32 n = n"
  by (simp add: u32_def)

lemma u32_less [simp]: "u32 n < 4294967296"
  by (simp add: u32_def)

lemma wrap_sub:
  assumes "b \<le> a" and "a < (m::nat)"
  shows "(a + m - b) mod m = a - b"
proof -
  have "a + m - b = (a - b) + m" using assms by simp
  then have "(a + m - b) mod m = (a - b) mod m" by simp
  then show ?thesis using assms by simp
qed

lemma usub64_le [simp]: "b \<le> a \<Longrightarrow> a < 18446744073709551616 \<Longrightarrow> usub64 a b = a - b"
  unfolding usub64_def by (rule wrap_sub)

lemma usub32_le [simp]: "b \<le> a \<Longrightarrow> a < 4294967296 \<Longrightarrow> usub32 a b = a - b"
  unfolding usub32_def by (rule wrap_sub)

lemma usub64_wrap: "a < b \<Longrightarrow> b < 4294967296 \<Longrightarrow> 18446744069414584320 \<le> usub64 a b"
  by (simp add: usub64_def)

section \<open>Alignment\<close>

text \<open>The number of padding bytes that bring position \<open>p\<close> to a multiple of \<open>a\<close>.\<close>

definition padn :: "nat \<Rightarrow> nat \<Rightarrow> nat" where
  "padn a p = (if p mod a = 0 then 0 else a - p mod a)"

lemma padn_1 [simp]: "padn (Suc 0) p = 0"
  by (simp add: padn_def)

lemma padn_0 [simp]: "padn a 0 = 0"
  by (simp add: padn_def)

lemma padn_aligned: "a dvd p \<Longrightarrow> padn a p = 0"
  by (simp add: padn_def)

lemma padn_less: "0 < a \<Longrightarrow> padn a p < a"
  by (auto simp: padn_def)

lemma dvd_add_padn [simp]: "0 < a \<Longrightarrow> a dvd p + padn a p"
proof (cases "p mod a = 0")
  case True
  then show ?thesis by (simp add: padn_def dvd_eq_mod_eq_0)
next
  case False
  assume a: "0 < a"
  have "p + (a - p mod a) = (p div a) * a + a"
    using a div_mult_mod_eq [of p a] mod_less_divisor [of a p] by linarith
  then show ?thesis using False by (simp add: padn_def)
qed

lemma padn_idem [simp]: "0 < a \<Longrightarrow> padn a (p + padn a p) = 0"
  by (simp add: padn_aligned)

lemma padn_mod:
  assumes "a dvd m" and "p mod m = q mod m"
  shows "padn a p = padn a q"
proof -
  have "p mod a = q mod a"
    using assms by (metis mod_mod_cancel)
  then show ?thesis by (simp add: padn_def)
qed

section \<open>Little-endian integers\<close>

primrec le_bytes :: "nat \<Rightarrow> nat \<Rightarrow> 8 word list" where
  "le_bytes 0 n = []"
| "le_bytes (Suc k) n = word_of_nat (n mod 256) # le_bytes k (n div 256)"

primrec le_nat :: "8 word list \<Rightarrow> nat" where
  "le_nat [] = 0"
| "le_nat (b # bs) = unat b + 256 * le_nat bs"

lemma length_le_bytes [simp]: "length (le_bytes k n) = k"
  by (induction k arbitrary: n) auto

lemma unat_byte_mod [simp]: "unat (word_of_nat (n mod 256) :: 8 word) = n mod 256"
  by (simp add: unat_of_nat)

lemma le_nat_le_bytes_mod: "le_nat (le_bytes k n) = n mod 256 ^ k"
proof (induction k arbitrary: n)
  case 0
  then show ?case by simp
next
  case (Suc k)
  have "le_nat (le_bytes (Suc k) n) = n mod 256 + 256 * ((n div 256) mod 256 ^ k)"
    using Suc by simp
  also have "\<dots> = n mod (256 * 256 ^ k)"
    by (simp add: mod_mult2_eq)
  finally show ?case by simp
qed

lemma le_nat_le_bytes [simp]: "n < 256 ^ k \<Longrightarrow> le_nat (le_bytes k n) = n"
  by (simp add: le_nat_le_bytes_mod)

lemma unat_byte_less [simp]: "unat (b :: 8 word) < 256"
  using unsigned_less [of b, where ?'a = nat] by simp

lemma le_bytes_le_nat [simp]: "le_bytes (length bs) (le_nat bs) = bs"
proof (induction bs)
  case Nil
  then show ?case by simp
next
  case (Cons b bs)
  have "(unat b + 256 * le_nat bs) mod 256 = unat b"
    by (simp add: mod_less)
  moreover have "(unat b + 256 * le_nat bs) div 256 = le_nat bs"
    by (simp add: div_less)
  ultimately show ?case using Cons by simp
qed

lemma le_nat_less: "le_nat bs < 256 ^ length bs"
  by (metis le_bytes_le_nat le_nat_le_bytes_mod mod_less_divisor zero_less_numeral zero_less_power)

section \<open>Characters and bytes\<close>

text \<open>\<^verbatim>\<open>std::string\<close> holds bytes; a \<open>char\<close> of HOL is one of the 256 byte values.\<close>

definition byte_of_char :: "char \<Rightarrow> 8 word" where
  "byte_of_char c = word_of_nat (of_char c)"

definition char_of_byte :: "8 word \<Rightarrow> char" where
  "char_of_byte b = char_of (unat b)"

definition bytes_of_string :: "string \<Rightarrow> 8 word list" where
  "bytes_of_string = map byte_of_char"

definition string_of_bytes :: "8 word list \<Rightarrow> string" where
  "string_of_bytes = map char_of_byte"

lemma char_of_byte_of_char [simp]: "char_of_byte (byte_of_char c) = c"
proof -
  have "(of_char c :: nat) < 256" by (metis of_char_mod_256 mod_less_divisor zero_less_numeral)
  then have "unat (word_of_nat (of_char c) :: 8 word) = of_char c"
    by (simp add: unat_of_nat)
  then show ?thesis by (simp add: byte_of_char_def char_of_byte_def)
qed

lemma byte_of_char_of_byte [simp]: "byte_of_char (char_of_byte b) = b"
  by (simp add: byte_of_char_def char_of_byte_def)

lemma length_bytes_of_string [simp]: "length (bytes_of_string s) = length s"
  by (simp add: bytes_of_string_def)

lemma length_string_of_bytes [simp]: "length (string_of_bytes bs) = length bs"
  by (simp add: string_of_bytes_def)

lemma string_of_bytes_of_string [simp]: "string_of_bytes (bytes_of_string s) = s"
  by (simp add: bytes_of_string_def string_of_bytes_def comp_def)

lemma bytes_of_string_of_bytes [simp]: "bytes_of_string (string_of_bytes bs) = bs"
  by (simp add: bytes_of_string_def string_of_bytes_def comp_def)

lemma bytes_of_string_simps [simp]:
  "bytes_of_string [] = []"
  "bytes_of_string (c # cs) = byte_of_char c # bytes_of_string cs"
  by (simp_all add: bytes_of_string_def)

text \<open>Reading \<^verbatim>\<open>str[i]\<close> of a \<^verbatim>\<open>std::string\<close>: at \<^verbatim>\<open>size()\<close> it is the null character.\<close>

definition str_at :: "string \<Rightarrow> nat \<Rightarrow> char" where
  "str_at s i = (if i < length s then s ! i else CHR 0x00)"

definition str_head :: "string \<Rightarrow> char" where
  "str_head s = (case s of [] \<Rightarrow> CHR 0x00 | c # _ \<Rightarrow> c)"

lemma str_head_simps [simp]:
  "str_head [] = CHR 0x00"
  "str_head (c # cs) = c"
  by (simp_all add: str_head_def)

lemma str_at_0: "str_at s 0 = str_head s"
  by (cases s) (simp_all add: str_at_def)

end
