(* ===== verification/DBusTypes.thy ===== *)
theory DBusTypes
  imports Prelude
begin

text \<open>
  \<^verbatim>\<open>src/src/DBusTypes.h\<close> and \<^verbatim>\<open>src/src/DBusTypes.cpp\<close>: the enumerations of the protocol, the
  validating string classes (object paths, signatures and the four kinds of bus names) and the
  constants of the message layout. Each class is a single-constructor datatype whose selector is
  the stored \<^verbatim>\<open>std::string\<close>; its C++ constructor is the \<open>make_\<close> function, which returns the
  exception as a value. The locales state the contract the five validating classes share.
\<close>

section \<open>Enumerations\<close>

text \<open>
  \<^verbatim>\<open>static_cast\<close> can give an enumeration with fixed underlying type any value of that type, so
  message types read off the wire may be none of the named ones: \<open>MT_UNNAMED\<close>.
\<close>

datatype DBusMessageType =
    MT_INVALID | MT_METHOD_CALL | MT_METHOD_RETURN | MT_ERROR | MT_SIGNAL
  | MT_OPTIONAL | MT_NONE | MT_UNNAMED "8 word"

fun message_type_code :: "DBusMessageType \<Rightarrow> 8 word" where
  "message_type_code MT_INVALID = 0"
| "message_type_code MT_METHOD_CALL = 1"
| "message_type_code MT_METHOD_RETURN = 2"
| "message_type_code MT_ERROR = 3"
| "message_type_code MT_SIGNAL = 4"
| "message_type_code MT_OPTIONAL = 254"
| "message_type_code MT_NONE = 255"
| "message_type_code (MT_UNNAMED w) = w"

definition message_type_of :: "8 word \<Rightarrow> DBusMessageType" where
  "message_type_of w =
     (if w = 0 then MT_INVALID else if w = 1 then MT_METHOD_CALL
      else if w = 2 then MT_METHOD_RETURN else if w = 3 then MT_ERROR
      else if w = 4 then MT_SIGNAL else if w = 254 then MT_OPTIONAL
      else if w = 255 then MT_NONE else MT_UNNAMED w)"

lemma message_type_code_of [simp]: "message_type_code (message_type_of w) = w"
  by (simp add: message_type_of_def)

text \<open>The message types a program can write down.\<close>

fun named_type :: "DBusMessageType \<Rightarrow> bool" where
  "named_type (MT_UNNAMED w) = False"
| "named_type t = True"

lemma message_type_of_code [simp]: "named_type t \<Longrightarrow> message_type_of (message_type_code t) = t"
  by (cases t) (simp_all add: message_type_of_def)

datatype DBusMessageFlags =
    FL_NONE | FL_NO_REPLY_EXPECTED | FL_NO_AUTO_START | FL_ALLOW_INTERACTIVE_AUTHORIZATION

fun flag_code :: "DBusMessageFlags \<Rightarrow> 8 word" where
  "flag_code FL_NONE = 0"
| "flag_code FL_NO_REPLY_EXPECTED = 1"
| "flag_code FL_NO_AUTO_START = 2"
| "flag_code FL_ALLOW_INTERACTIVE_AUTHORIZATION = 4"

datatype HeaderFieldCode =
    HF_INVALID | HF_PATH | HF_INTERFACE | HF_MEMBER | HF_ERROR_NAME | HF_REPLY_SERIAL
  | HF_DESTINATION | HF_SENDER | HF_SIGNATURE | HF_UNIX_FDS | HF_NONE

fun header_field_code :: "HeaderFieldCode \<Rightarrow> 8 word" where
  "header_field_code HF_INVALID = 0"
| "header_field_code HF_PATH = 1"
| "header_field_code HF_INTERFACE = 2"
| "header_field_code HF_MEMBER = 3"
| "header_field_code HF_ERROR_NAME = 4"
| "header_field_code HF_REPLY_SERIAL = 5"
| "header_field_code HF_DESTINATION = 6"
| "header_field_code HF_SENDER = 7"
| "header_field_code HF_SIGNATURE = 8"
| "header_field_code HF_UNIX_FDS = 9"
| "header_field_code HF_NONE = 255"

lemma header_field_code_inj [simp]: "header_field_code a = header_field_code b \<longleftrightarrow> a = b"
  by (cases a; cases b) simp_all

datatype DBusTypeCodes =
    TC_BYTE | TC_BOOLEAN | TC_INT16 | TC_UINT16 | TC_INT32 | TC_UINT32 | TC_INT64 | TC_UINT64
  | TC_DOUBLE | TC_UNIX_FD | TC_STRING | TC_OBJECT_PATH | TC_SIGNATURE | TC_ARRAY | TC_STRUCT
  | TC_STRUCT_BEGIN | TC_STRUCT_END | TC_VARIANT | TC_DICT | TC_DICT_BEGIN | TC_DICT_END
  | TC_INVALID

text \<open>\<open>None\<close> is a character that is the code of no enumerator.\<close>

definition type_code :: "char \<Rightarrow> DBusTypeCodes option" where
  "type_code c =
     (if c = CHR ''y'' then Some TC_BYTE else if c = CHR ''b'' then Some TC_BOOLEAN
      else if c = CHR ''n'' then Some TC_INT16 else if c = CHR ''q'' then Some TC_UINT16
      else if c = CHR ''i'' then Some TC_INT32 else if c = CHR ''u'' then Some TC_UINT32
      else if c = CHR ''x'' then Some TC_INT64 else if c = CHR ''t'' then Some TC_UINT64
      else if c = CHR ''d'' then Some TC_DOUBLE else if c = CHR ''h'' then Some TC_UNIX_FD
      else if c = CHR ''s'' then Some TC_STRING else if c = CHR ''o'' then Some TC_OBJECT_PATH
      else if c = CHR ''g'' then Some TC_SIGNATURE else if c = CHR ''a'' then Some TC_ARRAY
      else if c = CHR ''r'' then Some TC_STRUCT else if c = CHR ''('' then Some TC_STRUCT_BEGIN
      else if c = CHR '')'' then Some TC_STRUCT_END else if c = CHR ''v'' then Some TC_VARIANT
      else if c = CHR ''e'' then Some TC_DICT else if c = CHR 0x7B then Some TC_DICT_BEGIN
      else if c = CHR 0x7D then Some TC_DICT_END else if c = CHR 0xFF then Some TC_INVALID
      else None)"

datatype BusType = SESSION | SYSTEM

text \<open>The constants at the end of \<^verbatim>\<open>DBusTypes.h\<close>.\<close>

definition FIRST_HEADER_PART_SIZE :: nat where
  "FIRST_HEADER_PART_SIZE = 1 * 4 + 4 * 3"

definition DBUS_MESSAGE_BODY_ALIGNMENT :: nat where
  "DBUS_MESSAGE_BODY_ALIGNMENT = 8"

section \<open>Validation\<close>

text \<open>Every validator returns \<open>None\<close> for a valid string and the reason otherwise.\<close>

definition MAX_DBUS_NAME_LENGTH :: nat where
  "MAX_DBUS_NAME_LENGTH = 255"

definition quoted :: "char \<Rightarrow> string" where
  "quoted c = [CHR 0x27, c, CHR 0x27]"

definition ValidateDBusName :: "string \<Rightarrow> bool \<Rightarrow> string option" where
  "ValidateDBusName name validateWellKnownName =
     (let prefix = (if validateWellKnownName then ''Well-known'' else ''Unique connection'') in
      if name = [] then Some (prefix @ '' name cannot be empty'')
      else if validateWellKnownName \<and> hd name = CHR '':''
        then Some (''Well-known name cannot start with '' @ quoted (CHR '':''))
      else if \<not> validateWellKnownName \<and> hd name \<noteq> CHR '':''
        then Some (''Unique connection name must start with '' @ quoted (CHR '':''))
      else if hd name = CHR ''.''
        then Some (prefix @ '' name cannot start with '' @ quoted (CHR ''.''))
      else if count_list name (CHR ''.'') = 0
        then Some (prefix @ '' must contain at least 1 '' @ quoted (CHR ''.''))
      else if length name \<ge> MAX_DBUS_NAME_LENGTH
        then Some (prefix @ '' name must be shorter than 255 characters'')
      else None)"

definition ValidateDBusInterfaceName :: "string \<Rightarrow> string option" where
  "ValidateDBusInterfaceName name =
     (if name = [] then Some ''Interface name cannot be empty''
      else if count_list name (CHR ''.'') = 0
        then Some (''Interface name must contain at least 1 '' @ quoted (CHR ''.''))
      else if length name \<ge> MAX_DBUS_NAME_LENGTH
        then Some ''Interface name must be shorter than 255 characters''
      else None)"

text \<open>
  The object path validator scans with an index \<open>i\<close> that runs from 1 to \<^verbatim>\<open>path.size()\<close> inclusive
  and the index \<open>elementStart\<close> at which the current element began.
\<close>

definition path_char :: "char \<Rightarrow> bool" where
  "path_char c \<longleftrightarrow> (CHR ''A'' \<le> c \<and> c \<le> CHR ''Z'') \<or> (CHR ''a'' \<le> c \<and> c \<le> CHR ''z'')
     \<or> (CHR ''0'' \<le> c \<and> c \<le> CHR ''9'') \<or> c = CHR ''_''"

definition empty_element_reason :: string where
  "empty_element_reason = ''Object path cannot contain empty elements in between '' @
     quoted (CHR ''/'') @ '', consecutive '' @ quoted (CHR ''/'') @ '' or a trailing '' @
     quoted (CHR ''/'')"

definition bad_char_reason :: string where
  "bad_char_reason =
     ''Object Path elements can only contain characters in the following range: '' @
     [CHR 0x27] @ ''[A-Z][a-z][0-9]_'' @ [CHR 0x27]"

function path_scan :: "string \<Rightarrow> nat \<Rightarrow> nat \<Rightarrow> string option" where
  "path_scan path elementStart i =
     (if i \<le> length path then
        (if str_at path i = CHR ''/'' \<or> i = length path then
           (if i = elementStart then Some empty_element_reason
            else path_scan path (i + 1) (i + 1))
         else if \<not> path_char (str_at path i) then Some bad_char_reason
         else path_scan path elementStart (i + 1))
      else None)"
  by pat_completeness auto
termination
  by (relation "measure (\<lambda>(path, elementStart, i). Suc (length path) - i)") auto

declare path_scan.simps [simp del]

definition ValidateDBusObjectPath :: "string \<Rightarrow> string option" where
  "ValidateDBusObjectPath path =
     (if path = [] then Some ''Object Path cannot be empty''
      else if hd path \<noteq> CHR ''/'' then Some (''Object Path must start with '' @ quoted (CHR ''/''))
      else if length path = 1 then None
      else path_scan path 1 1)"

section \<open>The string classes\<close>

datatype ObjectPath = MkObjectPath (GetPath: string)

definition make_ObjectPath :: "string \<Rightarrow> ObjectPath result" where
  "make_ObjectPath path =
     (case ValidateDBusObjectPath path of
        Some why \<Rightarrow> Inl (InvalidDBusObjectPath why)
      | None \<Rightarrow> Inr (MkObjectPath path))"

text \<open>The defaulted constructor \<^verbatim>\<open>ObjectPath()\<close> leaves the path empty, without validation.\<close>

definition default_ObjectPath :: ObjectPath where
  "default_ObjectPath = MkObjectPath []"

definition ObjectPath_Empty :: "ObjectPath \<Rightarrow> bool" where
  "ObjectPath_Empty p = (GetPath p = [])"

datatype Signature = MkSignature (GetSignature: string)

definition Signature_Empty :: "Signature \<Rightarrow> bool" where
  "Signature_Empty s = (GetSignature s = [])"

datatype DBusUniqueConnectionName = MkUniqueName (unique_name: string)

definition make_DBusUniqueConnectionName :: "string \<Rightarrow> DBusUniqueConnectionName result" where
  "make_DBusUniqueConnectionName name =
     (case ValidateDBusName name False of
        Some why \<Rightarrow> Inl (InvalidDBusName why)
      | None \<Rightarrow> Inr (MkUniqueName name))"

datatype DBusWellKnownName = MkWellKnownName (well_known_name: string)

definition make_DBusWellKnownName :: "string \<Rightarrow> DBusWellKnownName result" where
  "make_DBusWellKnownName name =
     (case ValidateDBusName name True of
        Some why \<Rightarrow> Inl (InvalidDBusName why)
      | None \<Rightarrow> Inr (MkWellKnownName name))"

datatype DBusInterfaceName = MkInterfaceName (interface_name: string)

definition make_DBusInterfaceName :: "string \<Rightarrow> DBusInterfaceName result" where
  "make_DBusInterfaceName name =
     (case ValidateDBusInterfaceName name of
        Some why \<Rightarrow> Inl (InvalidDBusName why)
      | None \<Rightarrow> Inr (MkInterfaceName name))"

definition InterfaceName_empty :: "DBusInterfaceName \<Rightarrow> bool" where
  "InterfaceName_empty n = (interface_name n = [])"

datatype DBusErrorName = MkErrorName (error_name: string)

definition make_DBusErrorName :: "string \<Rightarrow> DBusErrorName result" where
  "make_DBusErrorName name =
     (case ValidateDBusInterfaceName name of
        Some why \<Rightarrow> Inl (InvalidDBusName why)
      | None \<Rightarrow> Inr (MkErrorName name))"

text \<open>
  The defaulted \<^verbatim>\<open>operator<=>\<close> of the name classes compares the stored strings
  (\<^verbatim>\<open>char_traits\<close> compares characters as unsigned).
\<close>

instantiation DBusUniqueConnectionName :: linorder
begin
definition less_eq_DBusUniqueConnectionName ::
    "DBusUniqueConnectionName \<Rightarrow> DBusUniqueConnectionName \<Rightarrow> bool" where
  "less_eq_DBusUniqueConnectionName a b \<longleftrightarrow> unique_name a \<le> unique_name b"
definition less_DBusUniqueConnectionName ::
    "DBusUniqueConnectionName \<Rightarrow> DBusUniqueConnectionName \<Rightarrow> bool" where
  "less_DBusUniqueConnectionName a b \<longleftrightarrow> unique_name a < unique_name b"
instance
  by standard (auto simp: less_eq_DBusUniqueConnectionName_def less_DBusUniqueConnectionName_def
      intro: DBusUniqueConnectionName.expand)
end

instantiation DBusWellKnownName :: linorder
begin
definition less_eq_DBusWellKnownName :: "DBusWellKnownName \<Rightarrow> DBusWellKnownName \<Rightarrow> bool" where
  "less_eq_DBusWellKnownName a b \<longleftrightarrow> well_known_name a \<le> well_known_name b"
definition less_DBusWellKnownName :: "DBusWellKnownName \<Rightarrow> DBusWellKnownName \<Rightarrow> bool" where
  "less_DBusWellKnownName a b \<longleftrightarrow> well_known_name a < well_known_name b"
instance
  by standard (auto simp: less_eq_DBusWellKnownName_def less_DBusWellKnownName_def
      intro: DBusWellKnownName.expand)
end

instantiation DBusInterfaceName :: linorder
begin
definition less_eq_DBusInterfaceName :: "DBusInterfaceName \<Rightarrow> DBusInterfaceName \<Rightarrow> bool" where
  "less_eq_DBusInterfaceName a b \<longleftrightarrow> interface_name a \<le> interface_name b"
definition less_DBusInterfaceName :: "DBusInterfaceName \<Rightarrow> DBusInterfaceName \<Rightarrow> bool" where
  "less_DBusInterfaceName a b \<longleftrightarrow> interface_name a < interface_name b"
instance
  by standard (auto simp: less_eq_DBusInterfaceName_def less_DBusInterfaceName_def
      intro: DBusInterfaceName.expand)
end

instantiation DBusErrorName :: linorder
begin
definition less_eq_DBusErrorName :: "DBusErrorName \<Rightarrow> DBusErrorName \<Rightarrow> bool" where
  "less_eq_DBusErrorName a b \<longleftrightarrow> error_name a \<le> error_name b"
definition less_DBusErrorName :: "DBusErrorName \<Rightarrow> DBusErrorName \<Rightarrow> bool" where
  "less_DBusErrorName a b \<longleftrightarrow> error_name a < error_name b"
instance
  by standard (auto simp: less_eq_DBusErrorName_def less_DBusErrorName_def
      intro: DBusErrorName.expand)
end

section \<open>The contract of the validating classes\<close>

locale validated_string =
  fixes validate :: "string \<Rightarrow> string option"
    and reason :: "string \<Rightarrow> error"
    and make :: "string \<Rightarrow> 'n result"
    and get :: "'n \<Rightarrow> string"
  assumes make_valid: "validate s = None \<Longrightarrow> \<exists>n. make s = Inr n \<and> get n = s"
    and make_invalid: "validate s = Some why \<Longrightarrow> make s = Inl (reason why)"
    and get_inject: "get m = get n \<Longrightarrow> m = n"
begin

lemma make_get: "make s = Inr n \<Longrightarrow> get n = s \<and> validate s = None"
  using make_valid [of s] make_invalid [of s] by (cases "validate s") auto

lemma get_make: "validate (get n) = None \<Longrightarrow> make (get n) = Inr n"
  using make_valid [of "get n"] get_inject by auto

lemma make_ok_iff: "(\<exists>n. make s = Inr n) \<longleftrightarrow> validate s = None"
  using make_get make_valid by blast

lemma make_only_reason: "make s = Inl e \<Longrightarrow> \<exists>why. e = reason why"
  using make_valid [of s] make_invalid [of s] by (cases "validate s") auto

lemma make_inject: "make s = Inr n \<Longrightarrow> make t = Inr n \<Longrightarrow> s = t"
  using make_get by blast

end

text \<open>The classes with a defaulted \<^verbatim>\<open>operator<=>\<close> order their values as the stored strings.\<close>

locale ordered_string = validated_string validate reason make get
  for validate :: "string \<Rightarrow> string option" and reason :: "string \<Rightarrow> error"
    and make :: "string \<Rightarrow> 'n::linorder result" and get :: "'n \<Rightarrow> string" +
  assumes le_get: "m \<le> n \<longleftrightarrow> get m \<le> get n"
begin

lemma sorted_get: "sorted ns \<longleftrightarrow> sorted (map get ns)"
  by (induction ns) (auto simp: le_get)

lemma less_get: "m < n \<longleftrightarrow> get m < get n"
  by (meson le_get leD leI order_le_less_trans not_le)

end

interpretation object_path: validated_string
  ValidateDBusObjectPath InvalidDBusObjectPath make_ObjectPath GetPath
  by unfold_locales (auto simp: make_ObjectPath_def intro: ObjectPath.expand)

interpretation unique_connection: ordered_string
  "\<lambda>s. ValidateDBusName s False" InvalidDBusName make_DBusUniqueConnectionName unique_name
  by unfold_locales (auto simp: make_DBusUniqueConnectionName_def
      less_eq_DBusUniqueConnectionName_def intro: DBusUniqueConnectionName.expand)

interpretation well_known: ordered_string
  "\<lambda>s. ValidateDBusName s True" InvalidDBusName make_DBusWellKnownName well_known_name
  by unfold_locales (auto simp: make_DBusWellKnownName_def
      less_eq_DBusWellKnownName_def intro: DBusWellKnownName.expand)

interpretation interface: ordered_string
  ValidateDBusInterfaceName InvalidDBusName make_DBusInterfaceName interface_name
  by unfold_locales (auto simp: make_DBusInterfaceName_def
      less_eq_DBusInterfaceName_def intro: DBusInterfaceName.expand)

interpretation error_class: ordered_string
  ValidateDBusInterfaceName InvalidDBusName make_DBusErrorName error_name
  by unfold_locales (auto simp: make_DBusErrorName_def
      less_eq_DBusErrorName_def intro: DBusErrorName.expand)

section \<open>What the validators accept\<close>

text \<open>The grammar of the D-Bus specification: the root, or elements each preceded by a slash.\<close>

definition path_of_elements :: "string list \<Rightarrow> string" where
  "path_of_elements es = concat (map (\<lambda>e. CHR ''/'' # e) es)"

definition valid_element :: "string \<Rightarrow> bool" where
  "valid_element e \<longleftrightarrow> e \<noteq> [] \<and> (\<forall>c \<in> set e. path_char c)"

text \<open>The scan as a recursion on the characters still to read; \<open>fresh\<close> says that the current
  element is still empty.\<close>

fun path_rest :: "bool \<Rightarrow> string \<Rightarrow> string option" where
  "path_rest fresh [] = (if fresh then Some empty_element_reason else None)"
| "path_rest fresh (c # cs) =
     (if c = CHR ''/'' then if fresh then Some empty_element_reason else path_rest True cs
      else if \<not> path_char c then Some bad_char_reason
      else path_rest False cs)"

lemma path_scan_end [simp]: "length path < i \<Longrightarrow> path_scan path s i = None"
  by (subst path_scan.simps) simp

lemma path_scan_rest:
  "s \<le> i \<Longrightarrow> i \<le> length path \<Longrightarrow>
   path_scan path s i = path_rest (i = s) (drop i path)"
proof (induction path s i rule: path_scan.induct)
  case (1 path s i)
  show ?case
  proof (cases "i = length path")
    case True
    then show ?thesis by (subst path_scan.simps) auto
  next
    case False
    with 1 have less: "i < length path" by simp
    then have d: "drop i path = str_at path i # drop (Suc i) path"
      by (simp add: str_at_def Cons_nth_drop_Suc)
    have "path_scan path s i =
      (if str_at path i = CHR ''/'' then
         (if i = s then Some empty_element_reason else path_scan path (i + 1) (i + 1))
       else if \<not> path_char (str_at path i) then Some bad_char_reason
       else path_scan path s (i + 1))"
      using less by (subst path_scan.simps) simp
    then show ?thesis
      using 1 less by (auto simp: d)
  qed
qed

lemma slash_not_path_char [simp]: "\<not> path_char (CHR ''/'')"
  by (simp add: path_char_def less_eq_char_def)

lemma path_rest_None:
  "path_rest fresh cs = None \<longleftrightarrow>
   (\<exists>e es. cs = e @ path_of_elements es \<and> (\<forall>c \<in> set e. path_char c) \<and> (fresh \<longrightarrow> e \<noteq> []) \<and>
      (\<forall>x \<in> set es. valid_element x))"
proof (induction cs arbitrary: fresh)
  case Nil
  show ?case
    by (auto simp: path_of_elements_def)
next
  case (Cons c cs)
  show ?case
  proof (cases "c = CHR ''/''")
    case True
    have "path_rest fresh (c # cs) = None \<longleftrightarrow> \<not> fresh \<and> path_rest True cs = None"
      using True by simp
    also have "\<dots> \<longleftrightarrow> \<not> fresh \<and> (\<exists>e es. cs = e @ path_of_elements es \<and> valid_element e \<and>
        (\<forall>x \<in> set es. valid_element x))"
      by (auto simp: Cons.IH valid_element_def)
    also have "\<dots> \<longleftrightarrow> \<not> fresh \<and> (\<exists>es. c # cs = path_of_elements es \<and> (\<forall>x \<in> set es. valid_element x))"
    proof -
      have "(\<exists>e es. cs = e @ path_of_elements es \<and> valid_element e \<and> (\<forall>x \<in> set es. valid_element x))
        \<longleftrightarrow> (\<exists>es. c # cs = path_of_elements es \<and> (\<forall>x \<in> set es. valid_element x))" (is "?L \<longleftrightarrow> ?R")
      proof
        assume ?L
        then obtain e es where "cs = e @ path_of_elements es" "valid_element e"
          "\<forall>x \<in> set es. valid_element x" by blast
        then have "c # cs = path_of_elements (e # es) \<and> (\<forall>x \<in> set (e # es). valid_element x)"
          using True by (simp add: path_of_elements_def)
        then show ?R by blast
      next
        assume ?R
        then obtain es where es: "c # cs = path_of_elements es" "\<forall>x \<in> set es. valid_element x"
          by blast
        then obtain e es' where "es = e # es'" by (cases es) (auto simp: path_of_elements_def)
        with es show ?L by (auto simp: path_of_elements_def)
      qed
      then show ?thesis by blast
    qed
    also have "\<dots> \<longleftrightarrow> (\<exists>e es. c # cs = e @ path_of_elements es \<and> (\<forall>c \<in> set e. path_char c) \<and>
        (fresh \<longrightarrow> e \<noteq> []) \<and> (\<forall>x \<in> set es. valid_element x))"
    proof -
      have "e = []" if "c # cs = e @ path_of_elements es" "\<forall>c \<in> set e. path_char c" for e es
        using that True by (cases e) auto
      then show ?thesis by (metis append_Nil empty_iff list.set(1))
    qed
    finally show ?thesis .
  next
    case False
    have "path_rest fresh (c # cs) = None \<longleftrightarrow> path_char c \<and> path_rest False cs = None"
      using False by simp
    also have "\<dots> \<longleftrightarrow> path_char c \<and> (\<exists>e es. cs = e @ path_of_elements es \<and>
        (\<forall>c \<in> set e. path_char c) \<and> (\<forall>x \<in> set es. valid_element x))"
      by (simp add: Cons.IH)
    also have "\<dots> \<longleftrightarrow> (\<exists>e es. c # cs = e @ path_of_elements es \<and> (\<forall>c \<in> set e. path_char c) \<and>
        (fresh \<longrightarrow> e \<noteq> []) \<and> (\<forall>x \<in> set es. valid_element x))" (is "?L \<longleftrightarrow> ?R")
    proof
      assume ?L
      then obtain e es where "path_char c" "cs = e @ path_of_elements es"
        "\<forall>c \<in> set e. path_char c" "\<forall>x \<in> set es. valid_element x" by blast
      then have "c # cs = (c # e) @ path_of_elements es \<and> (\<forall>x \<in> set (c # e). path_char x) \<and>
        (fresh \<longrightarrow> c # e \<noteq> []) \<and> (\<forall>x \<in> set es. valid_element x)" by simp
      then show ?R by blast
    next
      assume ?R
      then obtain e es where e: "c # cs = e @ path_of_elements es" "\<forall>c \<in> set e. path_char c"
        "\<forall>x \<in> set es. valid_element x" by blast
      then obtain e' where "e = c # e'"
        using False by (cases e; cases es) (auto simp: path_of_elements_def)
      with e show ?L by auto
    qed
    finally show ?thesis .
  qed
qed

lemma ValidateDBusObjectPath_None:
  "ValidateDBusObjectPath p = None \<longleftrightarrow>
   p = ''/'' \<or> (\<exists>es. es \<noteq> [] \<and> p = path_of_elements es \<and> (\<forall>e \<in> set es. valid_element e))"
proof (cases p)
  case Nil
  then show ?thesis
    by (auto simp: ValidateDBusObjectPath_def path_of_elements_def neq_Nil_conv)
next
  case (Cons c cs)
  have nonroot: "(\<exists>es. es \<noteq> [] \<and> p = path_of_elements es \<and> (\<forall>e \<in> set es. valid_element e)) \<longleftrightarrow>
    c = CHR ''/'' \<and> path_rest True cs = None" (is "?L \<longleftrightarrow> ?R")
  proof
    assume ?L
    then obtain es where es: "es \<noteq> []" "p = path_of_elements es" "\<forall>e \<in> set es. valid_element e"
      by blast
    then obtain e es' where e: "es = e # es'" by (cases es) auto
    with es Cons have "c = CHR ''/''" "cs = e @ path_of_elements es'"
      by (auto simp: path_of_elements_def)
    with es e show ?R by (auto simp: path_rest_None valid_element_def)
  next
    assume ?R
    then obtain e es where "c = CHR ''/''" "cs = e @ path_of_elements es" "valid_element e"
      "\<forall>x \<in> set es. valid_element x" by (auto simp: path_rest_None valid_element_def)
    then have "e # es \<noteq> [] \<and> p = path_of_elements (e # es) \<and> (\<forall>x \<in> set (e # es). valid_element x)"
      using Cons by (simp add: path_of_elements_def)
    then show ?L by blast
  qed
  have scan: "cs \<noteq> [] \<Longrightarrow> path_scan p (Suc 0) (Suc 0) = path_rest True cs"
    using Cons by (simp add: path_scan_rest)
  have root: "cs = [] \<Longrightarrow> path_rest True cs \<noteq> None" by simp
  show ?thesis
    unfolding nonroot using Cons scan root
    by (auto simp: ValidateDBusObjectPath_def)
qed

lemma ValidateDBusName_None:
  "ValidateDBusName name wk = None \<longleftrightarrow>
   name \<noteq> [] \<and> (hd name = CHR '':'' \<longleftrightarrow> \<not> wk) \<and> hd name \<noteq> CHR ''.'' \<and>
   CHR ''.'' \<in> set name \<and> length name < 255"
  by (auto simp: ValidateDBusName_def Let_def count_list_0_iff MAX_DBUS_NAME_LENGTH_def)

lemma ValidateDBusInterfaceName_None:
  "ValidateDBusInterfaceName name = None \<longleftrightarrow> CHR ''.'' \<in> set name \<and> length name < 255"
  by (auto simp: ValidateDBusInterfaceName_def count_list_0_iff MAX_DBUS_NAME_LENGTH_def)

lemma null_not_path_char [simp]: "\<not> path_char (CHR 0x00)"
  by (simp add: path_char_def less_eq_char_def)

lemma valid_path_no_null: "ValidateDBusObjectPath p = None \<Longrightarrow> CHR 0x00 \<notin> set p"
  by (fastforce simp: ValidateDBusObjectPath_None path_of_elements_def valid_element_def)

end
