(* ===== verification/DBusHelpers.thy ===== *)
theory DBusHelpers
  imports DBusTypes
begin

text \<open>
  \<^verbatim>\<open>src/src/DBusConcepts.h\<close>, \<^verbatim>\<open>src/src/DBusHelpers.h\<close> and \<^verbatim>\<open>src/src/DBusHelpers.cpp\<close>: the C++ types that
  may be sent over the bus (the concept \<^verbatim>\<open>IsDBusType\<close>) as a datatype, the compile-time functions
  that give their signature and alignment, the run-time classification of type codes, the
  address of the daemon and the hexadecimal encoding of the authentication handshake.
\<close>

section \<open>The types the concepts accept\<close>

text \<open>
  \<^verbatim>\<open>float\<close> satisfies the concept but has no D-Bus signature, and raw C strings decay to
  \<^verbatim>\<open>std::string\<close> parameters; neither has a constructor here. \<open>TArr None\<close> is \<^verbatim>\<open>std::vector\<close>,
  \<open>TArr (Some n)\<close> is \<^verbatim>\<open>std::array\<close> of length \<open>n\<close>. \<^verbatim>\<open>MultipleCompleteTypes\<close> is a list of types:
  it occurs as a whole message body only.
\<close>

datatype fixty = U8 | Bool | I16 | U16 | I32 | U32 | I64 | U64 | Double

datatype strty = StdString | InterfaceString | ObjectPathString | SignatureString

datatype cty =
    TFixed fixty
  | TString strty
  | TArr "nat option" cty
  | TTuple "cty list"
  | TMap cty cty
  | TVariant
  | TFastVariant

fun IsDBusBasicFixedType :: "cty \<Rightarrow> bool" where
  "IsDBusBasicFixedType (TFixed f) = True"
| "IsDBusBasicFixedType _ = False"

fun IsDBusBasicStringlikeType :: "cty \<Rightarrow> bool" where
  "IsDBusBasicStringlikeType (TString s) = True"
| "IsDBusBasicStringlikeType _ = False"

fun IsDBusArray :: "cty \<Rightarrow> bool" where
  "IsDBusArray (TArr n t) = True"
| "IsDBusArray _ = False"

fun IsDBusStruct :: "cty \<Rightarrow> bool" where
  "IsDBusStruct (TTuple ts) = True"
| "IsDBusStruct _ = False"

fun IsDBusMap :: "cty \<Rightarrow> bool" where
  "IsDBusMap (TMap k v) = True"
| "IsDBusMap _ = False"

fun IsDBusVariant :: "cty \<Rightarrow> bool" where
  "IsDBusVariant TVariant = True"
| "IsDBusVariant TFastVariant = True"
| "IsDBusVariant _ = False"

definition IsDBusBasicType :: "cty \<Rightarrow> bool" where
  "IsDBusBasicType t = (IsDBusBasicFixedType t \<or> IsDBusBasicStringlikeType t)"

text \<open>\<^verbatim>\<open>sizeof\<close> of a fixed type on the wire (a boolean is marshalled as a \<^verbatim>\<open>uint32_t\<close>) and in memory.\<close>

fun wire_size :: "fixty \<Rightarrow> nat" where
  "wire_size U8 = 1"
| "wire_size Bool = 4"
| "wire_size I16 = 2"
| "wire_size U16 = 2"
| "wire_size I32 = 4"
| "wire_size U32 = 4"
| "wire_size I64 = 8"
| "wire_size U64 = 8"
| "wire_size Double = 8"

definition mem_size :: "fixty \<Rightarrow> nat" where
  "mem_size f = (if f = Bool then 1 else wire_size f)"

section \<open>Signature and alignment of a type\<close>

fun GetTypeSignature :: "cty \<Rightarrow> string" where
  "GetTypeSignature (TFixed U8) = ''y''"
| "GetTypeSignature (TFixed Bool) = ''b''"
| "GetTypeSignature (TFixed I16) = ''n''"
| "GetTypeSignature (TFixed U16) = ''q''"
| "GetTypeSignature (TFixed I32) = ''i''"
| "GetTypeSignature (TFixed U32) = ''u''"
| "GetTypeSignature (TFixed I64) = ''x''"
| "GetTypeSignature (TFixed U64) = ''t''"
| "GetTypeSignature (TFixed Double) = ''d''"
| "GetTypeSignature (TString StdString) = ''s''"
| "GetTypeSignature (TString InterfaceString) = ''s''"
| "GetTypeSignature (TString ObjectPathString) = ''o''"
| "GetTypeSignature (TString SignatureString) = ''g''"
| "GetTypeSignature (TArr n t) = ''a'' @ GetTypeSignature t"
| "GetTypeSignature (TTuple ts) = ''('' @ concat (map GetTypeSignature ts) @ '')''"
| "GetTypeSignature TVariant = ''v''"
| "GetTypeSignature TFastVariant = ''v''"
| "GetTypeSignature (TMap k v) =
     CHR ''a'' # CHR 0x7B # GetTypeSignature k @ GetTypeSignature v @ [CHR 0x7D]"

definition BuildMultipleCompleteTypesSignature :: "cty list \<Rightarrow> string" where
  "BuildMultipleCompleteTypesSignature ts = concat (map GetTypeSignature ts)"

fun fix_align :: "fixty \<Rightarrow> nat" where
  "fix_align U8 = 1"
| "fix_align Bool = 4"
| "fix_align I16 = 2"
| "fix_align U16 = 2"
| "fix_align U32 = 4"
| "fix_align I32 = 4"
| "fix_align U64 = 8"
| "fix_align I64 = 8"
| "fix_align Double = 8"

fun GetAlignmentOfDBusType :: "cty \<Rightarrow> nat" where
  "GetAlignmentOfDBusType (TFixed f) = fix_align f"
| "GetAlignmentOfDBusType (TString s) = (if s = SignatureString then 1 else 4)"
| "GetAlignmentOfDBusType (TArr n t) = 4"
| "GetAlignmentOfDBusType (TTuple ts) = 8"
| "GetAlignmentOfDBusType (TMap k v) = 8"
| "GetAlignmentOfDBusType TVariant = 1"
| "GetAlignmentOfDBusType TFastVariant = 1"

section \<open>Type codes\<close>

definition IsDBusBasicFixedTypeCode :: "char \<Rightarrow> bool" where
  "IsDBusBasicFixedTypeCode c =
     (case type_code c of
        Some TC_BYTE \<Rightarrow> True | Some TC_BOOLEAN \<Rightarrow> True | Some TC_INT16 \<Rightarrow> True
      | Some TC_UINT16 \<Rightarrow> True | Some TC_INT32 \<Rightarrow> True | Some TC_UINT32 \<Rightarrow> True
      | Some TC_INT64 \<Rightarrow> True | Some TC_UINT64 \<Rightarrow> True | Some TC_DOUBLE \<Rightarrow> True
      | Some TC_UNIX_FD \<Rightarrow> True | _ \<Rightarrow> False)"

definition IsDBusBasicStringlikeTypeCode :: "char \<Rightarrow> bool" where
  "IsDBusBasicStringlikeTypeCode c =
     (case type_code c of
        Some TC_STRING \<Rightarrow> True | Some TC_OBJECT_PATH \<Rightarrow> True | Some TC_SIGNATURE \<Rightarrow> True
      | _ \<Rightarrow> False)"

definition IsDBusBasicTypeCode :: "char \<Rightarrow> bool" where
  "IsDBusBasicTypeCode c = (IsDBusBasicFixedTypeCode c \<or> IsDBusBasicStringlikeTypeCode c)"

definition IsDBusContainerTypeCode :: "char \<Rightarrow> bool" where
  "IsDBusContainerTypeCode c =
     (case type_code c of
        Some TC_ARRAY \<Rightarrow> True | Some TC_STRUCT_BEGIN \<Rightarrow> True | Some TC_STRUCT_END \<Rightarrow> True
      | Some TC_DICT_BEGIN \<Rightarrow> True | Some TC_DICT_END \<Rightarrow> True | Some TC_VARIANT \<Rightarrow> True
      | _ \<Rightarrow> False)"

definition IsDBusTypeCode_char :: "char \<Rightarrow> bool" where
  "IsDBusTypeCode_char c = (IsDBusBasicTypeCode c \<or> IsDBusContainerTypeCode c)"

definition IsDBusTypeCode :: "string \<Rightarrow> bool" where
  "IsDBusTypeCode str = list_all IsDBusTypeCode_char str"

text \<open>The bracket counter is an \<^verbatim>\<open>int32_t\<close>; a string of fewer than \<open>2 ^ 31\<close> characters cannot
  make it overflow.\<close>

fun bracket_count :: "int \<Rightarrow> string \<Rightarrow> int" where
  "bracket_count counter [] = counter"
| "bracket_count counter (c # cs) =
     (case type_code c of
        Some TC_DICT_BEGIN \<Rightarrow> bracket_count (counter + 1) cs
      | Some TC_STRUCT_BEGIN \<Rightarrow> bracket_count (counter + 1) cs
      | Some TC_STRUCT_END \<Rightarrow> bracket_count (counter - 1) cs
      | Some TC_DICT_END \<Rightarrow> bracket_count (counter - 1) cs
      | _ \<Rightarrow> bracket_count counter cs)"

definition AreDBusTypeCodeBracketsEven :: "string \<Rightarrow> bool" where
  "AreDBusTypeCodeBracketsEven str = (bracket_count 0 str = 0)"

definition GetAlignmentOfSignature :: "char \<Rightarrow> nat result" where
  "GetAlignmentOfSignature c =
     (case type_code c of
        Some TC_BYTE \<Rightarrow> Inr 1 | Some TC_SIGNATURE \<Rightarrow> Inr 1 | Some TC_VARIANT \<Rightarrow> Inr 1
      | Some TC_INT16 \<Rightarrow> Inr 2 | Some TC_UINT16 \<Rightarrow> Inr 2
      | Some TC_BOOLEAN \<Rightarrow> Inr 4 | Some TC_UNIX_FD \<Rightarrow> Inr 4 | Some TC_INT32 \<Rightarrow> Inr 4
      | Some TC_UINT32 \<Rightarrow> Inr 4 | Some TC_STRING \<Rightarrow> Inr 4 | Some TC_OBJECT_PATH \<Rightarrow> Inr 4
      | Some TC_ARRAY \<Rightarrow> Inr 4
      | Some TC_INT64 \<Rightarrow> Inr 8 | Some TC_UINT64 \<Rightarrow> Inr 8 | Some TC_DOUBLE \<Rightarrow> Inr 8
      | Some TC_STRUCT_BEGIN \<Rightarrow> Inr 8 | Some TC_DICT_BEGIN \<Rightarrow> Inr 8
      | _ \<Rightarrow> Inl RuntimeError)"

text \<open>\<^verbatim>\<open>Signature::GetAlignmentOfSignature\<close> reads \<^verbatim>\<open>m_signature[0]\<close>, a null character when empty.\<close>

definition Signature_alignment :: "Signature \<Rightarrow> nat result" where
  "Signature_alignment s = GetAlignmentOfSignature (str_head (GetSignature s))"

section \<open>The daemon's address and the handshake's hexadecimal encoding\<close>

definition starts_with :: "string \<Rightarrow> string \<Rightarrow> bool" where
  "starts_with s p = (take (length p) s = p)"

text \<open>\<^verbatim>\<open>std::string_view::find\<close>: the offset of the first occurrence, \<open>None\<close> for \<^verbatim>\<open>npos\<close>.\<close>

fun find_sub :: "string \<Rightarrow> string \<Rightarrow> nat option" where
  "find_sub pat [] = (if pat = [] then Some 0 else None)"
| "find_sub pat (c # cs) =
     (if starts_with (c # cs) pat then Some 0 else map_option Suc (find_sub pat cs))"

text \<open>The argument is the value of the environment variable the bus type selects, \<open>None\<close> when it
  is not set.\<close>

definition bus_address_variable :: "BusType \<Rightarrow> string" where
  "bus_address_variable t =
     (if t = SESSION then ''DBUS_SESSION_BUS_ADDRESS'' else ''DBUS_SYSTEM_BUS_ADDRESS'')"

definition ParseDBusAddress :: "(string \<Rightarrow> string option) \<Rightarrow> BusType \<Rightarrow> string result" where
  "ParseDBusAddress getenv type =
     (case getenv (bus_address_variable type) of
        None \<Rightarrow> Inr []
      | Some rawAddress \<Rightarrow>
          if \<not> starts_with rawAddress ''unix:'' then Inl RuntimeError
          else let dbusAddress = drop 5 rawAddress in
            (case find_sub ''path='' dbusAddress of
               None \<Rightarrow> Inl RuntimeError
             | Some pos \<Rightarrow>
                 (case find_sub '','' (drop pos dbusAddress) of
                    None \<Rightarrow> Inr (drop (pos + 5) dbusAddress)
                  | Some off \<Rightarrow>
                      Inr (take (pos + off - (pos + 5)) (drop (pos + 5) dbusAddress)))))"

definition hex_digit :: "nat \<Rightarrow> char" where
  "hex_digit n = (if n < 10 then char_of (48 + n) else char_of (87 + n))"

text \<open>\<^verbatim>\<open>std::format("{:x}", c)\<close>: no leading zero.\<close>

definition hex_format :: "char \<Rightarrow> string" where
  "hex_format c = (let n = of_char c :: nat in
     if n < 16 then [hex_digit n] else [hex_digit (n div 16), hex_digit (n mod 16)])"

definition HexEncodeString :: "string \<Rightarrow> string" where
  "HexEncodeString str = concat (map hex_format str)"

section \<open>Lemmas: signatures\<close>

lemmas type_code_preds =
  IsDBusBasicFixedTypeCode_def IsDBusBasicStringlikeTypeCode_def IsDBusBasicTypeCode_def
  IsDBusContainerTypeCode_def IsDBusTypeCode_char_def type_code_def

lemma fix_align_pos [simp]: "0 < fix_align f"
  by (cases f) simp_all

lemma wire_size_pos [simp]: "0 < wire_size f"
  by (cases f) simp_all

lemma fix_align_size [simp]: "fix_align f = wire_size f"
  by (cases f) simp_all

lemma align_pos [simp]: "0 < GetAlignmentOfDBusType t"
  by (cases t) simp_all

lemma align_cases: "GetAlignmentOfDBusType t \<in> {1, 2, 4, 8}"
proof (cases t)
  case (TFixed f)
  then show ?thesis by (cases f) simp_all
qed simp_all

lemma align_dvd_8 [simp]: "GetAlignmentOfDBusType t dvd 8"
  using align_cases [of t] by auto

lemma signature_nonempty [simp]: "GetTypeSignature t \<noteq> []"
  by (cases t rule: GetTypeSignature.cases) simp_all

lemma IsDBusTypeCode_append [simp]:
  "IsDBusTypeCode (s @ t) \<longleftrightarrow> IsDBusTypeCode s \<and> IsDBusTypeCode t"
  by (simp add: IsDBusTypeCode_def)

lemma IsDBusTypeCode_Cons [simp]:
  "IsDBusTypeCode (c # t) \<longleftrightarrow> IsDBusTypeCode_char c \<and> IsDBusTypeCode t"
  by (simp add: IsDBusTypeCode_def)

lemma IsDBusTypeCode_Nil [simp]: "IsDBusTypeCode []"
  by (simp add: IsDBusTypeCode_def)

lemma IsDBusTypeCode_concat: "(\<And>s. s \<in> set ss \<Longrightarrow> IsDBusTypeCode s) \<Longrightarrow> IsDBusTypeCode (concat ss)"
  by (induction ss) auto

lemma signature_type_codes: "IsDBusTypeCode (GetTypeSignature t)"
  by (induction t rule: GetTypeSignature.induct)
     (auto simp: type_code_preds intro!: IsDBusTypeCode_concat)

text \<open>Running the counter over a balanced string gives the value it started with.\<close>

definition balanced :: "string \<Rightarrow> bool" where
  "balanced s \<longleftrightarrow> (\<forall>k. bracket_count k s = k)"

lemma bracket_count_append: "bracket_count k (s @ t) = bracket_count (bracket_count k s) t"
  by (induction k s rule: bracket_count.induct)
     (auto split: option.splits DBusTypeCodes.splits)

lemma balanced_append: "balanced s \<Longrightarrow> balanced t \<Longrightarrow> balanced (s @ t)"
  by (simp add: balanced_def bracket_count_append)

lemma balanced_Nil [simp]: "balanced []"
  by (simp add: balanced_def)

lemma balanced_concat: "(\<And>s. s \<in> set ss \<Longrightarrow> balanced s) \<Longrightarrow> balanced (concat ss)"
  by (induction ss) (auto intro: balanced_append)

lemma signature_balanced: "balanced (GetTypeSignature t)"
proof (induction t rule: GetTypeSignature.induct)
  case (15 ts)
  then have "balanced (concat (map GetTypeSignature ts))"
    by (auto intro!: balanced_concat)
  then show ?case
    by (simp add: balanced_def bracket_count_append type_code_def)
next
  case (18 k v)
  then show ?case
    by (simp add: balanced_def bracket_count_append type_code_def)
qed (simp_all add: balanced_def type_code_def)

lemma multi_signature_balanced: "balanced (BuildMultipleCompleteTypesSignature ts)"
  by (auto simp: BuildMultipleCompleteTypesSignature_def intro!: balanced_concat signature_balanced)

lemma multi_signature_type_codes: "IsDBusTypeCode (BuildMultipleCompleteTypesSignature ts)"
  by (auto simp: BuildMultipleCompleteTypesSignature_def intro!: IsDBusTypeCode_concat signature_type_codes)

text \<open>The first character of a signature determines its alignment; for maps the alignment the
  compile-time function gives (8) is that of the dictionary entries, not of the array (4).\<close>

lemma signature_alignment:
  "GetAlignmentOfSignature (str_head (GetTypeSignature t)) =
   Inr (if IsDBusMap t then 4 else GetAlignmentOfDBusType t)"
  by (cases t rule: GetTypeSignature.cases)
     (simp_all add: GetAlignmentOfSignature_def type_code_def)

lemma signature_head_no_close:
  "str_head (GetTypeSignature t) \<noteq> CHR '')''" "str_head (GetTypeSignature t) \<noteq> CHR 0x7D"
  by (cases t rule: GetTypeSignature.cases; simp)+

lemma str_head_append [simp]: "s \<noteq> [] \<Longrightarrow> str_head (s @ t) = str_head s"
  by (cases s) simp_all

text \<open>Types that are the same on the wire: the C++ types a signature does not tell apart.\<close>

fun wire_type :: "cty \<Rightarrow> cty" where
  "wire_type (TFixed f) = TFixed f"
| "wire_type (TString s) = TString (if s = InterfaceString then StdString else s)"
| "wire_type (TArr n t) = TArr None (wire_type t)"
| "wire_type (TTuple ts) = TTuple (map wire_type ts)"
| "wire_type (TMap k v) = TMap (wire_type k) (wire_type v)"
| "wire_type TVariant = TVariant"
| "wire_type TFastVariant = TVariant"

lemma signature_wire_type [simp]: "GetTypeSignature (wire_type t) = GetTypeSignature t"
proof (induction t rule: wire_type.induct)
  case (2 s)
  then show ?case by (cases s) simp_all
next
  case (4 ts)
  then show ?case by (simp add: comp_def cong: map_cong)
qed simp_all

lemma signature_starts:
  "GetTypeSignature t = CHR ''('' # r \<Longrightarrow> \<exists>ts. t = TTuple ts"
  "GetTypeSignature t = CHR ''a'' # CHR 0x7B # r \<Longrightarrow> \<exists>k v. t = TMap k v"
proof -
  show "GetTypeSignature t = CHR ''('' # r \<Longrightarrow> \<exists>ts. t = TTuple ts"
    by (cases t rule: GetTypeSignature.cases) simp_all
  have no: "GetTypeSignature u = CHR 0x7B # w \<Longrightarrow> False" for u w
    by (cases u rule: GetTypeSignature.cases) simp_all
  show "GetTypeSignature t = CHR ''a'' # CHR 0x7B # r \<Longrightarrow> \<exists>k v. t = TMap k v"
    by (cases t rule: GetTypeSignature.cases) (auto dest: no)
qed

lemma signature_no_brace: "GetTypeSignature t \<noteq> CHR 0x7B # r"
  by (cases t rule: GetTypeSignature.cases) simp_all

lemma signatures_unique:
  assumes IH: "\<And>t u r s. t \<in> set ts \<Longrightarrow> GetTypeSignature t @ r = GetTypeSignature u @ s \<Longrightarrow>
      wire_type t = wire_type u \<and> r = s"
    and eq: "concat (map GetTypeSignature ts) @ CHR '')'' # r =
      concat (map GetTypeSignature us) @ CHR '')'' # s"
  shows "map wire_type ts = map wire_type us \<and> r = s"
  using assms
proof (induction ts arbitrary: us)
  case Nil
  show ?case
  proof (cases us)
    case Nil
    with Nil.prems(2) show ?thesis by simp
  next
    case (Cons u us')
    with Nil.prems(2) have "str_head (GetTypeSignature u @ concat (map GetTypeSignature us') @ CHR '')'' # s) = CHR '')''"
      by (metis append_assoc append_Nil concat.simps(1) concat.simps(2) list.map(1) list.map(2) str_head_simps(2))
    then show ?thesis using signature_head_no_close(1) [of u] by simp
  qed
next
  case (Cons t ts)
  show ?case
  proof (cases us)
    case Nil
    with Cons.prems(2) have "str_head (GetTypeSignature t @ concat (map GetTypeSignature ts) @ CHR '')'' # r) = CHR '')''"
      by (metis append_assoc append_Nil concat.simps(1) concat.simps(2) list.map(1) list.map(2) str_head_simps(2))
    then show ?thesis using signature_head_no_close(1) [of t] by simp
  next
    case us: (Cons u us')
    with Cons.prems(2) have
      "GetTypeSignature t @ (concat (map GetTypeSignature ts) @ CHR '')'' # r) =
       GetTypeSignature u @ (concat (map GetTypeSignature us') @ CHR '')'' # s)" by simp
    from Cons.prems(1) [OF _ this] have t: "wire_type t = wire_type u" and
      rest: "concat (map GetTypeSignature ts) @ CHR '')'' # r =
        concat (map GetTypeSignature us') @ CHR '')'' # s" by simp_all
    have "map wire_type ts = map wire_type us' \<and> r = s"
    proof (rule Cons.IH [OF _ rest])
      fix t' u' r' s'
      assume "t' \<in> set ts" and e: "GetTypeSignature t' @ r' = GetTypeSignature u' @ s'"
      then have "t' \<in> set (t # ts)" by simp
      then show "wire_type t' = wire_type u' \<and> r' = s'" using e by (rule Cons.prems(1))
    qed
    with t us show ?thesis by simp
  qed
qed

lemma signature_prefix_unique:
  "GetTypeSignature t @ r = GetTypeSignature u @ s \<Longrightarrow> wire_type t = wire_type u \<and> r = s"
proof (induction t arbitrary: u r s)
  case (TFixed f)
  then show ?case
    by (cases f; cases u rule: GetTypeSignature.cases) simp_all
next
  case (TString x)
  then show ?case
    by (cases x; cases u rule: GetTypeSignature.cases) simp_all
next
  case (TArr n t)
  show ?case
  proof (cases u)
    case (TArr m t')
    with TArr.prems have "GetTypeSignature t @ r = GetTypeSignature t' @ s" by simp
    from TArr.IH [OF this] TArr show ?thesis by simp
  next
    case (TMap k v)
    with TArr.prems have "GetTypeSignature t @ r = CHR 0x7B # GetTypeSignature k @ GetTypeSignature v @ CHR 0x7D # s"
      by simp
    then show ?thesis
      using signature_no_brace [of t] signature_nonempty [of t]
      by (cases "GetTypeSignature t") auto
  next
    case (TFixed f)
    with TArr.prems show ?thesis by (cases f) simp_all
  next
    case (TString x)
    with TArr.prems show ?thesis by (cases x) simp_all
  qed (use TArr.prems in simp_all)
next
  case (TTuple ts)
  show ?case
  proof (cases u)
    case (TTuple us)
    with TTuple.prems have
      "concat (map GetTypeSignature ts) @ CHR '')'' # r = concat (map GetTypeSignature us) @ CHR '')'' # s"
      by simp
    from signatures_unique [OF TTuple.IH this] TTuple show ?thesis by simp
  next
    case (TFixed f)
    with TTuple.prems show ?thesis by (cases f) simp_all
  next
    case (TString x)
    with TTuple.prems show ?thesis by (cases x) simp_all
  qed (use TTuple.prems in simp_all)
next
  case (TMap k v)
  show ?case
  proof (cases u)
    case (TMap k' v')
    with TMap.prems have
      "GetTypeSignature k @ (GetTypeSignature v @ CHR 0x7D # r) =
       GetTypeSignature k' @ (GetTypeSignature v' @ CHR 0x7D # s)" by simp
    from TMap.IH(1) [OF this] have "wire_type k = wire_type k'" and
      v: "GetTypeSignature v @ CHR 0x7D # r = GetTypeSignature v' @ CHR 0x7D # s" by simp_all
    moreover from TMap.IH(2) [OF v] have "wire_type v = wire_type v'" "r = s" by simp_all
    ultimately show ?thesis using TMap by simp
  next
    case (TArr m t')
    with TMap.prems have "GetTypeSignature t' @ s = CHR 0x7B # GetTypeSignature k @ GetTypeSignature v @ CHR 0x7D # r"
      by simp
    then show ?thesis
      using signature_no_brace [of t'] signature_nonempty [of t']
      by (cases "GetTypeSignature t'") auto
  next
    case (TFixed f)
    with TMap.prems show ?thesis by (cases f) simp_all
  next
    case (TString x)
    with TMap.prems show ?thesis by (cases x) simp_all
  qed (use TMap.prems in simp_all)
next
  case TVariant
  then show ?case by (cases u rule: GetTypeSignature.cases) simp_all
next
  case TFastVariant
  then show ?case by (cases u rule: GetTypeSignature.cases) simp_all
qed

end
