(* ===== verification/Values.thy ===== *)
theory Values
  imports DBusHelpers
begin

text \<open>
  The values of the types of \<^verbatim>\<open>DBusHelpers\<close>, as the templates of \<^verbatim>\<open>src/src/DBus.h\<close> see them: each
  value determines its C++ type (\<open>type_of\<close>). Integers are words of their width, a \<^verbatim>\<open>double\<close> is its
  IEEE bit pattern, a \<^verbatim>\<open>std::map\<close> is the list of its entries in key order. The last part models the
  class \<^verbatim>\<open>Variant\<close>: its three states and the small-buffer optimisation of \<^verbatim>\<open>Variant::Create\<close>.
\<close>

section \<open>Fixed-size values\<close>

datatype fixval =
    FU8 "8 word" | FBool bool | FI16 "16 word" | FU16 "16 word" | FI32 "32 word"
  | FU32 "32 word" | FI64 "64 word" | FU64 "64 word" | FDouble "64 word"

fun fix_type :: "fixval \<Rightarrow> fixty" where
  "fix_type (FU8 w) = U8"
| "fix_type (FBool b) = Bool"
| "fix_type (FI16 w) = I16"
| "fix_type (FU16 w) = U16"
| "fix_type (FI32 w) = I32"
| "fix_type (FU32 w) = U32"
| "fix_type (FI64 w) = I64"
| "fix_type (FU64 w) = U64"
| "fix_type (FDouble w) = Double"

text \<open>The unsigned number whose bytes are sent: a boolean travels as 0 or 1.\<close>

fun fix_nat :: "fixval \<Rightarrow> nat" where
  "fix_nat (FU8 w) = unat w"
| "fix_nat (FBool b) = (if b then 1 else 0)"
| "fix_nat (FI16 w) = unat w"
| "fix_nat (FU16 w) = unat w"
| "fix_nat (FI32 w) = unat w"
| "fix_nat (FU32 w) = unat w"
| "fix_nat (FI64 w) = unat w"
| "fix_nat (FU64 w) = unat w"
| "fix_nat (FDouble w) = unat w"

text \<open>The value read back from such a number: only 1 is read as true.\<close>

fun fix_of :: "fixty \<Rightarrow> nat \<Rightarrow> fixval" where
  "fix_of U8 n = FU8 (word_of_nat n)"
| "fix_of Bool n = FBool (n = 1)"
| "fix_of I16 n = FI16 (word_of_nat n)"
| "fix_of U16 n = FU16 (word_of_nat n)"
| "fix_of I32 n = FI32 (word_of_nat n)"
| "fix_of U32 n = FU32 (word_of_nat n)"
| "fix_of I64 n = FI64 (word_of_nat n)"
| "fix_of U64 n = FU64 (word_of_nat n)"
| "fix_of Double n = FDouble (word_of_nat n)"

definition wire_fixed :: "fixval \<Rightarrow> 8 word list" where
  "wire_fixed x = le_bytes (wire_size (fix_type x)) (fix_nat x)"

lemma fix_of_nat [simp]: "fix_of (fix_type x) (fix_nat x) = x"
  by (cases x) simp_all

lemma fix_nat_less: "fix_nat x < 256 ^ wire_size (fix_type x)"
proof -
  have "unat (w8 :: 8 word) < 256" "unat (w16 :: 16 word) < 65536"
    "unat (w32 :: 32 word) < 4294967296" "unat (w64 :: 64 word) < 18446744073709551616"
    for w8 w16 w32 w64
    using unsigned_less [of w8, where ?'a = nat] unsigned_less [of w16, where ?'a = nat]
      unsigned_less [of w32, where ?'a = nat] unsigned_less [of w64, where ?'a = nat] by simp_all
  then show ?thesis by (cases x) simp_all
qed

lemma length_wire_fixed [simp]: "length (wire_fixed x) = wire_size (fix_type x)"
  by (simp add: wire_fixed_def)

lemma le_nat_wire_fixed [simp]: "le_nat (wire_fixed x) = fix_nat x"
  by (simp add: wire_fixed_def le_nat_le_bytes fix_nat_less)

section \<open>Values\<close>

text \<open>
  \<open>VHeap\<close>, \<open>VInlineObj\<close> and \<open>VInlineStr\<close> are the three ways \<^verbatim>\<open>Variant::VariantData\<close> holds its
  content, each with the stored signature and alignment: behind a \<^verbatim>\<open>shared_ptr\<close>, as the object
  representation of a trivially copyable value in the 32-byte buffer (whose value is \<open>v\<close>), and as
  a null-terminated string in that buffer. \<open>VDeser\<close> is \<^verbatim>\<open>Variant::DeserializedVariantData\<close>: a
  signature and the undecoded bytes. The last two are the states of \<^verbatim>\<open>FastVariant\<close>.
\<close>

datatype dval =
    VFixed fixval
  | VString strty string
  | VArr "nat option" cty "dval list"
  | VTuple "dval list"
  | VMap cty cty "(dval \<times> dval) list"
  | VHeap string nat dval
  | VInlineObj string nat dval
  | VInlineStr string nat "8 word list" strty
  | VMonostate
  | VDeser string "8 word list"
  | VFastDeser string "8 word list"
  | VFastMonostate

fun type_of :: "dval \<Rightarrow> cty" where
  "type_of (VFixed x) = TFixed (fix_type x)"
| "type_of (VString s str) = TString s"
| "type_of (VArr n t vs) = TArr n t"
| "type_of (VTuple vs) = TTuple (map type_of vs)"
| "type_of (VMap k v m) = TMap k v"
| "type_of (VHeap sg al v) = TVariant"
| "type_of (VInlineObj sg al v) = TVariant"
| "type_of (VInlineStr sg al buf s) = TVariant"
| "type_of VMonostate = TVariant"
| "type_of (VDeser sg bs) = TVariant"
| "type_of (VFastDeser sg bs) = TFastVariant"
| "type_of VFastMonostate = TFastVariant"

text \<open>The string a buffer holds when it is read as a C string.\<close>

definition c_string :: "8 word list \<Rightarrow> string" where
  "c_string buf = string_of_bytes (takeWhile (\<lambda>b. b \<noteq> 0) buf)"

section \<open>The order of map keys\<close>

text \<open>
  \<^verbatim>\<open>operator<\<close> of the key types. Doubles compare as sign and magnitude, and a NaN is less than
  nothing; strings compare lexicographically by unsigned characters.
\<close>

definition double_key :: "64 word \<Rightarrow> int" where
  "double_key w = (let n = unat w in
     if n < 9223372036854775808 then int n else - int (n - 9223372036854775808))"

definition double_nan :: "64 word \<Rightarrow> bool" where
  "double_nan w = (\<bar>double_key w\<bar> > 9218868437227405312)"

fun fix_less :: "fixval \<Rightarrow> fixval \<Rightarrow> bool" where
  "fix_less (FU8 a) (FU8 b) = (a < b)"
| "fix_less (FBool a) (FBool b) = (\<not> a \<and> b)"
| "fix_less (FI16 a) (FI16 b) = (sint a < sint b)"
| "fix_less (FU16 a) (FU16 b) = (a < b)"
| "fix_less (FI32 a) (FI32 b) = (sint a < sint b)"
| "fix_less (FU32 a) (FU32 b) = (a < b)"
| "fix_less (FI64 a) (FI64 b) = (sint a < sint b)"
| "fix_less (FU64 a) (FU64 b) = (a < b)"
| "fix_less (FDouble a) (FDouble b) =
     (\<not> double_nan a \<and> \<not> double_nan b \<and> double_key a < double_key b)"
| "fix_less _ _ = False"

fun key_less :: "dval \<Rightarrow> dval \<Rightarrow> bool" where
  "key_less (VFixed a) (VFixed b) = fix_less a b"
| "key_less (VString s a) (VString t b) = (a < b)"
| "key_less _ _ = False"

text \<open>\<^verbatim>\<open>std::map::emplace\<close>: an equivalent key that is already there wins.\<close>

fun map_emplace :: "dval \<Rightarrow> dval \<Rightarrow> (dval \<times> dval) list \<Rightarrow> (dval \<times> dval) list" where
  "map_emplace k v [] = [(k, v)]"
| "map_emplace k v ((k', v') # m) =
     (if key_less k k' then (k, v) # (k', v') # m
      else if key_less k' k then (k', v') # map_emplace k v m
      else (k', v') # m)"

lemma fix_less_asym: "fix_less a b \<Longrightarrow> \<not> fix_less b a"
  by (cases a; cases b) auto

lemma key_less_asym: "key_less a b \<Longrightarrow> \<not> key_less b a"
  by (cases a; cases b) (auto dest: fix_less_asym)

lemma map_emplace_last:
  "(\<And>k'. k' \<in> fst ` set m \<Longrightarrow> key_less k' k) \<Longrightarrow> map_emplace k v m = m @ [(k, v)]"
proof (induction m)
  case Nil
  then show ?case by simp
next
  case (Cons e m)
  obtain k' v' where e: "e = (k', v')" by (cases e)
  with Cons.prems have "key_less k' k" by simp
  moreover from this have "\<not> key_less k k'" by (rule key_less_asym)
  moreover have "map_emplace k v m = m @ [(k, v)]"
    by (rule Cons.IH) (use Cons.prems in auto)
  ultimately show ?case using e by simp
qed

section \<open>Creating variants\<close>

definition SMALL_BUFFER_SIZE :: nat where
  "SMALL_BUFFER_SIZE = 32"

fun trivially_copyable :: "cty \<Rightarrow> bool" where
  "trivially_copyable (TFixed f) = True"
| "trivially_copyable (TArr (Some n) t) = trivially_copyable t"
| "trivially_copyable _ = False"

fun cpp_sizeof :: "cty \<Rightarrow> nat" where
  "cpp_sizeof (TFixed f) = mem_size f"
| "cpp_sizeof (TArr (Some n) t) = n * cpp_sizeof t"
| "cpp_sizeof _ = 0"

text \<open>The zero-initialised buffer after \<^verbatim>\<open>memcpy\<close> of the string's characters.\<close>

definition small_buffer :: "string \<Rightarrow> 8 word list" where
  "small_buffer s = bytes_of_string s @ replicate (SMALL_BUFFER_SIZE - length s) 0"

definition Variant_Create :: "dval \<Rightarrow> dval" where
  "Variant_Create value =
     (let t = type_of value; sg = GetTypeSignature t; al = GetAlignmentOfDBusType t in
      if trivially_copyable t \<and> cpp_sizeof t \<le> SMALL_BUFFER_SIZE then VInlineObj sg al value
      else case value of
        VString st s \<Rightarrow>
          if u32 (length s) \<le> SMALL_BUFFER_SIZE - 1 then VInlineStr sg al (small_buffer s) st
          else VHeap sg al value
      | _ \<Rightarrow> VHeap sg al value)"

text \<open>\<^verbatim>\<open>Variant::GetSignature\<close> and \<^verbatim>\<open>Variant::GetDataAlignment\<close>.\<close>

fun Variant_GetSignature :: "dval \<Rightarrow> string result" where
  "Variant_GetSignature (VHeap sg al v) = Inr sg"
| "Variant_GetSignature (VInlineObj sg al v) = Inr sg"
| "Variant_GetSignature (VInlineStr sg al buf st) = Inr sg"
| "Variant_GetSignature (VDeser sg bs) = Inr sg"
| "Variant_GetSignature (VFastDeser sg bs) = Inr sg"
| "Variant_GetSignature _ = Inl RuntimeError"

fun Variant_GetDataAlignment :: "dval \<Rightarrow> nat result" where
  "Variant_GetDataAlignment (VHeap sg al v) = Inr al"
| "Variant_GetDataAlignment (VInlineObj sg al v) = Inr al"
| "Variant_GetDataAlignment (VInlineStr sg al buf st) = Inr al"
| "Variant_GetDataAlignment (VDeser sg bs) = Inr 1"
| "Variant_GetDataAlignment (VFastDeser sg bs) = Inr 1"
| "Variant_GetDataAlignment _ = Inl RuntimeError"

section \<open>Well-formed values\<close>

text \<open>
  What the C++ type system and the class invariants guarantee of a value: elements have the
  element type, arrays have their length, map keys are basic and in order, paths and interface
  names have passed their constructor (a default-constructed \<^verbatim>\<open>ObjectPath\<close> is excluded), and a
  variant stores what \<^verbatim>\<open>Variant::Create\<close> computes.
\<close>

definition valid_string :: "strty \<Rightarrow> string \<Rightarrow> bool" where
  "valid_string st s \<longleftrightarrow>
     (st = ObjectPathString \<longrightarrow> ValidateDBusObjectPath s = None) \<and>
     (st = InterfaceString \<longrightarrow> ValidateDBusInterfaceName s = None)"

function (sequential) wt :: "dval \<Rightarrow> bool" and wt_entries :: "cty \<Rightarrow> cty \<Rightarrow> (dval \<times> dval) list \<Rightarrow> bool"
  and wt_elems :: "dval list \<Rightarrow> bool" where
  "wt (VFixed x) = True"
| "wt (VString st s) = valid_string st s"
| "wt (VArr n t vs) =
     (wt_elems vs \<and> (\<forall>v \<in> set vs. type_of v = t) \<and>
      (case n of None \<Rightarrow> True | Some k \<Rightarrow> length vs = k))"
| "wt (VTuple vs) = wt_elems vs"
| "wt (VMap k v m) = (IsDBusBasicType k \<and> sorted_wrt key_less (map fst m) \<and> wt_entries k v m)"
| "wt (VHeap sg al v) =
     (sg = GetTypeSignature (type_of v) \<and> al = GetAlignmentOfDBusType (type_of v) \<and> wt v)"
| "wt (VInlineObj sg al v) =
     (sg = GetTypeSignature (type_of v) \<and> al = GetAlignmentOfDBusType (type_of v) \<and> wt v)"
| "wt (VInlineStr sg al buf st) =
     (sg = GetTypeSignature (TString st) \<and> al = GetAlignmentOfDBusType (TString st) \<and>
      length buf = SMALL_BUFFER_SIZE \<and> valid_string st (c_string buf))"
| "wt _ = True"
| "wt_entries k v [] = True"
| "wt_entries k v ((a, b) # m) =
     (type_of a = k \<and> wt a \<and> type_of b = v \<and> wt b \<and> wt_entries k v m)"
| "wt_elems [] = True"
| "wt_elems (v # vs) = (wt v \<and> wt_elems vs)"
  by pat_completeness auto
termination
  by (relation "measure (\<lambda>x. case x of Inl v \<Rightarrow> size v
        | Inr (Inl (k, v, m)) \<Rightarrow> size_list (size_prod size size) m
        | Inr (Inr vs) \<Rightarrow> size_list size vs)") auto

lemma wt_elems_iff: "wt_elems vs \<longleftrightarrow> (\<forall>v \<in> set vs. wt v)"
  by (induction vs) auto

lemma wt_entries_iff:
  "wt_entries k v m \<longleftrightarrow>
   (\<forall>(a, b) \<in> set m. type_of a = k \<and> wt a \<and> type_of b = v \<and> wt b)"
  by (induction m) auto

lemma byte_of_char_eq_iff [simp]: "byte_of_char c = byte_of_char d \<longleftrightarrow> c = d"
  by (metis char_of_byte_of_char)

lemma byte_of_char_null [simp]: "byte_of_char (CHR 0x00) = 0"
  by (simp add: byte_of_char_def)

lemma byte_of_char_0_iff [simp]: "byte_of_char c = 0 \<longleftrightarrow> c = CHR 0x00"
  by (metis byte_of_char_eq_iff byte_of_char_null)

lemma char_of_byte_null_iff [simp]: "char_of_byte b = CHR 0x00 \<longleftrightarrow> b = 0"
  by (metis byte_of_char_null byte_of_char_of_byte char_of_byte_of_char)

lemma c_string_no_null [simp]: "CHR 0x00 \<notin> set (c_string buf)"
proof
  assume "CHR 0x00 \<in> set (c_string buf)"
  then have "CHR 0x00 \<in> char_of_byte ` set (takeWhile (\<lambda>b. b \<noteq> 0) buf)"
    by (simp only: c_string_def string_of_bytes_def list.set_map)
  then obtain b where b: "b \<in> set (takeWhile (\<lambda>b. b \<noteq> 0) buf)" and "char_of_byte b = CHR 0x00"
    unfolding image_iff by metis
  then have "b = 0" by simp
  with set_takeWhileD [OF b] show False by simp
qed

lemma takeWhile_bytes_of_string:
  "takeWhile (\<lambda>b. b \<noteq> 0) (bytes_of_string s @ 0 # bs) =
   bytes_of_string (takeWhile (\<lambda>c. c \<noteq> CHR 0x00) s)"
  by (induction s) auto

lemma c_string_small_buffer:
  assumes "length s < SMALL_BUFFER_SIZE"
  shows "c_string (small_buffer s) = takeWhile (\<lambda>c. c \<noteq> CHR 0x00) s"
proof -
  obtain k where "SMALL_BUFFER_SIZE - length s = Suc k"
    using assms by (cases "SMALL_BUFFER_SIZE - length s") auto
  then show ?thesis
    by (simp add: c_string_def small_buffer_def takeWhile_bytes_of_string)
qed

lemma length_small_buffer: "length s \<le> SMALL_BUFFER_SIZE \<Longrightarrow> length (small_buffer s) = SMALL_BUFFER_SIZE"
  by (simp add: small_buffer_def)

lemma c_string_small_buffer_id:
  "length s < SMALL_BUFFER_SIZE \<Longrightarrow> CHR 0x00 \<notin> set s \<Longrightarrow> c_string (small_buffer s) = s"
  by (auto simp: c_string_small_buffer takeWhile_eq_all_conv)

lemma Variant_Create_string:
  "Variant_Create (VString st s) =
   (if u32 (length s) \<le> SMALL_BUFFER_SIZE - 1
    then VInlineStr (GetTypeSignature (TString st)) (GetAlignmentOfDBusType (TString st)) (small_buffer s) st
    else VHeap (GetTypeSignature (TString st)) (GetAlignmentOfDBusType (TString st)) (VString st s))"
  by (simp add: Variant_Create_def Let_def)

lemma Variant_Create_other:
  "\<nexists>st s. v = VString st s \<Longrightarrow>
   Variant_Create v = VInlineObj (GetTypeSignature (type_of v)) (GetAlignmentOfDBusType (type_of v)) v \<or>
   Variant_Create v = VHeap (GetTypeSignature (type_of v)) (GetAlignmentOfDBusType (type_of v)) v"
  by (cases v) (simp_all add: Variant_Create_def Let_def)

lemma wt_Variant_Create:
  assumes "wt v" and "\<And>st s. v = VString st s \<Longrightarrow> CHR 0x00 \<notin> set s \<and> length s < 4294967296"
  shows "wt (Variant_Create v)"
proof (cases "\<exists>st s. v = VString st s")
  case True
  then obtain st s where v: "v = VString st s" by blast
  with assms have "CHR 0x00 \<notin> set s" "length s < 4294967296" "valid_string st s" by auto
  moreover from this have "length s < SMALL_BUFFER_SIZE \<Longrightarrow> c_string (small_buffer s) = s"
    by (simp add: c_string_small_buffer_id)
  ultimately show ?thesis
    using length_small_buffer [of s]
    by (auto simp: v Variant_Create_string SMALL_BUFFER_SIZE_def simp del: GetTypeSignature.simps)
next
  case False
  then consider
      "Variant_Create v = VInlineObj (GetTypeSignature (type_of v)) (GetAlignmentOfDBusType (type_of v)) v"
    | "Variant_Create v = VHeap (GetTypeSignature (type_of v)) (GetAlignmentOfDBusType (type_of v)) v"
    using Variant_Create_other [of v] by blast
  then show ?thesis using assms(1) by cases simp_all
qed

lemma type_of_Variant_Create [simp]: "type_of (Variant_Create v) = TVariant"
  by (cases v) (simp_all add: Variant_Create_def Let_def)

lemma Variant_Create_signature:
  "Variant_GetSignature (Variant_Create v) = Inr (GetTypeSignature (type_of v))"
  by (cases v) (simp_all add: Variant_Create_def Let_def del: GetTypeSignature.simps)

end
