(* ===== verification/Marshal.thy ===== *)
theory Marshal
  imports Values
begin

text \<open>
  The marshalling half of \<^verbatim>\<open>src/src/DBus.h\<close>: the templates \<^verbatim>\<open>Marshal...\<close> write a value at the end of
  a byte vector, padding relative to the vector's length. The C++ templates dispatch on the
  static type; here the mutually recursive functions dispatch on the value, which determines it.
  A thrown exception is \<open>Inl\<close>.
\<close>

section \<open>Padding\<close>

definition zeros :: "nat \<Rightarrow> 8 word list" where
  "zeros n = replicate n 0"

lemma length_zeros [simp]: "length (zeros n) = n"
  by (simp add: zeros_def)

lemma zeros_0 [simp]: "zeros 0 = []"
  by (simp add: zeros_def)

definition ApplyPadding :: "8 word list \<Rightarrow> nat \<Rightarrow> 8 word list" where
  "ApplyPadding bytes alignment =
     (let result = length bytes mod alignment in
      if result \<noteq> 0 then bytes @ zeros (alignment - result) else bytes)"

text \<open>\<^verbatim>\<open>AddPaddingToSize\<close> returns the new size and the number of padding bytes.\<close>

definition AddPaddingToSize :: "nat \<Rightarrow> nat \<Rightarrow> nat \<times> nat" where
  "AddPaddingToSize sz alignment =
     (let result = sz mod alignment in
      if result = 0 then (sz, 0)
      else (u32 (sz + (alignment - result)), alignment - result))"

definition SkipPadding :: "nat \<Rightarrow> nat \<Rightarrow> nat" where
  "SkipPadding arrPointer alignment =
     (let result = arrPointer mod alignment in
      if result = 0 then arrPointer else u32 (arrPointer + (alignment - result)))"

lemma ApplyPadding_padn: "ApplyPadding bs a = bs @ zeros (padn a (length bs))"
  by (simp add: ApplyPadding_def padn_def Let_def)

lemma SkipPadding_padn: "p + padn a p < 4294967296 \<Longrightarrow> SkipPadding p a = p + padn a p"
  by (simp add: SkipPadding_def padn_def Let_def split: if_splits)

lemma AddPaddingToSize_padn:
  "p + padn a p < 4294967296 \<Longrightarrow> AddPaddingToSize p a = (p + padn a p, padn a p)"
  by (simp add: AddPaddingToSize_def padn_def Let_def split: if_splits)

section \<open>Basic types\<close>

definition MarshalBasicFixedType :: "fixval \<Rightarrow> 8 word list \<Rightarrow> 8 word list" where
  "MarshalBasicFixedType value dbusType = dbusType @ wire_fixed value"

definition MarshalBasicStringlikeType ::
    "strty \<Rightarrow> string \<Rightarrow> 8 word list \<Rightarrow> 8 word list result" where
  "MarshalBasicStringlikeType st str dbusType =
     (if CHR 0x00 \<in> set str then Inl DBusSerializationError
      else
        let sz = length str;
            dbusType1 =
              (if st \<noteq> SignatureString
               then MarshalBasicFixedType (FU32 (word_of_nat sz)) dbusType
               else MarshalBasicFixedType (FU8 (word_of_nat sz)) dbusType)
        in Inr (dbusType1 @ bytes_of_string str @ [0]))"

section \<open>Containers\<close>

text \<open>\<^verbatim>\<open>memcpy\<close> of a \<^verbatim>\<open>uint32_t\<close> over the four bytes at \<open>pos\<close>.\<close>

definition write_u32_at :: "nat \<Rightarrow> nat \<Rightarrow> 8 word list \<Rightarrow> 8 word list" where
  "write_u32_at pos n bs = take pos bs @ le_bytes 4 n @ drop (pos + 4) bs"

text \<open>The object representation of an element of a contiguous array of fixed-size values.\<close>

fun raw_bytes :: "dval \<Rightarrow> 8 word list" where
  "raw_bytes (VFixed x) = wire_fixed x"
| "raw_bytes _ = []"

text \<open>The alignment a struct field or map value is padded to: a map is an array of entries, so it is
  aligned as its leading \<^verbatim>\<open>uint32_t\<close>.\<close>

definition field_alignment :: "cty \<Rightarrow> nat" where
  "field_alignment t =
     (if IsDBusMap t then GetAlignmentOfDBusType (TFixed U32) else GetAlignmentOfDBusType t)"

text \<open>
  \<open>MarshalArrayElements\<close> is the loop of \<^verbatim>\<open>MarshalDBusArray\<close>, \<open>MarshalMapEntries\<close> the loop of
  \<^verbatim>\<open>MarshalDBusMap\<close>, whose flag says that the iterator is at \<^verbatim>\<open>cbegin()\<close>. The last four equations of
  the first function are \<^verbatim>\<open>Variant::MarshalData\<close>; a \<^verbatim>\<open>FastVariant\<close> has no such member.
\<close>

function (sequential)
  MarshalDBusTypeImpl :: "dval \<Rightarrow> 8 word list \<Rightarrow> 8 word list result" and
  MarshalArrayElements :: "nat \<Rightarrow> dval list \<Rightarrow> 8 word list \<Rightarrow> 8 word list result" and
  MarshalDBusStruct :: "dval list \<Rightarrow> 8 word list \<Rightarrow> 8 word list result" and
  MarshalMapEntries ::
    "bool \<Rightarrow> cty \<Rightarrow> (dval \<times> dval) list \<Rightarrow> 8 word list \<Rightarrow> 8 word list result" where
  "MarshalDBusTypeImpl (VFixed x) dbusType = Inr (MarshalBasicFixedType x dbusType)"
| "MarshalDBusTypeImpl (VString st s) dbusType = MarshalBasicStringlikeType st s dbusType"
| "MarshalDBusTypeImpl (VArr n t vs) dbusType =
     (if IsDBusBasicFixedType t \<and> t \<noteq> TFixed Bool then
        let d1 = MarshalBasicFixedType (FU32 (word_of_nat (length vs * cpp_sizeof t))) dbusType;
            d2 = ApplyPadding d1 (GetAlignmentOfDBusType t)
        in Inr (d2 @ concat (map raw_bytes vs))
      else
        let alignment = GetAlignmentOfDBusType t;
            d1 = MarshalBasicFixedType (FU32 0) dbusType;
            sizePos = length d1 - 4;
            d2 = ApplyPadding d1 alignment;
            beginDataPos = u32 (length d2)
        in bindE (MarshalArrayElements alignment vs d2) (\<lambda>d3.
             let arrSize = u32 (length d3 - beginDataPos) in
             if arrSize \<ge> 67108864 then Inl LengthError
             else Inr (write_u32_at sizePos arrSize d3)))"
| "MarshalDBusTypeImpl (VTuple vs) dbusType = MarshalDBusStruct vs dbusType"
| "MarshalDBusTypeImpl (VMap k v m) dbusType =
     (let alignment = GetAlignmentOfDBusType (TMap k v) in
      bindE (MarshalMapEntries True v m []) (\<lambda>tempBuffer.
        let d1 = MarshalBasicFixedType (FU32 (word_of_nat (length tempBuffer))) dbusType;
            d2 = ApplyPadding d1 alignment;
            d3 = d2 @ tempBuffer
        in Inr (if m = [] then ApplyPadding d3 alignment else d3)))"
| "MarshalDBusTypeImpl (VHeap sg al v) dbusType =
     bindE (MarshalBasicStringlikeType SignatureString sg dbusType) (\<lambda>d1.
       MarshalDBusTypeImpl v (ApplyPadding d1 al))"
| "MarshalDBusTypeImpl (VInlineObj sg al v) dbusType =
     bindE (MarshalBasicStringlikeType SignatureString sg dbusType) (\<lambda>d1.
       MarshalDBusTypeImpl v (ApplyPadding d1 al))"
| "MarshalDBusTypeImpl (VInlineStr sg al buf st) dbusType =
     bindE (MarshalBasicStringlikeType SignatureString sg dbusType) (\<lambda>d1.
       MarshalBasicStringlikeType st (c_string buf) (ApplyPadding d1 al))"
| "MarshalDBusTypeImpl _ dbusType = Inl RuntimeError"
| "MarshalArrayElements alignment [] dbusType = Inr dbusType"
| "MarshalArrayElements alignment (v # vs) dbusType =
     bindE (MarshalDBusTypeImpl v dbusType) (\<lambda>d1.
       MarshalArrayElements alignment vs (if vs \<noteq> [] then ApplyPadding d1 alignment else d1))"
| "MarshalDBusStruct [] dbusType = Inr dbusType"
| "MarshalDBusStruct (v # vs) dbusType =
     bindE (MarshalDBusTypeImpl v dbusType) (\<lambda>d1.
       MarshalDBusStruct vs
         (if vs \<noteq> [] then ApplyPadding d1 (field_alignment (type_of (hd vs))) else d1))"
| "MarshalMapEntries first mapped [] tempBuffer = Inr tempBuffer"
| "MarshalMapEntries first mapped ((a, b) # m) tempBuffer =
     (let t1 = (if first then tempBuffer else ApplyPadding tempBuffer 8) in
      bindE (MarshalDBusTypeImpl a t1) (\<lambda>t2.
        bindE (MarshalDBusTypeImpl b (ApplyPadding t2 (field_alignment mapped))) (\<lambda>t3.
          MarshalMapEntries False mapped m t3)))"
  by pat_completeness auto
termination
  by (relation "measure (\<lambda>x. case x of
        Inl (Inl (v, d)) \<Rightarrow> size v
      | Inl (Inr (a, vs, d)) \<Rightarrow> size_list size vs
      | Inr (Inl (vs, d)) \<Rightarrow> size_list size vs
      | Inr (Inr (f, t, m, d)) \<Rightarrow> size_list (size_prod size size) m)") auto

text \<open>\<^verbatim>\<open>MultipleCompleteTypes\<close>: the values of a body with several arguments, one after another.\<close>

fun MarshalBasicMultipleCompleteTypes ::
    "dval list \<Rightarrow> 8 word list \<Rightarrow> 8 word list result" where
  "MarshalBasicMultipleCompleteTypes [] dbusType = Inr dbusType"
| "MarshalBasicMultipleCompleteTypes (v # vs) dbusType =
     bindE (MarshalDBusTypeImpl v dbusType) (\<lambda>d1.
       MarshalBasicMultipleCompleteTypes vs
         (if vs \<noteq> [] then ApplyPadding d1 (GetAlignmentOfDBusType (type_of (hd vs))) else d1))"

definition MarshalDBusType :: "dval \<Rightarrow> 8 word list result" where
  "MarshalDBusType value = MarshalDBusTypeImpl value []"

definition MarshalMultipleCompleteTypes :: "dval list \<Rightarrow> 8 word list result" where
  "MarshalMultipleCompleteTypes values = MarshalBasicMultipleCompleteTypes values []"

section \<open>The library's test vectors\<close>

text \<open>Outputs the unit tests of \<^verbatim>\<open>src/src/test/test_marshalling.cpp\<close> expect, computed by the model.\<close>

lemma test_marshal_strings:
  "MarshalDBusType (VArr None (TString StdString) [VString StdString ''a'', VString StdString ''bc'']) =
   Inr [0x0F, 0, 0, 0, 1, 0, 0, 0, 97, 0, 0, 0, 2, 0, 0, 0, 98, 99, 0]"
  by code_simp

lemma test_marshal_uint64_array:
  "MarshalDBusType (VArr None (TFixed U64) [VFixed (FU64 1), VFixed (FU64 2)]) =
   Inr [0x10, 0, 0, 0, 0, 0, 0, 0, 1, 0, 0, 0, 0, 0, 0, 0, 2, 0, 0, 0, 0, 0, 0, 0]"
  by code_simp

lemma test_marshal_variant_struct:
  "MarshalDBusType (VTuple [VFixed (FU8 0xAA), VFixed (FU8 0xBB),
      Variant_Create (VFixed (FU32 0x11223344))]) =
   Inr [0xAA, 0xBB, 1, 117, 0, 0, 0, 0, 0x44, 0x33, 0x22, 0x11]"
  by code_simp

lemma test_marshal_map:
  "MarshalDBusType (VMap (TFixed U32) (TFixed U16)
      [(VFixed (FU32 1), VFixed (FU16 0xBEEF)), (VFixed (FU32 2), VFixed (FU16 0xDEAD))]) =
   Inr [0x0E, 0, 0, 0, 0, 0, 0, 0, 1, 0, 0, 0, 0xEF, 0xBE, 0, 0, 2, 0, 0, 0, 0xAD, 0xDE]"
  by code_simp

lemma test_marshal_null_character:
  "MarshalDBusType (VString StdString (''Hello'' @ [CHR 0x00] @ ''World'')) =
   Inl DBusSerializationError"
  by code_simp

lemma test_marshal_variant_string:
  "MarshalDBusType (Variant_Create (VString StdString ''Hi!'')) =
   Inr [1, 115, 0, 0, 3, 0, 0, 0, 72, 105, 33, 0]"
  by code_simp

end
