(* ===== verification/WireFormat.thy ===== *)
theory WireFormat
  imports Marshal
begin

text \<open>
  The abstract specification of the marshalling format: \<open>body A v p\<close> is the byte string that
  represents \<open>v\<close> at position \<open>p\<close> of a message, as a pure function of the value, the position and the
  alignment function \<open>A\<close> used for array elements and variant contents. The refinement theorems say
  that the code of \<^verbatim>\<open>src/src/DBus.h\<close> computes \<open>body\<close> with its own \<^verbatim>\<open>GetAlignmentOfDBusType\<close>, when it
  reports an error instead, and for which values this is the layout of the D-Bus specification.
\<close>

section \<open>The layout\<close>

definition string_body :: "strty \<Rightarrow> string \<Rightarrow> 8 word list" where
  "string_body st s =
     le_bytes (if st = SignatureString then 1 else 4) (length s) @ bytes_of_string s @ [0]"

text \<open>\<open>wires A F vs p\<close> is a sequence of values, each padded to the alignment \<open>F\<close> of its type;
  \<open>entries\<close> is a sequence of dictionary entries with values of type \<open>t\<close>.\<close>

function (sequential)
  body :: "(cty \<Rightarrow> nat) \<Rightarrow> dval \<Rightarrow> nat \<Rightarrow> 8 word list" and
  wires :: "(cty \<Rightarrow> nat) \<Rightarrow> (cty \<Rightarrow> nat) \<Rightarrow> dval list \<Rightarrow> nat \<Rightarrow> 8 word list" and
  entries :: "(cty \<Rightarrow> nat) \<Rightarrow> cty \<Rightarrow> (dval \<times> dval) list \<Rightarrow> nat \<Rightarrow> 8 word list" where
  "body A (VFixed x) p = wire_fixed x"
| "body A (VString st s) p = string_body st s"
| "body A (VArr n t vs) p =
     (let k = padn (A t) (p + 4); es = wires A (\<lambda>_. A t) vs (p + 4 + k)
      in le_bytes 4 (length es) @ zeros k @ es)"
| "body A (VTuple vs) p = wires A field_alignment vs p"
| "body A (VMap kt t m) p =
     (let k = padn 8 (p + 4); es = entries A t m (p + 4 + k)
      in le_bytes 4 (length es) @ zeros k @ es)"
| "body A (VHeap sg al v) p =
     (let h = string_body SignatureString sg; k = padn (A (type_of v)) (p + length h)
      in h @ zeros k @ body A v (p + length h + k))"
| "body A (VInlineObj sg al v) p =
     (let h = string_body SignatureString sg; k = padn (A (type_of v)) (p + length h)
      in h @ zeros k @ body A v (p + length h + k))"
| "body A (VInlineStr sg al buf st) p =
     (let h = string_body SignatureString sg; k = padn (A (TString st)) (p + length h)
      in h @ zeros k @ string_body st (c_string buf))"
| "body A _ p = []"
| "wires A F [] p = []"
| "wires A F (v # vs) p =
     (let k = padn (F (type_of v)) p; b = body A v (p + k)
      in zeros k @ b @ wires A F vs (p + k + length b))"
| "entries A t [] p = []"
| "entries A t ((a, b) # m) p =
     (let k = padn 8 p; x = body A a (p + k);
          l = padn (field_alignment t) (p + k + length x); y = body A b (p + k + length x + l)
      in zeros k @ x @ zeros l @ y @ entries A t m (p + k + length x + l + length y))"
  by pat_completeness auto
termination
  by (relation "measure (\<lambda>x. case x of Inl (A, v, p) \<Rightarrow> size v
        | Inr (Inl (A, F, vs, p)) \<Rightarrow> size_list size vs
        | Inr (Inr (A, t, m, p)) \<Rightarrow> size_list (size_prod size size) m)") auto

text \<open>The values the code can marshal: no string has a null character inside, and every variant
  was made by \<^verbatim>\<open>Variant::Create\<close>. The small buffer of a variant is read as a C string, so what it holds is marshalled up to its
  first null character, whatever follows.\<close>

lemma size_fst_entry [termination_simp]:
  "e \<in> set m \<Longrightarrow> size (fst e) < Suc (size_list (size_prod size size) m)"
  by (induction m) auto

lemma size_snd_entry [termination_simp]:
  "e \<in> set m \<Longrightarrow> size (snd e) < Suc (size_list (size_prod size size) m)"
  by (induction m) auto

fun sendable :: "dval \<Rightarrow> bool" where
  "sendable (VFixed x) = True"
| "sendable (VString st s) = (CHR 0x00 \<notin> set s)"
| "sendable (VArr n t vs) = (\<forall>v \<in> set vs. sendable v)"
| "sendable (VTuple vs) = (\<forall>v \<in> set vs. sendable v)"
| "sendable (VMap k t m) = (\<forall>e \<in> set m. sendable (fst e) \<and> sendable (snd e))"
| "sendable (VHeap sg al v) = (CHR 0x00 \<notin> set sg \<and> sendable v)"
| "sendable (VInlineObj sg al v) = (CHR 0x00 \<notin> set sg \<and> sendable v)"
| "sendable (VInlineStr sg al buf st) = (CHR 0x00 \<notin> set sg)"
| "sendable _ = False"

text \<open>The arrays the code measures (those whose elements are not of a fixed-size type) are shorter
  than 64 MiB.\<close>

function (sequential)
  arrays_fit :: "dval \<Rightarrow> nat \<Rightarrow> bool" and
  wires_fit :: "(cty \<Rightarrow> nat) \<Rightarrow> dval list \<Rightarrow> nat \<Rightarrow> bool" and
  entries_fit :: "cty \<Rightarrow> (dval \<times> dval) list \<Rightarrow> nat \<Rightarrow> bool" where
  "arrays_fit (VArr n t vs) p =
     (let q = p + 4 + padn (GetAlignmentOfDBusType t) (p + 4) in
      wires_fit (\<lambda>_. GetAlignmentOfDBusType t) vs q \<and>
      (IsDBusBasicFixedType t \<and> t \<noteq> TFixed Bool \<or>
       length (wires GetAlignmentOfDBusType (\<lambda>_. GetAlignmentOfDBusType t) vs q) < 67108864))"
| "arrays_fit (VTuple vs) p = wires_fit field_alignment vs p"
| "arrays_fit (VMap kt t m) p = entries_fit t m 0"
| "arrays_fit (VHeap sg al v) p =
     (let q = p + length (string_body SignatureString sg) in
      arrays_fit v (q + padn (GetAlignmentOfDBusType (type_of v)) q))"
| "arrays_fit (VInlineObj sg al v) p =
     (let q = p + length (string_body SignatureString sg) in
      arrays_fit v (q + padn (GetAlignmentOfDBusType (type_of v)) q))"
| "arrays_fit _ p = True"
| "wires_fit F [] p = True"
| "wires_fit F (v # vs) p =
     (let q = p + padn (F (type_of v)) p in
      arrays_fit v q \<and> wires_fit F vs (q + length (body GetAlignmentOfDBusType v q)))"
| "entries_fit t [] p = True"
| "entries_fit t ((a, b) # m) p =
     (let q = p + padn 8 p; r = q + length (body GetAlignmentOfDBusType a q);
          s = r + padn (field_alignment t) r
      in arrays_fit a q \<and> arrays_fit b s \<and>
         entries_fit t m (s + length (body GetAlignmentOfDBusType b s)))"
  by pat_completeness auto
termination
  by (relation "measure (\<lambda>x. case x of Inl (v, p) \<Rightarrow> size v
        | Inr (Inl (F, vs, p)) \<Rightarrow> size_list size vs
        | Inr (Inr (t, m, p)) \<Rightarrow> size_list (size_prod size size) m)") auto

section \<open>Basic facts\<close>

lemma le_bytes_mod: "le_bytes k (n mod 256 ^ k) = le_bytes k n"
proof -
  have "le_nat (le_bytes k n) = n mod 256 ^ k" by (rule le_nat_le_bytes_mod)
  then show ?thesis by (metis le_bytes_le_nat length_le_bytes)
qed

lemma wire_fixed_U32: "wire_fixed (FU32 (word_of_nat n)) = le_bytes 4 n"
  using le_bytes_mod [of 4 n] by (simp add: wire_fixed_def unat_of_nat)

lemma wire_fixed_U8: "wire_fixed (FU8 (word_of_nat n)) = le_bytes 1 n"
  using le_bytes_mod [of 1 n] by (simp add: wire_fixed_def unat_of_nat del: le_bytes.simps)

lemma MarshalBasicStringlikeType_body:
  "MarshalBasicStringlikeType st s bs =
   (if CHR 0x00 \<in> set s then Inl DBusSerializationError else Inr (bs @ string_body st s))"
  by (simp add: MarshalBasicStringlikeType_def MarshalBasicFixedType_def string_body_def
      wire_fixed_U32 wire_fixed_U8 Let_def del: le_bytes.simps)

lemma length_string_body:
  "length (string_body st s) = (if st = SignatureString then 2 else 5) + length s"
  by (simp add: string_body_def)

lemma field_alignment_pos [simp]: "0 < field_alignment t"
  by (simp add: field_alignment_def)

lemma field_alignment_dvd_8 [simp]: "field_alignment t dvd 8"
  by (auto simp: field_alignment_def)

lemma field_alignment_dvd: "field_alignment t dvd GetAlignmentOfDBusType t"
  by (cases t) (simp_all add: field_alignment_def)

lemma zeros_append: "zeros (a + b) = zeros a @ zeros b"
  by (simp add: zeros_def replicate_add)

lemma write_u32_at_middle:
  "n = length bs \<Longrightarrow> length x = 4 \<Longrightarrow> write_u32_at n k (bs @ x @ r) = bs @ le_bytes 4 k @ r"
  by (simp add: write_u32_at_def)

lemma signature_no_null: "CHR 0x00 \<notin> set (GetTypeSignature t)"
  by (induction t rule: GetTypeSignature.induct) auto

text \<open>Structural induction over values, lists of values and lists of dictionary entries at once.\<close>

lemma value_induct [case_names VFixed VString VArr VTuple VMap VHeap VInlineObj VInlineStr
    VMonostate VDeser VFastDeser VFastMonostate Nil Cons NilE ConsE]:
  fixes P :: "dval \<Rightarrow> bool" and Q :: "dval list \<Rightarrow> bool" and R :: "(dval \<times> dval) list \<Rightarrow> bool"
  assumes "\<And>x. P (VFixed x)" and "\<And>st s. P (VString st s)"
    and "\<And>n t vs. Q vs \<Longrightarrow> P (VArr n t vs)" and "\<And>vs. Q vs \<Longrightarrow> P (VTuple vs)"
    and "\<And>k t m. R m \<Longrightarrow> P (VMap k t m)"
    and "\<And>sg al v. P v \<Longrightarrow> P (VHeap sg al v)" and "\<And>sg al v. P v \<Longrightarrow> P (VInlineObj sg al v)"
    and "\<And>sg al buf st. P (VInlineStr sg al buf st)" and "P VMonostate"
    and "\<And>sg bs. P (VDeser sg bs)" and "\<And>sg bs. P (VFastDeser sg bs)" and "P VFastMonostate"
    and Q: "Q []" "\<And>v vs. P v \<Longrightarrow> Q vs \<Longrightarrow> Q (v # vs)"
    and R: "R []" "\<And>a b m. P a \<Longrightarrow> P b \<Longrightarrow> R m \<Longrightarrow> R ((a, b) # m)"
  shows "P v" and "Q vs" and "R m"
proof -
  have list: "Q vs" if "\<And>v. v \<in> set vs \<Longrightarrow> P v" for vs
    using that by (induction vs) (simp_all add: Q)
  have ents: "R m" if "\<And>e. e \<in> set m \<Longrightarrow> P (fst e) \<and> P (snd e)" for m
    using that
  proof (induction m)
    case (Cons e m)
    then have "P (fst e)" "P (snd e)" "R m" by simp_all
    then show ?case by (cases e) (simp add: R)
  qed (simp add: R)
  have all: "P v" for v
  proof (induction v)
    case (VMap k t m)
    have "R m"
    proof (rule ents)
      fix e assume "e \<in> set m"
      then show "P (fst e) \<and> P (snd e)"
        using VMap(1) [of e "fst e"] VMap(2) [of e "snd e"] by (simp add: fsts.simps snds.simps prod_eq_iff)
    qed
    then show ?case by (rule assms)
  qed (blast intro: assms list)+
  show "P v" by (rule all)
  show "Q vs" by (rule list) (rule all)
  show "R m" by (rule ents) (simp add: all)
qed

section \<open>Laws of the layout\<close>

text \<open>
  What the layout needs of an alignment function: every alignment is a divisor of eight. Then only
  the position modulo eight matters, and padding may be written before or after a position is
  fixed. Both the code's alignment and the specification's are instances.
\<close>

locale alignment_function =
  fixes A :: "cty \<Rightarrow> nat"
  assumes pos: "0 < A t" and dvd_8: "A t dvd 8"
begin

lemma padn_A_less: "padn (A t) p < 8"
  using padn_less [OF pos, of t p] dvd_imp_le [OF dvd_8, of t] by simp

end

interpretation impl: alignment_function GetAlignmentOfDBusType
  by unfold_locales auto

interpretation spec: alignment_function field_alignment
  by unfold_locales auto

text \<open>\<open>pads A a v\<close>: every padding inside \<open>v\<close> aligns to a divisor of \<open>a\<close>.\<close>

fun pads :: "(cty \<Rightarrow> nat) \<Rightarrow> nat \<Rightarrow> dval \<Rightarrow> bool" where
  "pads A a (VArr n t vs) = (A t dvd a \<and> (\<forall>v \<in> set vs. pads A a v))"
| "pads A a (VTuple vs) = (\<forall>v \<in> set vs. field_alignment (type_of v) dvd a \<and> pads A a v)"
| "pads A a (VMap k t m) =
     (8 dvd a \<and> field_alignment t dvd a \<and> (\<forall>e \<in> set m. pads A a (fst e) \<and> pads A a (snd e)))"
| "pads A a (VHeap sg al v) = (A (type_of v) dvd a \<and> pads A a v)"
| "pads A a (VInlineObj sg al v) = (A (type_of v) dvd a \<and> pads A a v)"
| "pads A a (VInlineStr sg al buf st) = (A (TString st) dvd a)"
| "pads A a _ = True"

definition same :: "nat \<Rightarrow> nat \<Rightarrow> nat \<Rightarrow> bool" where
  "same a p q \<longleftrightarrow> p mod a = q mod a"

lemma same_add: "same a p q \<Longrightarrow> same a (p + k) (q + k)"
  unfolding same_def by (rule mod_add_cong) simp_all

lemma same_dvd: "a dvd p \<Longrightarrow> a dvd q \<Longrightarrow> same a p q"
  by (simp add: same_def dvd_eq_mod_eq_0)

lemma padn_same: "same a p q \<Longrightarrow> b dvd a \<Longrightarrow> padn b p = padn b q"
  unfolding same_def by (rule padn_mod)

context alignment_function
begin

lemma body_same_all:
  "\<forall>p q. same a p q \<longrightarrow> pads A a v \<longrightarrow> body A v p = body A v q"
  "\<forall>F p q. same a p q \<longrightarrow> (\<forall>v \<in> set vs. F (type_of v) dvd a \<and> pads A a v) \<longrightarrow>
     wires A F vs p = wires A F vs q"
  "\<forall>t p q. same a p q \<longrightarrow> 8 dvd a \<longrightarrow> field_alignment t dvd a \<longrightarrow>
     (\<forall>e \<in> set m. pads A a (fst e) \<and> pads A a (snd e)) \<longrightarrow> entries A t m p = entries A t m q"
proof (induction v and vs and m rule: value_induct)
  case (VArr n t vs)
  show ?case
  proof (intro allI impI)
    fix p q assume s: "same a p q" and d: "pads A a (VArr n t vs)"
    have k: "padn (A t) (p + 4) = padn (A t) (q + 4)"
      by (rule padn_same [OF same_add [OF s]]) (use d in simp)
    have w: "wires A (\<lambda>_. A t) vs (p + 4 + k) = wires A (\<lambda>_. A t) vs (q + 4 + k)" for k
      using VArr [rule_format, OF same_add [OF same_add [OF s]]] d by simp
    show "body A (VArr n t vs) p = body A (VArr n t vs) q"
      by (simp only: body.simps Let_def k w)
  qed
next
  case (VTuple vs)
  then show ?case by simp
next
  case (VMap kt t m)
  show ?case
  proof (intro allI impI)
    fix p q assume s: "same a p q" and d: "pads A a (VMap kt t m)"
    have k: "padn 8 (p + 4) = padn 8 (q + 4)"
      by (rule padn_same [OF same_add [OF s]]) (use d in simp)
    have w: "entries A t m (p + 4 + k) = entries A t m (q + 4 + k)" for k
      using VMap [rule_format, OF same_add [OF same_add [OF s]]] d by simp
    show "body A (VMap kt t m) p = body A (VMap kt t m) q"
      by (simp only: body.simps Let_def k w)
  qed
next
  case (VHeap sg al v)
  show ?case
  proof (intro allI impI)
    fix p q assume s: "same a p q" and d: "pads A a (VHeap sg al v)"
    have k: "padn (A (type_of v)) (p + h) = padn (A (type_of v)) (q + h)" for h
      by (rule padn_same [OF same_add [OF s]]) (use d in simp)
    have w: "body A v (p + h + k) = body A v (q + h + k)" for h k
      using VHeap [rule_format, OF same_add [OF same_add [OF s]]] d by simp
    show "body A (VHeap sg al v) p = body A (VHeap sg al v) q"
      by (simp only: body.simps Let_def k w)
  qed
next
  case (VInlineObj sg al v)
  show ?case
  proof (intro allI impI)
    fix p q assume s: "same a p q" and d: "pads A a (VInlineObj sg al v)"
    have k: "padn (A (type_of v)) (p + h) = padn (A (type_of v)) (q + h)" for h
      by (rule padn_same [OF same_add [OF s]]) (use d in simp)
    have w: "body A v (p + h + k) = body A v (q + h + k)" for h k
      using VInlineObj [rule_format, OF same_add [OF same_add [OF s]]] d by simp
    show "body A (VInlineObj sg al v) p = body A (VInlineObj sg al v) q"
      by (simp only: body.simps Let_def k w)
  qed
next
  case (VInlineStr sg al buf st)
  show ?case
  proof (intro allI impI)
    fix p q assume s: "same a p q" and d: "pads A a (VInlineStr sg al buf st)"
    have k: "padn (A (TString st)) (p + h) = padn (A (TString st)) (q + h)" for h
      by (rule padn_same [OF same_add [OF s]]) (use d in simp)
    show "body A (VInlineStr sg al buf st) p = body A (VInlineStr sg al buf st) q"
      by (simp only: body.simps Let_def k)
  qed
next
  case (Cons v vs)
  show ?case
  proof (intro allI impI)
    fix F :: "cty \<Rightarrow> nat" and p q
    assume s: "same a p q" and d: "\<forall>v \<in> set (v # vs). F (type_of v) dvd a \<and> pads A a v"
    have k: "padn (F (type_of v)) p = padn (F (type_of v)) q"
      by (rule padn_same [OF s]) (use d in simp)
    have b: "body A v (p + k) = body A v (q + k)" for k
      by (rule Cons(1) [rule_format, OF same_add [OF s]]) (use d in simp)
    have w: "wires A F vs (p + k + l) = wires A F vs (q + k + l)" for k l
      by (rule Cons(2) [rule_format, OF same_add [OF same_add [OF s]]]) (use d in auto)
    show "wires A F (v # vs) p = wires A F (v # vs) q"
      by (simp only: wires.simps Let_def k b w)
  qed
next
  case (ConsE x y m)
  show ?case
  proof (intro allI impI)
    fix t p q assume s: "same a p q" and d: "8 dvd a" "field_alignment t dvd a"
      "\<forall>e \<in> set ((x, y) # m). pads A a (fst e) \<and> pads A a (snd e)"
    have k: "padn 8 p = padn 8 q" by (rule padn_same [OF s d(1)])
    have l: "padn (field_alignment t) (p + i) = padn (field_alignment t) (q + i)" for i
      by (rule padn_same [OF same_add [OF s] d(2)])
    have x: "body A x (p + i) = body A x (q + i)" for i
      by (rule ConsE(1) [rule_format, OF same_add [OF s]]) (use d in simp)
    have y: "body A y (p + i) = body A y (q + i)" for i
      by (rule ConsE(2) [rule_format, OF same_add [OF s]]) (use d in simp)
    have m: "entries A t m (p + i) = entries A t m (q + i)" for i
      by (rule ConsE(3) [rule_format, OF same_add [OF s]]) (use d in auto)
    show "entries A t ((x, y) # m) p = entries A t ((x, y) # m) q"
      by (simp only: entries.simps Let_def k l x y m add.assoc)
  qed
qed simp_all

lemma body_same: "pads A a v \<Longrightarrow> p mod a = q mod a \<Longrightarrow> body A v p = body A v q"
  using body_same_all(1) [of a v] unfolding same_def by blast

lemma pads_8: "pads A 8 v"
proof -
  have "pads A 8 v" "\<forall>v \<in> set vs. pads A 8 v" "\<forall>e \<in> set m. pads A 8 (fst e) \<and> pads A 8 (snd e)"
    for vs and m :: "(dval \<times> dval) list"
    by (induction v and vs and m rule: value_induct) (auto simp: dvd_8)
  then show ?thesis by blast
qed

lemma body_mod_8: "p mod 8 = q mod 8 \<Longrightarrow> body A v p = body A v q"
  by (rule body_same [OF pads_8])

lemma entries_mod_8: "p mod 8 = q mod 8 \<Longrightarrow> entries A t m p = entries A t m q"
  using body_same_all(3) [of 8 m] pads_8 dvd_refl field_alignment_dvd_8 unfolding same_def by blast

text \<open>Padding a non-empty sequence's first element before or after the position is fixed.\<close>

lemma wires_pad:
  "vs \<noteq> [] \<Longrightarrow> 0 < F (type_of (hd vs)) \<Longrightarrow>
   wires A F vs p = zeros (padn (F (type_of (hd vs))) p) @
     wires A F vs (p + padn (F (type_of (hd vs))) p)"
  by (cases vs) (simp_all add: Let_def)

lemma entries_pad: "m \<noteq> [] \<Longrightarrow> entries A t m p = zeros (padn 8 p) @ entries A t m (p + padn 8 p)"
  by (cases m) (auto simp: Let_def)

end

section \<open>The code computes the layout\<close>

text \<open>The loops over array elements, struct fields and the arguments of a body are one loop.\<close>

fun marshal_seq :: "(cty \<Rightarrow> nat) \<Rightarrow> dval list \<Rightarrow> 8 word list \<Rightarrow> 8 word list result" where
  "marshal_seq F [] bs = Inr bs"
| "marshal_seq F (v # vs) bs =
     bindE (MarshalDBusTypeImpl v bs) (\<lambda>d.
       marshal_seq F vs (if vs \<noteq> [] then ApplyPadding d (F (type_of (hd vs))) else d))"

lemma MarshalArrayElements_seq: "MarshalArrayElements a vs bs = marshal_seq (\<lambda>_. a) vs bs"
  by (induction vs arbitrary: bs) simp_all

lemma MarshalDBusStruct_seq: "MarshalDBusStruct vs bs = marshal_seq field_alignment vs bs"
  by (induction vs arbitrary: bs) simp_all

lemma MarshalMultiple_seq:
  "MarshalBasicMultipleCompleteTypes vs bs = marshal_seq GetAlignmentOfDBusType vs bs"
  by (induction vs arbitrary: bs) simp_all

text \<open>An alignment function the sequence loops may be used with.\<close>

definition seq_aligned :: "(cty \<Rightarrow> nat) \<Rightarrow> dval list \<Rightarrow> bool" where
  "seq_aligned F vs \<longleftrightarrow>
     (\<forall>v \<in> set vs. 0 < F (type_of v) \<and> field_alignment (type_of v) dvd F (type_of v))"

lemma seq_aligned_simps [simp]:
  "seq_aligned F []"
  "seq_aligned F (v # vs) \<longleftrightarrow>
     0 < F (type_of v) \<and> field_alignment (type_of v) dvd F (type_of v) \<and> seq_aligned F vs"
  by (simp_all add: seq_aligned_def)

lemma seq_aligned_field [simp]: "seq_aligned field_alignment vs"
  by (simp add: seq_aligned_def)

lemma seq_aligned_impl [simp]: "seq_aligned GetAlignmentOfDBusType vs"
  by (simp add: seq_aligned_def field_alignment_dvd)

lemma seq_aligned_array:
  "(\<And>v. v \<in> set vs \<Longrightarrow> type_of v = t) \<Longrightarrow> seq_aligned (\<lambda>_. GetAlignmentOfDBusType t) vs"
  by (simp add: seq_aligned_def field_alignment_dvd)

lemma wires_fit_pad:
  "vs \<noteq> [] \<Longrightarrow> 0 < F (type_of (hd vs)) \<Longrightarrow>
   wires_fit F vs p = wires_fit F vs (p + padn (F (type_of (hd vs))) p)"
  by (cases vs) (simp_all add: Let_def)

text \<open>The arrays that are copied in one go have the layout of the element-wise loop.\<close>

lemma fixed_wires:
  "(\<And>v. v \<in> set vs \<Longrightarrow> type_of v = TFixed f) \<Longrightarrow> wire_size f dvd q \<Longrightarrow>
   wires A (\<lambda>_. wire_size f) vs q = concat (map raw_bytes vs) \<and>
   length (concat (map raw_bytes vs)) = length vs * wire_size f"
proof (induction vs arbitrary: q)
  case (Cons v vs)
  from Cons.prems(1) [of v] obtain x where v: "v = VFixed x" "fix_type x = f"
    by (cases v) auto
  have "wires A (\<lambda>_. wire_size f) vs (q + wire_size f) = concat (map raw_bytes vs) \<and>
    length (concat (map raw_bytes vs)) = length vs * wire_size f"
    by (rule Cons.IH) (use Cons.prems in auto)
  then show ?case using v Cons.prems(2) by (simp add: padn_aligned Let_def)
qed simp

lemma fixed_wires_fit:
  "(\<And>v. v \<in> set vs \<Longrightarrow> type_of v = TFixed f) \<Longrightarrow> wires_fit F vs q"
proof (induction vs arbitrary: q)
  case (Cons v vs)
  from Cons.prems [of v] obtain x where "v = VFixed x" by (cases v) auto
  with Cons show ?case by (simp add: Let_def)
qed simp

text \<open>The outcome of a marshalling function that appends \<open>w\<close> if \<open>ok\<close>.\<close>

definition appends :: "bool \<Rightarrow> 8 word list \<Rightarrow> 8 word list \<Rightarrow> 8 word list result" where
  "appends ok bs w = (if ok then Inr (bs @ w) else Inl LengthError)"

lemma appends_simps [simp]:
  "appends True bs w = Inr (bs @ w)"
  "appends False bs w = Inl LengthError"
  by (simp_all add: appends_def)

text \<open>Appending twice is appending the concatenation.\<close>

lemma appends_bind:
  "(ok \<Longrightarrow> f (bs @ w) = appends ok' (bs @ w @ x) y) \<Longrightarrow>
   bindE (appends ok bs w) f = appends (ok \<and> ok') bs (w @ x @ y)"
  by (cases ok; cases ok') simp_all

abbreviation (input) GA :: "cty \<Rightarrow> nat" where "GA \<equiv> GetAlignmentOfDBusType"

definition marshals :: "dval \<Rightarrow> bool" where
  "marshals v \<longleftrightarrow> (\<forall>bs. field_alignment (type_of v) dvd length bs \<longrightarrow>
     length bs + length (body GA v (length bs)) < 4294967296 \<longrightarrow>
     MarshalDBusTypeImpl v bs = appends (arrays_fit v (length bs)) bs (body GA v (length bs)))"

lemma marshalsD:
  "marshals v \<Longrightarrow> field_alignment (type_of v) dvd length bs \<Longrightarrow>
   length bs + length (body GA v (length bs)) < 4294967296 \<Longrightarrow>
   MarshalDBusTypeImpl v bs = appends (arrays_fit v (length bs)) bs (body GA v (length bs))"
  by (simp add: marshals_def)

lemma marshal_seq_wires:
  assumes "\<And>v. v \<in> set vs \<Longrightarrow> marshals v" and "seq_aligned F vs"
    and "vs \<noteq> [] \<Longrightarrow> F (type_of (hd vs)) dvd length bs"
    and "length bs + length (wires GA F vs (length bs)) < 4294967296"
  shows "marshal_seq F vs bs = appends (wires_fit F vs (length bs)) bs (wires GA F vs (length bs))"
  using assms
proof (induction vs arbitrary: bs)
  case (Cons v vs)
  let ?b = "body GA v (length bs)"
  have d: "F (type_of v) dvd length bs" using Cons.prems(3) by simp
  then have k: "padn (F (type_of v)) (length bs) = 0" by (rule padn_aligned)
  have m: "MarshalDBusTypeImpl v bs = appends (arrays_fit v (length bs)) bs ?b"
    using Cons.prems d k by (intro marshalsD) (auto simp: Let_def intro: dvd_trans)
  show ?case
  proof (cases "vs = []")
    case True
    then show ?thesis using k m by (cases "arrays_fit v (length bs)") (simp_all add: Let_def)
  next
    case False
    let ?j = "padn (F (type_of (hd vs))) (length bs + length ?b)"
    let ?bs = "bs @ ?b @ zeros ?j"
    have p: "0 < F (type_of (hd vs))" using Cons.prems(2) False by (cases vs) auto
    have L: "length ?bs = length bs + length ?b + ?j" by simp
    have w: "wires GA F vs (length bs + length ?b) = zeros ?j @ wires GA F vs (length ?bs)"
      unfolding L by (rule impl.wires_pad [where F = F, OF False p])
    have f: "wires_fit F vs (length bs + length ?b) = wires_fit F vs (length ?bs)"
      unfolding L by (rule wires_fit_pad [where F = F, OF False p])
    have IH: "marshal_seq F vs ?bs = appends (wires_fit F vs (length ?bs)) ?bs (wires GA F vs (length ?bs))"
    proof (rule Cons.IH)
      show "F (type_of (hd vs)) dvd length ?bs"
        using dvd_add_padn [OF p, of "length bs + length ?b"] by (simp add: add.assoc)
      show "length ?bs + length (wires GA F vs (length ?bs)) < 4294967296"
        using Cons.prems(4) k w by (simp add: Let_def)
    qed (use Cons.prems in auto)
    have "marshal_seq F (v # vs) bs = bindE (appends (arrays_fit v (length bs)) bs ?b)
        (\<lambda>d. marshal_seq F vs (ApplyPadding d (F (type_of (hd vs)))))"
      using m False by simp
    also have "\<dots> = appends (arrays_fit v (length bs) \<and> wires_fit F vs (length ?bs)) bs
        (?b @ zeros ?j @ wires GA F vs (length ?bs))"
      by (rule appends_bind) (use IH in \<open>simp add: ApplyPadding_padn\<close>)
    finally show ?thesis using k w f by (simp add: Let_def)
  qed
qed simp

lemma MarshalMapEntries_entries:
  assumes "\<And>e. e \<in> set m \<Longrightarrow> marshals (fst e) \<and> marshals (snd e) \<and> type_of (snd e) = t"
    and "first \<Longrightarrow> 8 dvd length bs"
    and "length bs + length (entries GA t m (length bs)) < 4294967296"
  shows "MarshalMapEntries first t m bs =
    appends (entries_fit t m (length bs)) bs (entries GA t m (length bs))"
  using assms
proof (induction m arbitrary: first bs)
  case (Cons e m)
  obtain a b where e: "e = (a, b)" by (cases e)
  let ?k = "padn 8 (length bs)"
  let ?b1 = "bs @ zeros ?k"
  let ?x = "body GA a (length ?b1)"
  let ?l = "padn (field_alignment t) (length ?b1 + length ?x)"
  let ?b2 = "bs @ (zeros ?k @ ?x) @ zeros ?l"
  let ?y = "body GA b (length ?b2)"
  let ?b3 = "bs @ (zeros ?k @ ?x) @ zeros ?l @ ?y"
  have t: "(if first then bs else ApplyPadding bs 8) = ?b1"
    using Cons.prems(2) by (auto simp: ApplyPadding_padn padn_aligned)
  have "8 dvd length ?b1" using dvd_add_padn [of 8 "length bs"] by simp
  then have "field_alignment (type_of a) dvd length ?b1" by (rule dvd_trans [OF field_alignment_dvd_8])
  then have x: "MarshalDBusTypeImpl a ?b1 = appends (arrays_fit a (length ?b1)) bs (zeros ?k @ ?x)"
    using marshalsD [of a ?b1] Cons.prems(1) [of e] Cons.prems(3) e by (simp add: Let_def appends_def)
  have "field_alignment t dvd length ?b2"
    using dvd_add_padn [of "field_alignment t" "length ?b1 + length ?x"] by (simp add: add.assoc)
  then have y: "MarshalDBusTypeImpl b ?b2 = appends (arrays_fit b (length ?b2)) bs ((zeros ?k @ ?x) @ zeros ?l @ ?y)"
    using marshalsD [of b ?b2] Cons.prems(1) [of e] Cons.prems(3) e
    by (simp add: Let_def appends_def add.assoc)
  have IH: "MarshalMapEntries False t m ?b3 =
      appends (entries_fit t m (length ?b3)) ?b3 (entries GA t m (length ?b3))"
    by (rule Cons.IH) (use Cons.prems e in \<open>auto simp: Let_def add.assoc\<close>)
  have "MarshalMapEntries first t (e # m) bs =
    bindE (appends (arrays_fit a (length ?b1)) bs (zeros ?k @ ?x)) (\<lambda>t2.
      bindE (MarshalDBusTypeImpl b (ApplyPadding t2 (field_alignment t))) (\<lambda>t3.
        MarshalMapEntries False t m t3))"
    using t x e by (simp add: Let_def)
  also have "\<dots> = appends (arrays_fit a (length ?b1) \<and> arrays_fit b (length ?b2) \<and> entries_fit t m (length ?b3)) bs
      ((zeros ?k @ ?x) @ zeros ?l @ ?y @ entries GA t m (length ?b3))"
    using y IH by (intro appends_bind) (simp add: ApplyPadding_padn add.assoc appends_def)
  finally show ?case using e by (simp add: Let_def add.assoc)
qed simp

lemma marshal_variant:
  assumes "marshals v" and "CHR 0x00 \<notin> set sg" and "al = GA (type_of v)"
    and "length bs + length (body GA (VHeap sg al v) (length bs)) < 4294967296"
  shows "bindE (MarshalBasicStringlikeType SignatureString sg bs) (\<lambda>d1.
       MarshalDBusTypeImpl v (ApplyPadding d1 al)) =
    appends (arrays_fit (VHeap sg al v) (length bs)) bs (body GA (VHeap sg al v) (length bs))"
proof -
  let ?h = "string_body SignatureString sg"
  let ?k = "padn al (length bs + length ?h)"
  let ?bs = "bs @ ?h @ zeros ?k"
  have L: "length ?bs = length bs + length ?h + ?k" by simp
  have "0 < al" using assms(3) by simp
  then have "al dvd length ?bs" unfolding L by (rule dvd_add_padn)
  then have "field_alignment (type_of v) dvd length ?bs"
    using field_alignment_dvd assms(3) by (blast intro: dvd_trans)
  then have "MarshalDBusTypeImpl v ?bs = appends (arrays_fit v (length ?bs)) ?bs (body GA v (length ?bs))"
    by (rule marshalsD [OF assms(1)]) (use assms in \<open>simp add: Let_def add.assoc\<close>)
  then show ?thesis
    using assms(2, 3)
    by (simp add: MarshalBasicStringlikeType_body ApplyPadding_padn Let_def appends_def add.assoc)
qed

lemma marshal_array:
  assumes es: "\<And>v. v \<in> set vs \<Longrightarrow> marshals v \<and> type_of v = t"
    and len: "length bs + length (body GA (VArr n t vs) (length bs)) < 4294967296"
  shows "MarshalDBusTypeImpl (VArr n t vs) bs =
    appends (arrays_fit (VArr n t vs) (length bs)) bs (body GA (VArr n t vs) (length bs))"
proof -
  let ?k = "padn (GA t) (length bs + 4)"
  let ?es = "wires GA (\<lambda>_. GA t) vs (length bs + 4 + ?k)"
  have al: "GA t dvd length bs + 4 + ?k" by (rule dvd_add_padn) simp
  show ?thesis
  proof (cases "IsDBusBasicFixedType t \<and> t \<noteq> TFixed Bool")
    case True
    then obtain f where f: "t = TFixed f" "f \<noteq> Bool" by (cases t) auto
    then have vs: "\<And>v. v \<in> set vs \<Longrightarrow> type_of v = TFixed f" using es by simp
    have "?es = concat (map raw_bytes vs)" "length (concat (map raw_bytes vs)) = length vs * wire_size f"
      using fixed_wires [OF vs, of vs "length bs + 4 + ?k" GA] al f by simp_all
    moreover have "wires_fit (\<lambda>_. GA t) vs (length bs + 4 + ?k)"
      by (rule fixed_wires_fit [OF vs])
    ultimately show ?thesis using f
      by (simp add: MarshalBasicFixedType_def wire_fixed_U32 ApplyPadding_padn mem_size_def Let_def
          del: of_nat_mult)
  next
    case False
    let ?bs = "bs @ le_bytes 4 0 @ zeros ?k"
    have L: "length ?bs = length bs + 4 + ?k" by simp
    have m: "marshal_seq (\<lambda>_. GA t) vs ?bs =
      appends (wires_fit (\<lambda>_. GA t) vs (length ?bs)) ?bs (wires GA (\<lambda>_. GA t) vs (length ?bs))"
    proof (rule marshal_seq_wires)
      show "seq_aligned (\<lambda>_. GA t) vs" by (rule seq_aligned_array) (use es in simp)
      show "GA t dvd length ?bs" unfolding L by (rule al)
      show "length ?bs + length (wires GA (\<lambda>_. GA t) vs (length ?bs)) < 4294967296"
        unfolding L using len by (simp add: Let_def)
    qed (use es in simp)
    have u: "u32 (length (?bs @ ?es) - u32 (length ?bs)) = length ?es"
      using len by (simp add: Let_def)
    have w: "write_u32_at (length bs) k (?bs @ ?es) = bs @ le_bytes 4 k @ zeros ?k @ ?es" for k
      using write_u32_at_middle [of "length bs" bs "le_bytes 4 0" k "zeros ?k @ ?es"] by simp
    have "MarshalDBusTypeImpl (VArr n t vs) bs = bindE (marshal_seq (\<lambda>_. GA t) vs ?bs) (\<lambda>d3.
             let arrSize = u32 (length d3 - u32 (length ?bs)) in
             if arrSize \<ge> 67108864 then Inl LengthError
             else Inr (write_u32_at (length bs) arrSize d3))"
    proof -
      have d1: "MarshalBasicFixedType (FU32 0) bs = bs @ le_bytes 4 0"
        using wire_fixed_U32 [of 0] by (simp add: MarshalBasicFixedType_def)
      have d2: "ApplyPadding (bs @ le_bytes 4 0) (GA t) = ?bs"
        by (simp add: ApplyPadding_padn)
      have p: "length (bs @ le_bytes 4 0) - 4 = length bs" by simp
      show ?thesis
        by (simp only: MarshalDBusTypeImpl.simps if_not_P [OF False] Let_def d1 d2 p
            MarshalArrayElements_seq)
    qed
    also have "\<dots> = appends (arrays_fit (VArr n t vs) (length bs)) bs (body GA (VArr n t vs) (length bs))"
    proof (cases "wires_fit (\<lambda>_. GA t) vs (length bs + 4 + ?k)")
      case fit: True
      have "marshal_seq (\<lambda>_. GA t) vs ?bs = Inr (?bs @ ?es)"
        by (simp only: m L fit appends_simps)
      then show ?thesis using False fit by (simp only: bindE_simps Let_def u w) (simp add: Let_def appends_def)
    next
      case nofit: False
      have "marshal_seq (\<lambda>_. GA t) vs ?bs = Inl LengthError"
        by (simp only: m L nofit appends_simps)
      then show ?thesis using nofit by (simp only: bindE_simps) (simp add: Let_def)
    qed
    finally show ?thesis .
  qed
qed

lemma marshal_map:
  assumes es: "\<And>e. e \<in> set m \<Longrightarrow> marshals (fst e) \<and> marshals (snd e) \<and> type_of (snd e) = t"
    and len: "length bs + length (body GA (VMap kt t m) (length bs)) < 4294967296"
  shows "MarshalDBusTypeImpl (VMap kt t m) bs =
    appends (arrays_fit (VMap kt t m) (length bs)) bs (body GA (VMap kt t m) (length bs))"
proof -
  let ?k = "padn 8 (length bs + 4)"
  have al: "8 dvd length bs + 4 + ?k" by (rule dvd_add_padn) simp
  have e: "entries GA t m (length bs + 4 + ?k) = entries GA t m 0"
    by (rule impl.entries_mod_8) (use al in \<open>simp add: dvd_eq_mod_eq_0\<close>)
  have m: "MarshalMapEntries True t m [] = appends (entries_fit t m 0) [] (entries GA t m 0)"
    using MarshalMapEntries_entries [of m t True "[]"] es len e by (simp add: Let_def)
  have "padn 8 (length bs + 4 + ?k) = 0" using al by (rule padn_aligned)
  then show ?thesis
    using e by (simp add: m MarshalBasicFixedType_def wire_fixed_U32 ApplyPadding_padn Let_def appends_def add.assoc)
qed

lemma marshals_inline: "marshals (VInlineObj sg al v) = marshals (VHeap sg al v)"
  by (simp add: marshals_def Let_def)

theorem wt_marshals:
  "wt v \<Longrightarrow> sendable v \<Longrightarrow> marshals v"
proof -
  have "wt v \<longrightarrow> sendable v \<longrightarrow> marshals v"
    "wt_elems vs \<longrightarrow> (\<forall>v \<in> set vs. sendable v \<longrightarrow> marshals v)"
    "(\<forall>e \<in> set m. (wt (fst e) \<longrightarrow> sendable (fst e) \<longrightarrow> marshals (fst e)) \<and>
       (wt (snd e) \<longrightarrow> sendable (snd e) \<longrightarrow> marshals (snd e)))" for vs m
  proof (induction v and vs and m rule: value_induct)
    case (VFixed x)
    then show ?case by (simp add: marshals_def MarshalBasicFixedType_def)
  next
    case (VString st s)
    then show ?case by (simp add: marshals_def MarshalBasicStringlikeType_body)
  next
    case (VArr n t vs)
    show ?case
      unfolding marshals_def by (intro impI allI marshal_array) (use VArr in \<open>auto simp: wt_elems_iff\<close>)
  next
    case (VTuple vs)
    show ?case
      unfolding marshals_def
    proof (intro impI allI)
      fix bs :: "8 word list"
      assume a: "wt (VTuple vs)" "sendable (VTuple vs)" "field_alignment (type_of (VTuple vs)) dvd length bs"
        "length bs + length (body GA (VTuple vs) (length bs)) < 4294967296"
      then have "8 dvd length bs" by (simp add: field_alignment_def)
      then have d: "field_alignment t dvd length bs" for t by (rule dvd_trans [OF field_alignment_dvd_8])
      have "marshal_seq field_alignment vs bs = appends (wires_fit field_alignment vs (length bs)) bs
          (wires GA field_alignment vs (length bs))"
        by (rule marshal_seq_wires) (use a d VTuple in auto)
      then show "MarshalDBusTypeImpl (VTuple vs) bs =
          appends (arrays_fit (VTuple vs) (length bs)) bs (body GA (VTuple vs) (length bs))"
        by (simp add: MarshalDBusStruct_seq)
    qed
  next
    case (VMap k t m)
    show ?case
      unfolding marshals_def
      by (intro impI allI marshal_map) (use VMap in \<open>fastforce simp: wt_entries_iff\<close>)+
  next
    case (VHeap sg al v)
    then show ?case
      by (auto simp only: marshals_def [of "VHeap sg al v"] wt.simps sendable.simps MarshalDBusTypeImpl.simps
          intro: marshal_variant)
  next
    case (VInlineObj sg al v)
    then show ?case
      by (auto simp only: marshals_inline marshals_def [of "VHeap sg al v"] wt.simps sendable.simps
          MarshalDBusTypeImpl.simps intro: marshal_variant)
  next
    case (VInlineStr sg al buf st)
    then show ?case
      by (auto simp: marshals_def MarshalBasicStringlikeType_body ApplyPadding_padn Let_def add.assoc)
  qed simp_all
  then show "wt v \<Longrightarrow> sendable v \<Longrightarrow> marshals v" by blast
qed

section \<open>What the code refuses\<close>

lemma marshal_seq_refuses:
  "(\<And>v bs out. v \<in> set vs \<Longrightarrow> MarshalDBusTypeImpl v bs = Inr out \<Longrightarrow> sendable v) \<Longrightarrow>
   marshal_seq F vs bs = Inr out \<Longrightarrow> \<forall>v \<in> set vs. sendable v"
proof (induction vs arbitrary: bs)
  case (Cons v vs)
  from Cons.prems(2) obtain d where d: "MarshalDBusTypeImpl v bs = Inr d"
    "marshal_seq F vs (if vs \<noteq> [] then ApplyPadding d (F (type_of (hd vs))) else d) = Inr out"
    by (auto simp: bindE_Inr_iff)
  have "\<forall>v \<in> set vs. sendable v"
    by (rule Cons.IH [OF _ d(2)]) (use Cons.prems(1) in simp)
  then show ?case using Cons.prems(1) [of v] d(1) by simp
qed simp

lemma marshal_entries_refuses:
  "(\<And>e bs out. e \<in> set m \<Longrightarrow> MarshalDBusTypeImpl (fst e) bs = Inr out \<Longrightarrow> sendable (fst e)) \<Longrightarrow>
   (\<And>e bs out. e \<in> set m \<Longrightarrow> MarshalDBusTypeImpl (snd e) bs = Inr out \<Longrightarrow> sendable (snd e)) \<Longrightarrow>
   MarshalMapEntries first t m bs = Inr out \<Longrightarrow> \<forall>e \<in> set m. sendable (fst e) \<and> sendable (snd e)"
proof (induction m arbitrary: first bs)
  case (Cons e m)
  obtain a b where e: "e = (a, b)" by (cases e)
  from Cons.prems(3) e obtain bs1 d1 bs2 d2 where d: "MarshalDBusTypeImpl a bs1 = Inr d1"
    "MarshalDBusTypeImpl b bs2 = Inr d2" "MarshalMapEntries False t m d2 = Inr out"
    by (auto simp: bindE_Inr_iff Let_def)
  have "\<forall>e \<in> set m. sendable (fst e) \<and> sendable (snd e)"
    by (rule Cons.IH [OF _ _ d(3)]) (use Cons.prems(1, 2) in simp_all)
  then show ?case using Cons.prems(1) [of e] Cons.prems(2) [of e] d(1, 2) e by simp
qed simp

lemma marshal_sendable:
  "wt v \<Longrightarrow> MarshalDBusTypeImpl v bs = Inr out \<Longrightarrow> sendable v"
proof -
  have "\<forall>bs out. wt v \<longrightarrow> MarshalDBusTypeImpl v bs = Inr out \<longrightarrow> sendable v"
    "\<forall>bs out. \<forall>v \<in> set vs. wt v \<longrightarrow> MarshalDBusTypeImpl v bs = Inr out \<longrightarrow> sendable v"
    "\<forall>bs out. \<forall>e \<in> set m. (wt (fst e) \<longrightarrow> MarshalDBusTypeImpl (fst e) bs = Inr out \<longrightarrow> sendable (fst e)) \<and>
       (wt (snd e) \<longrightarrow> MarshalDBusTypeImpl (snd e) bs = Inr out \<longrightarrow> sendable (snd e))" for vs m
  proof (induction v and vs and m rule: value_induct)
    case (VString st s)
    then show ?case by (simp add: MarshalBasicStringlikeType_body)
  next
    case (VArr n t vs)
    show ?case
    proof (intro allI impI)
      fix bs out assume w: "wt (VArr n t vs)" and m: "MarshalDBusTypeImpl (VArr n t vs) bs = Inr out"
      show "sendable (VArr n t vs)"
      proof (cases "IsDBusBasicFixedType t \<and> t \<noteq> TFixed Bool")
        case True
        have "sendable v" if "v \<in> set vs" for v
        proof -
          have "type_of v = t" using w that by simp
          then show ?thesis using True by (cases v; cases t) auto
        qed
        then show ?thesis by simp
      next
        case False
        then obtain a d d3 where "marshal_seq (\<lambda>_. a) vs d = Inr d3"
          using m by (auto simp: bindE_Inr_iff Let_def MarshalArrayElements_seq)
        from marshal_seq_refuses [OF _ this] VArr w show ?thesis by (auto simp: wt_elems_iff)
      qed
    qed
  next
    case (VTuple vs)
    show ?case
    proof (intro allI impI)
      fix bs out assume w: "wt (VTuple vs)" and "MarshalDBusTypeImpl (VTuple vs) bs = Inr out"
      then have "marshal_seq field_alignment vs bs = Inr out" by (simp add: MarshalDBusStruct_seq)
      from marshal_seq_refuses [OF _ this] VTuple w show "sendable (VTuple vs)"
        by (auto simp: wt_elems_iff)
    qed
  next
    case (VMap k t m)
    show ?case
    proof (intro allI impI)
      fix bs out assume w: "wt (VMap k t m)" and "MarshalDBusTypeImpl (VMap k t m) bs = Inr out"
      then obtain d where d: "MarshalMapEntries True t m [] = Inr d"
        by (auto simp: bindE_Inr_iff Let_def)
      show "sendable (VMap k t m)"
        using marshal_entries_refuses [OF _ _ d] VMap w by (fastforce simp: wt_entries_iff)
    qed
  next
    case (VHeap sg al v)
    then show ?case
      by (auto simp: bindE_Inr_iff MarshalBasicStringlikeType_body split: if_splits)
  next
    case (VInlineObj sg al v)
    then show ?case
      by (auto simp: bindE_Inr_iff MarshalBasicStringlikeType_body split: if_splits)
  next
    case (VInlineStr sg al buf st)
    then show ?case
      by (auto simp: bindE_Inr_iff MarshalBasicStringlikeType_body split: if_splits)
  qed auto
  then show "wt v \<Longrightarrow> MarshalDBusTypeImpl v bs = Inr out \<Longrightarrow> sendable v" by blast
qed

text \<open>The two reasons for which a value is not sendable, with their exceptions.\<close>

fun null_inside :: "dval \<Rightarrow> bool" where
  "null_inside (VFixed x) = False"
| "null_inside (VString st s) = (CHR 0x00 \<in> set s)"
| "null_inside (VArr n t vs) = (\<exists>v \<in> set vs. null_inside v)"
| "null_inside (VTuple vs) = (\<exists>v \<in> set vs. null_inside v)"
| "null_inside (VMap k t m) = (\<exists>e \<in> set m. null_inside (fst e) \<or> null_inside (snd e))"
| "null_inside (VHeap sg al v) = (CHR 0x00 \<in> set sg \<or> null_inside v)"
| "null_inside (VInlineObj sg al v) = (CHR 0x00 \<in> set sg \<or> null_inside v)"
| "null_inside (VInlineStr sg al buf st) = (CHR 0x00 \<in> set sg)"
| "null_inside _ = False"

fun received_variant :: "dval \<Rightarrow> bool" where
  "received_variant (VFixed x) = False"
| "received_variant (VString st s) = False"
| "received_variant (VArr n t vs) = (\<exists>v \<in> set vs. received_variant v)"
| "received_variant (VTuple vs) = (\<exists>v \<in> set vs. received_variant v)"
| "received_variant (VMap k t m) = (\<exists>e \<in> set m. received_variant (fst e) \<or> received_variant (snd e))"
| "received_variant (VHeap sg al v) = received_variant v"
| "received_variant (VInlineObj sg al v) = received_variant v"
| "received_variant (VInlineStr sg al buf st) = False"
| "received_variant _ = True"

lemma sendable_iff: "sendable v \<longleftrightarrow> \<not> null_inside v \<and> \<not> received_variant v"
  by (induction v rule: sendable.induct) auto

definition reason :: "error \<Rightarrow> bool \<Rightarrow> bool \<Rightarrow> bool" where
  "reason e null received \<longleftrightarrow> e = LengthError \<or> e = DBusSerializationError \<and> null \<or> e = RuntimeError \<and> received"

lemma string_error: "MarshalBasicStringlikeType st s bs = Inl e \<longleftrightarrow> e = DBusSerializationError \<and> CHR 0x00 \<in> set s"
  by (auto simp: MarshalBasicStringlikeType_def Let_def)

lemma marshal_reasons:
  "\<forall>e. MarshalDBusTypeImpl v bs = Inl e \<longrightarrow> reason e (null_inside v) (received_variant v)"
  "\<forall>e. MarshalArrayElements a vs bs = Inl e \<longrightarrow> reason e (\<exists>v \<in> set vs. null_inside v) (\<exists>v \<in> set vs. received_variant v)"
  "\<forall>e. MarshalDBusStruct vs bs = Inl e \<longrightarrow> reason e (\<exists>v \<in> set vs. null_inside v) (\<exists>v \<in> set vs. received_variant v)"
  "\<forall>e. MarshalMapEntries f t m bs = Inl e \<longrightarrow> reason e (\<exists>x \<in> set m. null_inside (fst x) \<or> null_inside (snd x))
     (\<exists>x \<in> set m. received_variant (fst x) \<or> received_variant (snd x))"
proof (induction v bs and a vs bs and vs bs and f t m bs
    rule: MarshalDBusTypeImpl_MarshalArrayElements_MarshalDBusStruct_MarshalMapEntries.induct)
  case (15 first mapped a b m tempBuffer)
  let ?t1 = "if first then tempBuffer else ApplyPadding tempBuffer 8"
  note IH = 15(1) [OF refl] 15(2) [OF refl] 15(3) [OF refl]
  show ?case
  proof (cases "MarshalDBusTypeImpl a ?t1")
    case (Inl e)
    then show ?thesis using IH(1) by (auto simp: Let_def reason_def)
  next
    case (Inr t2)
    show ?thesis
    proof (cases "MarshalDBusTypeImpl b (ApplyPadding t2 (field_alignment mapped))")
      case (Inl e)
      then show ?thesis using Inr IH(2) [OF Inr] by (auto simp: Let_def reason_def)
    next
      case (Inr t3)
      then show ?thesis
        using \<open>_ = Inr t2\<close> IH(3) [OF \<open>_ = Inr t2\<close> Inr] by (auto simp: Let_def reason_def)
    qed
  qed
qed (auto simp: bindE_Inl_iff Let_def string_error reason_def split: if_splits)

lemma marshal_errors: "MarshalDBusTypeImpl v bs = Inl e \<Longrightarrow> reason e (null_inside v) (received_variant v)"
  using marshal_reasons(1) by blast

section \<open>The specification's layout\<close>

text \<open>Values whose types have no map as an array element or variant content: there the code aligns
  a map to 8 bytes where the D-Bus specification says 4.\<close>

fun conforming :: "dval \<Rightarrow> bool" where
  "conforming (VArr n t vs) = (\<not> IsDBusMap t \<and> (\<forall>v \<in> set vs. conforming v))"
| "conforming (VTuple vs) = (\<forall>v \<in> set vs. conforming v)"
| "conforming (VMap k t m) = (\<forall>e \<in> set m. conforming (fst e) \<and> conforming (snd e))"
| "conforming (VHeap sg al v) = (\<not> IsDBusMap (type_of v) \<and> conforming v)"
| "conforming (VInlineObj sg al v) = (\<not> IsDBusMap (type_of v) \<and> conforming v)"
| "conforming _ = True"

lemma conforming_all:
  "\<forall>p. conforming v \<longrightarrow> body GA v p = body field_alignment v p"
  "\<forall>F p. (\<forall>v \<in> set vs. conforming v) \<longrightarrow> wires GA F vs p = wires field_alignment F vs p"
  "\<forall>t p. (\<forall>e \<in> set m. conforming (fst e) \<and> conforming (snd e)) \<longrightarrow>
     entries GA t m p = entries field_alignment t m p"
  by (induction v and vs and m rule: value_induct) (simp_all add: Let_def field_alignment_def [of "TString _"]
      , simp_all add: field_alignment_def)

section \<open>Properties\<close>

text \<open>C1: Marshalling is exact. For a well-typed, sendable value at an aligned position of a buffer whose
  final size fits 32 bits, the code appends precisely the specified layout, or reports the length
  error precisely when some array it measures reaches 64 MiB.\<close>

theorem marshal_exact:
  assumes "wt v" and "sendable v" and "field_alignment (type_of v) dvd length bs"
    and "length bs + length (body GA v (length bs)) < 4294967296"
  shows "MarshalDBusTypeImpl v bs =
    (if arrays_fit v (length bs) then Inr (bs @ body GA v (length bs)) else Inl LengthError)"
  using marshalsD [OF wt_marshals [OF assms(1, 2)] assms(3, 4)] by (simp add: appends_def)

definition example_value :: dval where
  "example_value = VTuple [VFixed (FU8 7), VArr None (TString StdString) [VString StdString ''hi''],
     VMap (TFixed U32) TVariant [(VFixed (FU32 1), Variant_Create (VFixed (FBool True)))]]"

theorem marshal_exact_witness:
  "MarshalDBusTypeImpl example_value [] = Inr (body GA example_value 0) \<and>
   length (body GA example_value 0) = 36"
proof -
  have "length (body GA example_value 0) = 36" "arrays_fit example_value 0" "wt example_value" "sendable example_value"
    by code_simp+
  then show ?thesis using marshal_exact [of example_value "[]"] by simp
qed



text \<open>C26: Conformance. A value without maps as array elements or variant contents is marshalled to
  the bytes the D-Bus specification prescribes, in which a map has the alignment 4 of an array.\<close>

theorem marshal_conforms:
  assumes "wt v" and "sendable v" and "conforming v" and "arrays_fit v 0"
    and "length (body field_alignment v 0) < 4294967296"
  shows "MarshalDBusType v = Inr (body field_alignment v 0)"
proof -
  have "body GA v 0 = body field_alignment v 0" using conforming_all(1) assms(3) by blast
  then show ?thesis
    using marshalsD [OF wt_marshals [OF assms(1, 2)], of "[]"] assms(4, 5) by (simp add: MarshalDBusType_def)
qed

theorem marshal_conforms_witness:
  "MarshalDBusType example_value = Inr (body field_alignment example_value 0)"
  by (rule marshal_conforms) code_simp+

text \<open>A value with a map as an array element does not conform: its entries start four bytes later.\<close>

theorem marshal_array_of_maps_diverges:
  "let v = VArr None (TMap (TFixed U8) (TFixed U8)) [VMap (TFixed U8) (TFixed U8) []] in
   MarshalDBusType v = Inr (body GA v 0) \<and> body GA v 0 \<noteq> body field_alignment v 0"
  by code_simp

text \<open>The small-buffer optimisation of \<^verbatim>\<open>Variant::Create\<close> is invisible on the wire: however the variant
  holds its content, the code writes the signature, the padding and the content's own bytes.\<close>

theorem variant_storage_invisible:
  assumes "\<And>st s. v = VString st s \<Longrightarrow> CHR 0x00 \<notin> set s \<and> length s < 4294967296"
  shows "MarshalDBusTypeImpl (Variant_Create v) bs =
    bindE (MarshalBasicStringlikeType SignatureString (GetTypeSignature (type_of v)) bs)
      (\<lambda>d. MarshalDBusTypeImpl v (ApplyPadding d (GA (type_of v))))"
proof (cases "\<exists>st s. v = VString st s")
  case True
  then obtain st s where v: "v = VString st s" by blast
  then have "CHR 0x00 \<notin> set s" "u32 (length s) = length s" using assms by auto
  moreover from this have "length s \<le> 31 \<Longrightarrow> c_string (small_buffer s) = s"
    by (intro c_string_small_buffer_id) (simp_all add: SMALL_BUFFER_SIZE_def)
  ultimately show ?thesis
    by (simp add: v Variant_Create_string SMALL_BUFFER_SIZE_def del: GetTypeSignature.simps)
next
  case False
  then show ?thesis using Variant_Create_other [of v] by fastforce
qed

theorem variant_storage_invisible_witness:
  "MarshalDBusTypeImpl (Variant_Create (VString StdString ''Hi!'')) [] =
     bindE (MarshalBasicStringlikeType SignatureString ''s'' []) (\<lambda>d.
       MarshalDBusTypeImpl (VString StdString ''Hi!'') (ApplyPadding d 4))"
  using variant_storage_invisible [of "VString StdString ''Hi!''" "[]"] by simp

text \<open>A short string with a null character inside is not refused when it is put in a variant: it is
  cut at the null character, where the same string outside a variant, or a longer one, is refused.\<close>

theorem variant_truncates_short_string:
  assumes "length s < 32" and "CHR 0x00 \<notin> set p" and "s = p @ CHR 0x00 # r"
  shows "MarshalDBusTypeImpl (Variant_Create (VString StdString s)) bs =
      MarshalDBusTypeImpl (Variant_Create (VString StdString p)) bs \<and>
    MarshalDBusTypeImpl (VString StdString s) bs = Inl DBusSerializationError"
proof -
  have "c_string (small_buffer s) = takeWhile (\<lambda>c. c \<noteq> CHR 0x00) s"
    by (rule c_string_small_buffer) (use assms in \<open>simp add: SMALL_BUFFER_SIZE_def\<close>)
  also have "\<dots> = p" using assms(2, 3) by (auto simp: takeWhile_append takeWhile_eq_all_conv)
  finally have s: "c_string (small_buffer s) = p" .
  have p: "c_string (small_buffer p) = p"
    by (rule c_string_small_buffer_id) (use assms in \<open>simp_all add: SMALL_BUFFER_SIZE_def\<close>)
  have "MarshalDBusTypeImpl (Variant_Create (VString StdString s)) bs =
      MarshalDBusTypeImpl (Variant_Create (VString StdString p)) bs"
    using assms(1, 3) s p by (simp add: Variant_Create_string SMALL_BUFFER_SIZE_def)
  then show ?thesis
    using assms(3) by (simp add: MarshalBasicStringlikeType_body)
qed

theorem variant_truncates_short_string_witness:
  "MarshalDBusTypeImpl (Variant_Create (VString StdString [CHR ''a'', CHR 0x00, CHR ''b''])) [] =
     MarshalDBusTypeImpl (Variant_Create (VString StdString ''a'')) [] \<and>
   MarshalDBusTypeImpl (VString StdString [CHR ''a'', CHR 0x00, CHR ''b'']) [] = Inl DBusSerializationError"
  by (rule variant_truncates_short_string [where r = "''b''"]) simp_all

text \<open>Only the position modulo eight matters: the bytes appended for a value do not depend on what else
  the buffer holds.\<close>

theorem marshal_position_independent:
  assumes "wt v" and "sendable v" and "arrays_fit v (length bs)" and "arrays_fit v (length cs)"
    and "field_alignment (type_of v) dvd length bs" and "length bs mod 8 = length cs mod 8"
    and "length bs + length (body GA v (length bs)) < 4294967296"
    and "length cs + length (body GA v (length cs)) < 4294967296"
  shows "\<exists>w. MarshalDBusTypeImpl v bs = Inr (bs @ w) \<and> MarshalDBusTypeImpl v cs = Inr (cs @ w)"
proof -
  have "body GA v (length bs) = body GA v (length cs)"
    by (rule impl.body_mod_8 [OF assms(6)])
  moreover have "field_alignment (type_of v) dvd length cs"
    using assms(5, 6) field_alignment_dvd_8 by (metis dvd_mod_iff)
  ultimately show ?thesis
    using assms marshalsD [OF wt_marshals [OF assms(1, 2)], of bs]
      marshalsD [OF wt_marshals [OF assms(1, 2)], of cs] by simp
qed

theorem marshal_position_independent_witness:
  "\<exists>w. MarshalDBusTypeImpl example_value (replicate 8 1) = Inr (replicate 8 1 @ w) \<and>
       MarshalDBusTypeImpl example_value (replicate 24 2) = Inr (replicate 24 2 @ w)"
  by (rule marshal_position_independent) code_simp+

end
