(* ===== verification/Unmarshal.thy ===== *)
theory Unmarshal
  imports WireFormat
begin

text \<open>
  The unmarshalling half of \<^verbatim>\<open>src/src/DBus.h\<close>. \<open>dbusType\<close> is the span of received bytes and
  \<open>arrPointer\<close> the \<^verbatim>\<open>uint32_t\<close> the templates advance; every function returns the value with the new
  pointer, or the exception. A read outside the span is \<open>UndefinedBehaviour\<close>: the code's guards
  subtract the pointer from the size as \<^verbatim>\<open>size_t\<close>, so they do not exclude it. The functions take fuel,
  since the loops over crafted input need not end.
\<close>

section \<open>Basic types\<close>

definition UnmarshalDBusBasicFixedType ::
    "fixty \<Rightarrow> 8 word list \<Rightarrow> nat \<Rightarrow> (fixval \<times> nat) result" where
  "UnmarshalDBusBasicFixedType f dbusType arrPointer =
     (let minSize = wire_size f in
      if minSize > usub64 (length dbusType) arrPointer then Inl DBusMalformedInputError
      else if arrPointer + minSize > length dbusType then Inl UndefinedBehaviour
      else Inr (fix_of f (le_nat (take minSize (drop arrPointer dbusType))), u32 (arrPointer + minSize)))"

text \<open>The \<^verbatim>\<open>uint32_t\<close> or \<^verbatim>\<open>uint8_t\<close> that precedes strings and arrays.\<close>

definition unmarshal_length :: "fixty \<Rightarrow> 8 word list \<Rightarrow> nat \<Rightarrow> (nat \<times> nat) result" where
  "unmarshal_length f dbusType arrPointer =
     bindE (UnmarshalDBusBasicFixedType f dbusType arrPointer) (\<lambda>(x, p). Inr (fix_nat x, p))"

text \<open>The constructor call \<^verbatim>\<open>T{std::move(str)}\<close>: paths and interface names validate.\<close>

definition construct_string :: "strty \<Rightarrow> string \<Rightarrow> dval result" where
  "construct_string st str =
     (if st = ObjectPathString then bindE (make_ObjectPath str) (\<lambda>_. Inr (VString st str))
      else if st = InterfaceString then bindE (make_DBusInterfaceName str) (\<lambda>_. Inr (VString st str))
      else Inr (VString st str))"

definition UnmarshalDBusBasicStringlikeType ::
    "strty \<Rightarrow> 8 word list \<Rightarrow> nat \<Rightarrow> (dval \<times> nat) result" where
  "UnmarshalDBusBasicStringlikeType st dbusType arrPointer =
     bindE (unmarshal_length (if st = SignatureString then U8 else U32) dbusType arrPointer)
       (\<lambda>(strLength, p).
         if strLength \<ge> usub64 (length dbusType) p then Inl DBusMalformedInputError
         else let str = string_of_bytes (take strLength (drop p dbusType)) in
           bindE (construct_string st str) (\<lambda>v. Inr (v, u32 (p + (strLength + 1)))))"

section \<open>Arrays of fixed-size elements\<close>

text \<open>\<^verbatim>\<open>memcpy\<close> into the elements: each is read from its object representation, and a \<^verbatim>\<open>bool\<close> must be
  0 or 1. \<^verbatim>\<open>std::vector<bool>\<close> has no \<^verbatim>\<open>data()\<close>, so the code does not compile for it.\<close>

function raw_values :: "fixty \<Rightarrow> 8 word list \<Rightarrow> dval list result" where
  "raw_values f bs =
     (if bs = [] then Inr []
      else let n = le_nat (take (mem_size f) bs) in
        if f = Bool \<and> n > 1 then Inl UndefinedBehaviour
        else bindE (raw_values f (drop (mem_size f) bs)) (\<lambda>vs. Inr (VFixed (fix_of f n) # vs)))"
  by pat_completeness auto
termination
  by (relation "measure (\<lambda>(f, bs). length bs)") (auto simp: mem_size_def)

declare raw_values.simps [simp del]

definition UnmarshalFixedElements ::
    "nat option \<Rightarrow> fixty \<Rightarrow> nat \<Rightarrow> 8 word list \<Rightarrow> nat \<Rightarrow> (dval \<times> nat) result" where
  "UnmarshalFixedElements N f arrLength dbusType arrPointer =
     (let elemSize = mem_size f; count = arrLength div elemSize in
      if (case N of Some k \<Rightarrow> count \<noteq> k | None \<Rightarrow> False) then Inl DBusDeserializationError
      else if u32 (arrPointer + arrLength) > length dbusType then Inl DBusMalformedInputError
      else if arrLength > 0 \<and> (count * elemSize < arrLength \<or> arrPointer + arrLength > length dbusType)
      then Inl UndefinedBehaviour
      else bindE (raw_values f (take arrLength (drop arrPointer dbusType)))
        (\<lambda>vs. Inr (VArr N (TFixed f) vs, u32 (arrPointer + arrLength))))"

section \<open>Variants: walking a signature\<close>

text \<open>
  The loop of \<^verbatim>\<open>UnmarshalDBusVariant\<close> that finds where a variant's content ends. \<open>sig\<close> is the part of the
  signature from index \<^verbatim>\<open>i\<close> on; the signature of a nested variant is inserted after the current
  character.
\<close>

fun WalkVariantSignature ::
    "nat \<Rightarrow> string \<Rightarrow> 8 word list \<Rightarrow> nat \<Rightarrow> nat result" where
  "WalkVariantSignature 0 sig dbusType arrPointer = Inl OutOfFuel"
| "WalkVariantSignature (Suc n) sig dbusType arrPointer =
     (case sig of [] \<Rightarrow> Inr arrPointer
     | c # cs \<Rightarrow>
     bindE (if c \<noteq> CHR '')'' \<and> c \<noteq> CHR 0x7D
            then bindE (GetAlignmentOfSignature c) (\<lambda>al. Inr (SkipPadding arrPointer al))
            else Inr arrPointer) (\<lambda>p.
       if IsDBusBasicFixedTypeCode c
       then bindE (GetAlignmentOfSignature c) (\<lambda>typeSize.
         WalkVariantSignature n cs dbusType (u32 (p + typeSize)))
       else if IsDBusBasicStringlikeTypeCode c
       then bindE (unmarshal_length (if c = CHR ''g'' then U8 else U32) dbusType p)
         (\<lambda>(strSize, p1). WalkVariantSignature n cs dbusType (u32 (p1 + (strSize + 1))))
       else if c = CHR ''a''
       then bindE (unmarshal_length U32 dbusType p) (\<lambda>(arrSize, p1).
         bindE (GetAlignmentOfSignature (str_head cs)) (\<lambda>al.
           let p2 = u32 (SkipPadding p1 al + arrSize) in
           WalkVariantSignature n (if str_head cs \<noteq> CHR 0x7B then tl cs else cs) dbusType p2))
       else if c = CHR 0x7B
       then WalkVariantSignature n (tl (dropWhile (\<lambda>d. d \<noteq> CHR 0x7D) (c # cs))) dbusType p
       else if c = CHR ''v''
       then bindE (UnmarshalDBusBasicStringlikeType SignatureString dbusType p) (\<lambda>(v, p1).
         WalkVariantSignature n ((case v of VString _ s \<Rightarrow> s | _ \<Rightarrow> []) @ cs) dbusType p1)
       else WalkVariantSignature n cs dbusType p))"

text \<open>
  The content is the bytes from the content's first position to the walk's end. Up to 32 bytes are
  copied to an array whose remaining bytes are not initialised: \<open>junk pos i\<close> is the indeterminate
  byte \<open>i\<close> of the buffer of the variant at \<open>pos\<close>. Longer content is copied with \<^verbatim>\<open>drop\<close> and \<^verbatim>\<open>take\<close>
  views, which stop at the span's end.
\<close>

definition UnmarshalDBusVariant ::
    "(nat \<Rightarrow> nat \<Rightarrow> 8 word) \<Rightarrow> nat \<Rightarrow> bool \<Rightarrow> 8 word list \<Rightarrow> nat \<Rightarrow> (dval \<times> nat) result" where
  "UnmarshalDBusVariant junk n fast dbusType arrPointer =
     bindE (UnmarshalDBusBasicStringlikeType SignatureString dbusType arrPointer) (\<lambda>(v, p).
       let sig = (case v of VString _ s \<Rightarrow> s | _ \<Rightarrow> []) in
       bindE (GetAlignmentOfSignature (str_head sig)) (\<lambda>al.
         let old = SkipPadding p al in
         bindE (WalkVariantSignature n sig dbusType p) (\<lambda>q.
           let sz = usub32 q old in
           if fast then
             if old + sz > length dbusType then Inl UndefinedBehaviour
             else Inr (VFastDeser sig (take sz (drop old dbusType)), q)
           else if sz > SMALL_BUFFER_SIZE then
             Inr (VDeser sig (take sz (drop old dbusType)), q)
           else if old + sz > length dbusType then Inl UndefinedBehaviour
           else Inr (VDeser sig
             (take sz (drop old dbusType) @ map (junk old) [sz..<SMALL_BUFFER_SIZE]), q))))"

section \<open>Loops over elements\<close>

text \<open>
  The loops take the instance of \<^verbatim>\<open>UnmarshalDBusTypeImpl\<close> for their element types, as the templates
  do. \<open>UnmarshalArrayElements\<close> and \<open>UnmarshalMapEntries\<close> are the \<^verbatim>\<open>while\<close> loops of \<^verbatim>\<open>UnmarshalDBusArray\<close> and
  \<^verbatim>\<open>UnmarshalDBusMap\<close>, with fuel; their last argument holds what has been read. A struct's fields come
  with the alignment each is padded to.
\<close>

type_synonym 'a parser = "8 word list \<Rightarrow> nat \<Rightarrow> ('a \<times> nat) result"

fun UnmarshalArrayElements ::
    "dval parser \<Rightarrow> nat \<Rightarrow> nat option \<Rightarrow> cty \<Rightarrow> nat \<Rightarrow> 8 word list \<Rightarrow> nat \<Rightarrow> nat \<Rightarrow> dval list \<Rightarrow>
     (dval \<times> nat) result" where
  "UnmarshalArrayElements elem 0 N t arrLength dbusType arrPointer bytesRead vec = Inl OutOfFuel"
| "UnmarshalArrayElements elem (Suc n) N t arrLength dbusType arrPointer bytesRead vec =
     (if bytesRead < arrLength then
        if arrPointer \<ge> length dbusType then Inl DBusMalformedInputError
        else if (case N of Some k \<Rightarrow> length vec \<ge> k | None \<Rightarrow> False) then Inl DBusDeserializationError
        else bindE (elem dbusType arrPointer) (\<lambda>(v, p).
          let read1 = u32 (bytesRead + usub32 p arrPointer) in
          if read1 < arrLength then
            let p1 = SkipPadding p (GetAlignmentOfDBusType t) in
            UnmarshalArrayElements elem n N t arrLength dbusType p1
              (u32 (read1 + usub32 p1 p)) (vec @ [v])
          else UnmarshalArrayElements elem n N t arrLength dbusType p read1 (vec @ [v]))
      else if (case N of Some k \<Rightarrow> length vec < k | None \<Rightarrow> False) then Inl DBusDeserializationError
      else Inr (VArr N t vec, arrPointer))"

fun UnmarshalMapEntries ::
    "dval parser \<Rightarrow> dval parser \<Rightarrow> nat \<Rightarrow> cty \<Rightarrow> cty \<Rightarrow> nat \<Rightarrow> 8 word list \<Rightarrow> nat \<Rightarrow> nat \<Rightarrow>
     (dval \<times> dval) list \<Rightarrow> (dval \<times> nat) result" where
  "UnmarshalMapEntries keyT mappedT 0 k v mapLength dbusType arrPointer bytesRead m = Inl OutOfFuel"
| "UnmarshalMapEntries keyT mappedT (Suc n) k v mapLength dbusType arrPointer bytesRead m =
     (if bytesRead < mapLength then
        bindE (keyT dbusType arrPointer) (\<lambda>(key, p).
          bindE (mappedT dbusType (SkipPadding p (field_alignment v))) (\<lambda>(val, p1).
            let m1 = map_emplace key val m;
                read1 = u32 (bytesRead + usub32 p1 arrPointer) in
            if read1 < mapLength then
              let p2 = fst (AddPaddingToSize p1 (GetAlignmentOfDBusType (TMap k v))) in
              UnmarshalMapEntries keyT mappedT n k v mapLength dbusType p2
                (u32 (read1 + usub32 p2 p1)) m1
            else UnmarshalMapEntries keyT mappedT n k v mapLength dbusType p1 read1 m1))
      else Inr (VMap k v m, arrPointer))"

fun UnmarshalFields :: "(nat \<times> dval parser) list \<Rightarrow> dval list parser" where
  "UnmarshalFields [] dbusType arrPointer = Inr ([], arrPointer)"
| "UnmarshalFields ((al, elem) # fs) dbusType arrPointer =
     bindE (elem dbusType arrPointer) (\<lambda>(v, p).
       bindE (UnmarshalFields fs dbusType (if fs \<noteq> [] then SkipPadding p (fst (hd fs)) else p))
         (\<lambda>(vs, q). Inr (v # vs, q)))"

section \<open>All types\<close>

fun UnmarshalDBusTypeImpl :: "(nat \<Rightarrow> nat \<Rightarrow> 8 word) \<Rightarrow> nat \<Rightarrow> cty \<Rightarrow> dval parser" where
  "UnmarshalDBusTypeImpl junk n (TFixed f) dbusType arrPointer =
     bindE (UnmarshalDBusBasicFixedType f dbusType arrPointer) (\<lambda>(x, p). Inr (VFixed x, p))"
| "UnmarshalDBusTypeImpl junk n (TString st) dbusType arrPointer =
     UnmarshalDBusBasicStringlikeType st dbusType arrPointer"
| "UnmarshalDBusTypeImpl junk n (TArr N t) dbusType arrPointer =
     bindE (unmarshal_length U32 dbusType arrPointer) (\<lambda>(arrLength, p).
       if arrLength \<ge> 67108864 then Inl LengthError
       else let p1 = SkipPadding p (GetAlignmentOfDBusType t) in
         case t of
           TFixed f \<Rightarrow> UnmarshalFixedElements N f arrLength dbusType p1
         | _ \<Rightarrow> UnmarshalArrayElements (UnmarshalDBusTypeImpl junk n t) n N t arrLength dbusType p1 0 [])"
| "UnmarshalDBusTypeImpl junk n (TTuple ts) dbusType arrPointer =
     bindE (UnmarshalFields (map (\<lambda>t. (field_alignment t, UnmarshalDBusTypeImpl junk n t)) ts)
       dbusType arrPointer) (\<lambda>(vs, p). Inr (VTuple vs, p))"
| "UnmarshalDBusTypeImpl junk n (TMap k v) dbusType arrPointer =
     bindE (unmarshal_length U32 dbusType arrPointer) (\<lambda>(mapLength, p).
       let p1 = SkipPadding p (GetAlignmentOfDBusType (TMap k v)) in
       if mapLength = 0 then Inr (VMap k v [], SkipPadding p1 (GetAlignmentOfDBusType (TMap k v)))
       else UnmarshalMapEntries (UnmarshalDBusTypeImpl junk n k) (UnmarshalDBusTypeImpl junk n v) n
         k v mapLength dbusType p1 0 [])"
| "UnmarshalDBusTypeImpl junk n TVariant dbusType arrPointer =
     UnmarshalDBusVariant junk n False dbusType arrPointer"
| "UnmarshalDBusTypeImpl junk n TFastVariant dbusType arrPointer =
     UnmarshalDBusVariant junk n True dbusType arrPointer"

text \<open>The arguments of a body, in order, each padded to its \<^verbatim>\<open>GetAlignmentOfDBusType\<close>.\<close>

definition UnmarshalDBusBasicMultipleCompleteTypes ::
    "(nat \<Rightarrow> nat \<Rightarrow> 8 word) \<Rightarrow> nat \<Rightarrow> cty list \<Rightarrow> dval list parser" where
  "UnmarshalDBusBasicMultipleCompleteTypes junk n ts =
     UnmarshalFields (map (\<lambda>t. (GetAlignmentOfDBusType t, UnmarshalDBusTypeImpl junk n t)) ts)"

section \<open>Entry points\<close>

definition check_signature :: "string \<Rightarrow> string \<Rightarrow> unit result" where
  "check_signature signature expected =
     (if \<not> IsDBusTypeCode signature then Inl DBusInvalidSignatureError
      else if \<not> AreDBusTypeCodeBracketsEven signature then Inl DBusInvalidSignatureError
      else if signature \<noteq> expected then Inl DBusInvalidSignatureError
      else Inr ())"

definition UnmarshalDBusType_at ::
    "(nat \<Rightarrow> nat \<Rightarrow> 8 word) \<Rightarrow> nat \<Rightarrow> cty \<Rightarrow> 8 word list \<Rightarrow> string \<Rightarrow> nat \<Rightarrow> (dval \<times> nat) result" where
  "UnmarshalDBusType_at junk n T dbusType signature arrPointer =
     bindE (check_signature signature (GetTypeSignature T)) (\<lambda>_.
       UnmarshalDBusTypeImpl junk n T dbusType arrPointer)"

definition UnmarshalDBusType ::
    "(nat \<Rightarrow> nat \<Rightarrow> 8 word) \<Rightarrow> nat \<Rightarrow> cty \<Rightarrow> 8 word list \<Rightarrow> string \<Rightarrow> dval result" where
  "UnmarshalDBusType junk n T dbusType signature =
     bindE (UnmarshalDBusType_at junk n T dbusType signature 0) (\<lambda>(value, arrPointer).
       if arrPointer \<noteq> length dbusType then Inl DBusMalformedInputError else Inr value)"

definition UnmarshalMultipleCompleteTypes ::
    "(nat \<Rightarrow> nat \<Rightarrow> 8 word) \<Rightarrow> nat \<Rightarrow> cty list \<Rightarrow> 8 word list \<Rightarrow> string \<Rightarrow> dval list result" where
  "UnmarshalMultipleCompleteTypes junk n Ts dbusType signature =
     bindE (check_signature signature (BuildMultipleCompleteTypesSignature Ts)) (\<lambda>_.
       bindE (UnmarshalDBusBasicMultipleCompleteTypes junk n Ts dbusType 0) (\<lambda>(values, arrPointer).
         if arrPointer \<noteq> length dbusType then Inl DBusMalformedInputError else Inr values))"

text \<open>\<^verbatim>\<open>Variant::UnmarshalData<T>\<close> and \<^verbatim>\<open>FastVariant::UnmarshalData<T>\<close>.\<close>

fun Variant_UnmarshalData ::
    "(nat \<Rightarrow> nat \<Rightarrow> 8 word) \<Rightarrow> nat \<Rightarrow> cty \<Rightarrow> dval \<Rightarrow> dval result" where
  "Variant_UnmarshalData junk n T (VDeser sg data) =
     (if GetTypeSignature T \<noteq> sg then Inl VariantUnmarshalError
      else bindE (UnmarshalDBusTypeImpl junk n T data 0) (\<lambda>(v, p). Inr v))"
| "Variant_UnmarshalData junk n T (VFastDeser sg data) =
     (if GetTypeSignature T \<noteq> sg then Inl VariantUnmarshalError
      else bindE (UnmarshalDBusTypeImpl junk n T data 0) (\<lambda>(v, p). Inr v))"
| "Variant_UnmarshalData junk n T _ = Inl VariantUnmarshalError"

section \<open>The library's test vectors\<close>

abbreviation no_junk :: "nat \<Rightarrow> nat \<Rightarrow> 8 word" where "no_junk \<equiv> \<lambda>_ _. 0"

lemma test_unmarshal_string_array:
  "UnmarshalDBusType no_junk 9 (TArr None (TString StdString))
     [0x0F, 0, 0, 0, 1, 0, 0, 0, 97, 0, 0, 0, 2, 0, 0, 0, 98, 99, 0] ''as'' =
   Inr (VArr None (TString StdString) [VString StdString ''a'', VString StdString ''bc''])"
  by code_simp

lemma test_unmarshal_trailing_bytes:
  "UnmarshalDBusType no_junk 9 (TFixed U8) [1, 2] ''y'' = Inl DBusMalformedInputError"
  by code_simp

lemma test_unmarshal_map:
  "UnmarshalDBusType no_junk 9 (TMap (TFixed U32) (TFixed U16))
     [0x0E, 0, 0, 0, 0, 0, 0, 0, 1, 0, 0, 0, 0xEF, 0xBE, 0, 0, 2, 0, 0, 0, 0xAD, 0xDE] (''a'' @ [CHR 0x7B] @ ''uq'' @ [CHR 0x7D]) =
   Inr (VMap (TFixed U32) (TFixed U16)
     [(VFixed (FU32 1), VFixed (FU16 0xBEEF)), (VFixed (FU32 2), VFixed (FU16 0xDEAD))])"
  by code_simp

lemma test_unmarshal_variant:
  "bindE (UnmarshalDBusType no_junk 9 TVariant [1, 117, 0, 0, 0x44, 0x33, 0x22, 0x11] ''v'')
     (Variant_UnmarshalData no_junk 9 (TFixed U32)) = Inr (VFixed (FU32 0x11223344))"
  by code_simp

end
