(* ===== verification/Roundtrip.thy ===== *)
theory Roundtrip
  imports Unmarshal
begin

text \<open>
  Reading back what the layout of \<^verbatim>\<open>WireFormat\<close> put into a buffer: which C++ types accept a value, what
  they receive, and the round-trip theorems; then the inputs on which the decoder of
  \<^verbatim>\<open>src/src/DBus.h\<close> reads outside its buffer or never returns.
\<close>

section \<open>A buffer that holds given bytes\<close>

text \<open>Buffers are shorter than 64 MiB here, so no length they contain is refused or wraps around.\<close>

definition holds :: "8 word list \<Rightarrow> nat \<Rightarrow> 8 word list \<Rightarrow> bool" where
  "holds buf p w \<longleftrightarrow>
     length buf < 67108864 \<and> p + length w \<le> length buf \<and> take (length w) (drop p buf) = w"

lemma holds_append:
  "holds buf p (u @ w) \<longleftrightarrow> holds buf p u \<and> holds buf (p + length u) w"
proof -
  have "take (length u + length w) (drop p buf) =
      take (length u) (drop p buf) @ take (length w) (drop (p + length u) buf)"
    by (simp add: take_add add.commute)
  moreover have "length (take (length u) (drop p buf)) = length u" if "p + length u \<le> length buf"
    using that by simp
  ultimately show ?thesis
    unfolding holds_def by (auto simp: append_eq_append_conv)
qed

lemma holdsD:
  assumes "holds buf p w"
  shows "p + length w \<le> length buf" and "length buf < 67108864" and "take (length w) (drop p buf) = w"
  using assms by (simp_all add: holds_def)

lemma holds_middle: "length pre = p \<Longrightarrow> length (pre @ w @ post) < 67108864 \<Longrightarrow> holds (pre @ w @ post) p w"
  by (auto simp: holds_def)

lemma SkipPadding_holds:
  "holds buf p (zeros (padn a p) @ w) \<Longrightarrow> SkipPadding p a = p + padn a p"
  using holdsD(1, 2) [of buf p "zeros (padn a p) @ w"] by (intro SkipPadding_padn) simp

section \<open>Reading basic types\<close>

lemma unmarshal_fixed:
  assumes "holds buf p (wire_fixed x)"
  shows "UnmarshalDBusBasicFixedType (fix_type x) buf p = Inr (x, p + wire_size (fix_type x))"
proof -
  have le: "p + wire_size (fix_type x) \<le> length buf" "length buf < 67108864"
    "take (wire_size (fix_type x)) (drop p buf) = wire_fixed x"
    using holdsD [OF assms] by simp_all
  then have "\<not> wire_size (fix_type x) > usub64 (length buf) p" by simp
  then show ?thesis using le by (simp add: UnmarshalDBusBasicFixedType_def Let_def)
qed

lemma unmarshal_length_U32:
  assumes "holds buf p (le_bytes 4 k)" and "k < 4294967296"
  shows "unmarshal_length U32 buf p = Inr (k, p + 4)"
  using unmarshal_fixed [of buf p "FU32 (word_of_nat k)"] assms
  by (simp add: unmarshal_length_def wire_fixed_U32 unat_of_nat)

lemma unmarshal_length_U8:
  assumes "holds buf p (le_bytes 1 k)" and "k < 256"
  shows "unmarshal_length U8 buf p = Inr (k, p + 1)"
  using unmarshal_fixed [of buf p "FU8 (word_of_nat k)"] assms
  by (simp add: unmarshal_length_def wire_fixed_U8 unat_of_nat del: le_bytes.simps)

lemma construct_string_valid: "valid_string st s \<Longrightarrow> construct_string st s = Inr (VString st s)"
  by (auto simp: construct_string_def valid_string_def make_ObjectPath_def make_DBusInterfaceName_def
      split: option.splits)

lemma unmarshal_string:
  assumes h: "holds buf p (string_body st s)" and st: "st' = SignatureString \<longleftrightarrow> st = SignatureString"
    and v: "valid_string st' s" and l: "st = SignatureString \<Longrightarrow> length s < 256"
  shows "UnmarshalDBusBasicStringlikeType st' buf p =
    Inr (VString st' s, p + length (string_body st s))"
proof -
  let ?n = "if st = SignatureString then 1 else 4 :: nat"
  from h have h1: "holds buf p (le_bytes ?n (length s))"
    and h2: "holds buf (p + ?n) (bytes_of_string s)" and h3: "holds buf (p + ?n + length s) [0]"
    by (simp_all only: string_body_def holds_append length_le_bytes length_bytes_of_string add.assoc)
  have b: "p + ?n + length s + 1 \<le> length buf" "length buf < 67108864"
    using holdsD(1, 2) [OF h3] by simp_all
  have n: "unmarshal_length (if st' = SignatureString then U8 else U32) buf p = Inr (length s, p + ?n)"
    using st unmarshal_length_U8 [of buf p "length s"] unmarshal_length_U32 [of buf p "length s"] h1 l b
    by (cases "st = SignatureString") (simp_all del: le_bytes.simps)
  have g: "\<not> length s \<ge> usub64 (length buf) (p + ?n)" using b by simp
  have t: "string_of_bytes (take (length s) (drop (p + ?n) buf)) = s"
    using holdsD(3) [OF h2] by simp
  have u: "u32 (p + ?n + (length s + 1)) = p + length (string_body st s)"
    using b by (simp add: length_string_body)
  show ?thesis
    unfolding UnmarshalDBusBasicStringlikeType_def n
    using g t u construct_string_valid [OF v] by simp
qed

section \<open>Arrays of fixed-size elements\<close>

lemma raw_values_wires:
  "(\<And>v. v \<in> set vs \<Longrightarrow> type_of v = TFixed f) \<Longrightarrow> f \<noteq> Bool \<Longrightarrow>
   raw_values f (concat (map raw_bytes vs)) = Inr vs"
proof (induction vs)
  case Nil
  then show ?case by (simp add: raw_values.simps)
next
  case (Cons v vs)
  from Cons.prems(1) [of v] obtain x where v: "v = VFixed x" "fix_type x = f" by (cases v) auto
  have "wire_fixed x \<noteq> []"
    using length_wire_fixed [of x] wire_size_pos [of "fix_type x"] by (metis length_0_conv less_irrefl)
  moreover have "raw_values f (concat (map raw_bytes vs)) = Inr vs"
    by (rule Cons.IH) (use Cons.prems in auto)
  moreover have "mem_size f = length (wire_fixed x)" using Cons.prems(2) v by (simp add: mem_size_def)
  ultimately show ?case
    using v Cons.prems(2) by (subst raw_values.simps) (auto simp: Let_def)
qed

lemma unmarshal_fixed_elements:
  assumes vs: "\<And>v. v \<in> set vs \<Longrightarrow> type_of v = TFixed f" and f: "f \<noteq> Bool"
    and h: "holds buf p (concat (map raw_bytes vs))" and N: "N = None \<or> N = Some (length vs)"
  shows "UnmarshalFixedElements N f (length (concat (map raw_bytes vs))) buf p =
    Inr (VArr N (TFixed f) vs, p + length (concat (map raw_bytes vs)))"
proof -
  let ?w = "concat (map raw_bytes vs)"
  have l: "length ?w = length vs * mem_size f"
    using fixed_wires [OF vs, of vs 0] f by (simp add: mem_size_def)
  have c: "length ?w div mem_size f = length vs" using l by (simp add: mem_size_def)
  have b: "p + length ?w \<le> length buf" "length buf < 67108864" using holdsD(1, 2) [OF h] .
  then have u: "u32 (p + length ?w) = p + length ?w" by simp
  have r: "raw_values f (take (length ?w) (drop p buf)) = Inr vs"
    unfolding holdsD(3) [OF h] by (rule raw_values_wires [OF vs f])
  have n: "\<not> (case N of Some k \<Rightarrow> length vs \<noteq> k | None \<Rightarrow> False)" using N by auto
  show ?thesis
    unfolding UnmarshalFixedElements_def Let_def c u r
    using n b l by simp
qed

section \<open>Walking over a variant's content\<close>

text \<open>\<open>content v\<close> is the value a variant holds, however it is stored.\<close>

fun content :: "dval \<Rightarrow> dval option" where
  "content (VHeap sg al v) = Some v"
| "content (VInlineObj sg al v) = Some v"
| "content (VInlineStr sg al buf st) = Some (VString st (c_string buf))"
| "content _ = None"

lemma body_variant:
  "content v = Some c \<Longrightarrow> wt v \<Longrightarrow>
   body A v p = (let h = string_body SignatureString (GetTypeSignature (type_of c));
     k = padn (A (type_of c)) (p + length h) in h @ zeros k @ body A c (p + length h + k))"
  by (cases v) (auto simp: Let_def simp del: GetTypeSignature.simps)

text \<open>Contents the signature walk measures correctly: no maps, and only arrays whose element signature is
  one character.\<close>

fun one_char :: "cty \<Rightarrow> bool" where
  "one_char (TFixed f) = True"
| "one_char (TString s) = True"
| "one_char TVariant = True"
| "one_char TFastVariant = True"
| "one_char _ = False"

definition sig_fits :: "cty \<Rightarrow> bool" where
  "sig_fits t \<longleftrightarrow> length (GetTypeSignature t) < 256"

fun walkable :: "dval \<Rightarrow> bool" where
  "walkable (VFixed x) = True"
| "walkable (VString st s) = (st = SignatureString \<longrightarrow> length s < 256)"
| "walkable (VArr n t vs) = one_char t"
| "walkable (VTuple vs) = (vs \<noteq> [] \<and> (\<forall>v \<in> set vs. walkable v))"
| "walkable (VHeap sg al v) = (sig_fits (type_of v) \<and> walkable v)"
| "walkable (VInlineObj sg al v) = (sig_fits (type_of v) \<and> walkable v)"
| "walkable (VInlineStr sg al buf st) = True"
| "walkable _ = False"

lemma length_c_string: "length (c_string buf) \<le> length buf"
  by (simp add: c_string_def length_takeWhile_le)

text \<open>The number of signature characters the walk over a value visits.\<close>

fun walk_steps :: "dval \<Rightarrow> nat" where
  "walk_steps (VFixed x) = 1"
| "walk_steps (VString st s) = 1"
| "walk_steps (VArr n t vs) = 1"
| "walk_steps (VTuple vs) = 2 + sum_list (map walk_steps vs)"
| "walk_steps (VHeap sg al v) = 1 + walk_steps v"
| "walk_steps (VInlineObj sg al v) = 1 + walk_steps v"
| "walk_steps (VInlineStr sg al buf st) = 2"
| "walk_steps _ = 0"

lemma walk_eq:
  "WalkVariantSignature (Suc n) [] buf p = Inr p"
  "IsDBusBasicFixedTypeCode c \<Longrightarrow> GetAlignmentOfSignature c = Inr al \<Longrightarrow> c \<noteq> CHR '')'' \<Longrightarrow> c \<noteq> CHR 0x7D \<Longrightarrow>
    WalkVariantSignature (Suc n) (c # cs) buf p =
    WalkVariantSignature n cs buf (u32 (SkipPadding p al + al))"
  by simp_all

lemma walk_codes [simp]:
  "GetAlignmentOfSignature CHR ''s'' = Inr 4" "GetAlignmentOfSignature CHR ''o'' = Inr 4"
  "GetAlignmentOfSignature CHR ''g'' = Inr 1" "GetAlignmentOfSignature CHR ''a'' = Inr 4"
  "GetAlignmentOfSignature CHR ''('' = Inr 8" "GetAlignmentOfSignature CHR ''v'' = Inr 1"
  "\<not> IsDBusBasicFixedTypeCode CHR ''s''" "\<not> IsDBusBasicFixedTypeCode CHR ''o''"
  "\<not> IsDBusBasicFixedTypeCode CHR ''g''" "\<not> IsDBusBasicFixedTypeCode CHR ''a''"
  "\<not> IsDBusBasicFixedTypeCode CHR ''(''" "\<not> IsDBusBasicFixedTypeCode CHR '')''"
  "\<not> IsDBusBasicFixedTypeCode CHR ''v''"
  "IsDBusBasicStringlikeTypeCode CHR ''s''" "IsDBusBasicStringlikeTypeCode CHR ''o''"
  "IsDBusBasicStringlikeTypeCode CHR ''g''" "\<not> IsDBusBasicStringlikeTypeCode CHR ''a''"
  "\<not> IsDBusBasicStringlikeTypeCode CHR ''(''" "\<not> IsDBusBasicStringlikeTypeCode CHR '')''"
  "\<not> IsDBusBasicStringlikeTypeCode CHR ''v''"
  by (simp_all add: type_code_preds GetAlignmentOfSignature_def)

lemma fixed_code:
  "\<exists>c. GetTypeSignature (TFixed f) = [c] \<and> IsDBusBasicFixedTypeCode c \<and>
    GetAlignmentOfSignature c = Inr (wire_size f) \<and> c \<noteq> CHR '')'' \<and> c \<noteq> CHR 0x7D"
  by (cases f) (simp_all add: type_code_preds GetAlignmentOfSignature_def)

lemma string_code:
  "\<exists>c. GetTypeSignature (TString st) = [c] \<and> IsDBusBasicStringlikeTypeCode c \<and> \<not> IsDBusBasicFixedTypeCode c \<and>
    GetAlignmentOfSignature c = Inr (GA (TString st)) \<and> c \<noteq> CHR '')'' \<and> c \<noteq> CHR 0x7D \<and>
    (c = CHR ''g'' \<longleftrightarrow> st = SignatureString)"
  by (cases st) simp_all

lemma walk_fixed:
  assumes "holds buf p (zeros (padn (wire_size (fix_type x)) p) @ wire_fixed x)"
  shows "WalkVariantSignature (Suc n) (GetTypeSignature (TFixed (fix_type x)) @ rest) buf p =
    WalkVariantSignature n rest buf (p + padn (wire_size (fix_type x)) p + wire_size (fix_type x))"
proof -
  obtain c where c: "GetTypeSignature (TFixed (fix_type x)) = [c]" "IsDBusBasicFixedTypeCode c"
    "GetAlignmentOfSignature c = Inr (wire_size (fix_type x))" "c \<noteq> CHR '')''" "c \<noteq> CHR 0x7D"
    using fixed_code by blast
  have "p + padn (wire_size (fix_type x)) p + wire_size (fix_type x) < 67108864"
    using holdsD(1, 2) [OF assms] by simp
  then show ?thesis using c SkipPadding_holds [OF assms] by simp
qed

lemma walk_string:
  assumes h: "holds buf p (zeros (padn (GA (TString st)) p) @ string_body st s)"
    and l: "st = SignatureString \<longrightarrow> length s < 256"
  shows "WalkVariantSignature (Suc n) (GetTypeSignature (TString st) @ rest) buf p =
    WalkVariantSignature n rest buf (p + padn (GA (TString st)) p + length (string_body st s))"
proof -
  obtain c where c: "GetTypeSignature (TString st) = [c]" "IsDBusBasicStringlikeTypeCode c" "\<not> IsDBusBasicFixedTypeCode c"
    "GetAlignmentOfSignature c = Inr (GA (TString st))" "c \<noteq> CHR '')''" "c \<noteq> CHR 0x7D"
    "c = CHR ''g'' \<longleftrightarrow> st = SignatureString"
    using string_code by blast
  let ?q = "p + padn (GA (TString st)) p"
  let ?n = "if st = SignatureString then 1 else 4 :: nat"
  have "holds buf ?q (le_bytes ?n (length s))"
    using h by (simp only: string_body_def holds_append length_zeros)
  moreover have b: "?q + length (string_body st s) \<le> length buf" "length buf < 67108864"
    using holdsD(1, 2) [OF h] by simp_all
  ultimately have "unmarshal_length (if c = CHR ''g'' then U8 else U32) buf ?q = Inr (length s, ?q + ?n)"
    using l c(7) unmarshal_length_U8 [of buf ?q "length s"] unmarshal_length_U32 [of buf ?q "length s"]
    by (cases "st = SignatureString") (simp_all add: length_string_body del: le_bytes.simps)
  moreover have "u32 (?q + ?n + (length s + 1)) = ?q + length (string_body st s)"
    using b by (cases "st = SignatureString") (simp_all add: length_string_body)
  ultimately show ?thesis
    using c SkipPadding_holds [OF h] by (simp del: GetAlignmentOfDBusType.simps GetTypeSignature.simps)
qed

lemma one_char_code:
  "one_char t \<Longrightarrow> \<exists>c. GetTypeSignature t = [c] \<and> GetAlignmentOfSignature c = Inr (GA t) \<and> c \<noteq> CHR 0x7B"
proof (cases t)
  case (TFixed f)
  then show ?thesis by (cases f) (simp_all add: GetAlignmentOfSignature_def type_code_def)
next
  case (TString s)
  then show ?thesis by (cases s) simp_all
qed simp_all

definition walks :: "8 word list \<Rightarrow> dval \<Rightarrow> bool" where
  "walks buf v \<longleftrightarrow> (\<forall>p n rest.
     holds buf p (zeros (padn (GA (type_of v)) p) @ body GA v (p + padn (GA (type_of v)) p)) \<longrightarrow>
     WalkVariantSignature (walk_steps v + n) (GetTypeSignature (type_of v) @ rest) buf p =
     WalkVariantSignature n rest buf
       (p + padn (GA (type_of v)) p + length (body GA v (p + padn (GA (type_of v)) p))))"

lemma walksD:
  "walks buf v \<Longrightarrow>
   holds buf p (zeros (padn (GA (type_of v)) p) @ body GA v (p + padn (GA (type_of v)) p)) \<Longrightarrow>
   WalkVariantSignature (walk_steps v + n) (GetTypeSignature (type_of v) @ rest) buf p =
   WalkVariantSignature n rest buf
     (p + padn (GA (type_of v)) p + length (body GA v (p + padn (GA (type_of v)) p)))"
  by (simp add: walks_def)

lemma walk_array:
  assumes "one_char t"
    and h: "holds buf p (zeros (padn 4 p) @ body GA (VArr N t vs) (p + padn 4 p))"
  shows "WalkVariantSignature (Suc n) (GetTypeSignature (TArr N t) @ rest) buf p =
    WalkVariantSignature n rest buf (p + padn 4 p + length (body GA (VArr N t vs) (p + padn 4 p)))"
proof -
  obtain c where c: "GetTypeSignature t = [c]" "GetAlignmentOfSignature c = Inr (GA t)" "c \<noteq> CHR 0x7B"
    using one_char_code [OF assms(1)] by blast
  let ?q = "p + padn 4 p"
  let ?k = "padn (GA t) (?q + 4)"
  let ?es = "wires GA (\<lambda>_. GA t) vs (?q + 4 + ?k)"
  have b: "body GA (VArr N t vs) ?q = le_bytes 4 (length ?es) @ zeros ?k @ ?es"
    by (simp only: body.simps Let_def)
  have h1: "holds buf ?q (le_bytes 4 (length ?es))" "holds buf (?q + 4) (zeros ?k @ ?es)"
    using h unfolding b by (simp_all only: holds_append length_zeros length_le_bytes)
  have l: "?q + 4 + ?k + length ?es < 67108864" using holdsD(1, 2) [OF h1(2)] by simp
  then have "unmarshal_length U32 buf ?q = Inr (length ?es, ?q + 4)"
    by (intro unmarshal_length_U32 [OF h1(1)]) simp
  then show ?thesis
    unfolding b using c SkipPadding_holds [OF h] SkipPadding_holds [OF h1(2)] l
    by (simp add: Let_def, simp add: add.assoc)
qed

lemma walk_fields:
  assumes "\<And>v. v \<in> set vs \<Longrightarrow> walks buf v \<and> \<not> IsDBusMap (type_of v)"
    and "holds buf p (wires GA field_alignment vs p)"
  shows "WalkVariantSignature (sum_list (map walk_steps vs) + n)
      (concat (map (\<lambda>v. GetTypeSignature (type_of v)) vs) @ rest) buf p =
    WalkVariantSignature n rest buf (p + length (wires GA field_alignment vs p))"
  using assms
proof (induction vs arbitrary: p)
  case (Cons v vs)
  let ?k = "padn (GA (type_of v)) p"
  let ?b = "body GA v (p + ?k)"
  have f: "field_alignment (type_of v) = GA (type_of v)"
    using Cons.prems(1) [of v] by (simp add: field_alignment_def)
  have w: "wires GA field_alignment (v # vs) p =
      (zeros ?k @ ?b) @ wires GA field_alignment vs (p + ?k + length ?b)"
    by (simp add: f Let_def)
  have h: "holds buf p (zeros ?k @ ?b)"
    "holds buf (p + ?k + length ?b) (wires GA field_alignment vs (p + ?k + length ?b))"
    using Cons.prems(2) unfolding w by (simp_all add: holds_append add.assoc)
  have "WalkVariantSignature (sum_list (map walk_steps vs) + n)
      (concat (map (\<lambda>v. GetTypeSignature (type_of v)) vs) @ rest) buf (p + ?k + length ?b) =
    WalkVariantSignature n rest buf (p + ?k + length ?b +
      length (wires GA field_alignment vs (p + ?k + length ?b)))"
    by (rule Cons.IH [OF _ h(2)]) (use Cons.prems(1) in simp)
  moreover have "walks buf v" using Cons.prems(1) by simp
  ultimately show ?case
    unfolding w using walksD [OF _ h(1), of "sum_list (map walk_steps vs) + n"
        "concat (map (\<lambda>v. GetTypeSignature (type_of v)) vs) @ rest"]
    by (simp add: add.assoc)
qed simp

lemma walk_variant:
  assumes "walks buf v" and "sig_fits (type_of v)"
    and h: "holds buf p (body GA (VHeap (GetTypeSignature (type_of v)) al v) p)"
  shows "WalkVariantSignature (Suc (walk_steps v) + n) (CHR ''v'' # rest) buf p =
    WalkVariantSignature n rest buf (p + length (body GA (VHeap (GetTypeSignature (type_of v)) al v) p))"
proof -
  let ?s = "GetTypeSignature (type_of v)"
  let ?h = "string_body SignatureString ?s"
  let ?q = "p + length ?h"
  have b: "body GA (VHeap ?s al v) p = ?h @ zeros (padn (GA (type_of v)) ?q) @
      body GA v (?q + padn (GA (type_of v)) ?q)"
    by (simp add: Let_def)
  have h1: "holds buf p ?h"
    "holds buf ?q (zeros (padn (GA (type_of v)) ?q) @ body GA v (?q + padn (GA (type_of v)) ?q))"
    using h unfolding b by (simp_all only: holds_append)
  have "UnmarshalDBusBasicStringlikeType SignatureString buf p = Inr (VString SignatureString ?s, ?q)"
    by (rule unmarshal_string [OF h1(1)]) (use assms(2) in \<open>simp_all add: valid_string_def sig_fits_def\<close>)
  moreover have "SkipPadding p (Suc 0) = p" by (simp add: SkipPadding_def Let_def)
  ultimately show ?thesis
    unfolding b using walksD [OF assms(1) h1(2), of n rest] by (simp add: add.assoc)
qed

lemma body_inline:
  "body A (VInlineObj sg al v) p = body A (VHeap sg al v) p"
  "body A (VInlineStr sg al b st) p = body A (VHeap sg al (VString st (c_string b))) p"
  by simp_all

lemma walkable_walks: "wt v \<Longrightarrow> walkable v \<Longrightarrow> walks buf v"
proof -
  have "wt v \<longrightarrow> walkable v \<longrightarrow> walks buf v \<and> \<not> IsDBusMap (type_of v)"
    "\<forall>v \<in> set vs. wt v \<longrightarrow> walkable v \<longrightarrow> walks buf v \<and> \<not> IsDBusMap (type_of v)" "True" for vs and m :: "(dval \<times> dval) list"
  proof (induction v and vs and m rule: value_induct)
    case (VFixed x)
    show ?case
      using walk_fixed [where x = x] by (simp add: walks_def del: WalkVariantSignature.simps)
  next
    case (VString st s)
    show ?case
      using walk_string [where st = st and s = s]
      by (simp add: walks_def del: WalkVariantSignature.simps GetAlignmentOfDBusType.simps GetTypeSignature.simps)
  next
    case (VArr n t vs)
    show ?case
      using walk_array [of t buf _ n vs]
      by (simp add: walks_def del: WalkVariantSignature.simps GetTypeSignature.simps body.simps)
  next
    case (VTuple vs)
    show ?case
    proof (intro impI conjI)
      assume a: "wt (VTuple vs)" "walkable (VTuple vs)"
      show "walks buf (VTuple vs)"
        unfolding walks_def
      proof (intro allI impI)
        fix p n rest
        let ?q = "p + padn 8 p"
        assume h: "holds buf p (zeros (padn (GA (type_of (VTuple vs))) p) @
          body GA (VTuple vs) (p + padn (GA (type_of (VTuple vs))) p))"
        then have h1: "holds buf p (zeros (padn 8 p) @ wires GA field_alignment vs ?q)"
          "holds buf ?q (wires GA field_alignment vs ?q)"
          by (simp_all add: holds_append)
        have "WalkVariantSignature (sum_list (map walk_steps vs) + Suc n)
            (concat (map (\<lambda>v. GetTypeSignature (type_of v)) vs) @ CHR '')'' # rest) buf ?q =
          WalkVariantSignature (Suc n) (CHR '')'' # rest) buf (?q + length (wires GA field_alignment vs ?q))"
          by (rule walk_fields [OF _ h1(2)]) (use VTuple a in \<open>auto simp: wt_elems_iff\<close>)
        then show "WalkVariantSignature (walk_steps (VTuple vs) + n)
            (GetTypeSignature (type_of (VTuple vs)) @ rest) buf p =
          WalkVariantSignature n rest buf (p + padn (GA (type_of (VTuple vs))) p +
            length (body GA (VTuple vs) (p + padn (GA (type_of (VTuple vs))) p)))"
          using SkipPadding_holds [OF h1(1)] by (simp add: comp_def)
      qed
    qed simp
  next
    case (VHeap sg al v)
    then show ?case using walk_variant [of buf v]
      by (auto simp: walks_def simp del: WalkVariantSignature.simps body.simps)
  next
    case (VInlineObj sg al v)
    then show ?case using walk_variant [of buf v]
      by (auto simp: walks_def body_inline simp del: WalkVariantSignature.simps body.simps)
  next
    case (VInlineStr sg al b st)
    have w: "walks buf (VString st (c_string b))" if "length b = 32"
      using walk_string [where st = st and s = "c_string b"] length_c_string [of b] that
      by (simp add: walks_def del: WalkVariantSignature.simps GetAlignmentOfDBusType.simps GetTypeSignature.simps)
    have f: "sig_fits (TString st)" by (cases st) (simp_all add: sig_fits_def)
    show ?case
      using walk_variant [OF w, of _ al] f
      by (auto simp: walks_def body_inline SMALL_BUFFER_SIZE_def
          simp del: WalkVariantSignature.simps body.simps GetAlignmentOfDBusType.simps GetTypeSignature.simps
          simp add: GetAlignmentOfDBusType.simps(6) GetTypeSignature.simps(16))
  qed simp_all
  then show "wt v \<Longrightarrow> walkable v \<Longrightarrow> walks buf v" by blast
qed

section \<open>What a type can read\<close>

lemma size_fst_zip [termination_simp]:
  "x \<in> set (zip ts vs) \<Longrightarrow> size (fst x) < Suc (size_list size ts)"
proof -
  assume "x \<in> set (zip ts vs)"
  then have "fst x \<in> set ts" using in_set_zipE [of "fst x" "snd x" ts vs] by (metis prod.collapse)
  then show ?thesis by (simp add: size_list_estimation' less_Suc_eq_le)
qed

text \<open>
  \<open>accepts T v\<close>: the bytes of \<open>v\<close> can be read as the C++ type \<open>T\<close>. The types need not be the same: a
  \<^verbatim>\<open>std::array\<close> may be read as a \<^verbatim>\<open>std::vector\<close> or as an array of its length, a string as an interface
  name it is valid for, a \<^verbatim>\<open>Variant\<close> as a \<^verbatim>\<open>FastVariant\<close>.
\<close>

fun accepts :: "cty \<Rightarrow> dval \<Rightarrow> bool" where
  "accepts (TFixed f) v = (type_of v = TFixed f)"
| "accepts (TString st) v =
     (case v of VString st' s \<Rightarrow>
        wire_type (TString st) = wire_type (TString st') \<and> valid_string st s \<and>
        (st = SignatureString \<longrightarrow> length s < 256)
      | _ \<Rightarrow> False)"
| "accepts (TArr N t) v =
     (case v of VArr N' t' vs \<Rightarrow>
        wire_type t = wire_type t' \<and> t \<noteq> TFixed Bool \<and>
        (case N of None \<Rightarrow> True | Some k \<Rightarrow> length vs = k) \<and> (\<forall>x \<in> set vs. accepts t x)
      | _ \<Rightarrow> False)"
| "accepts (TTuple ts) v =
     (case v of VTuple vs \<Rightarrow>
        vs \<noteq> [] \<and> length ts = length vs \<and> (\<forall>x \<in> set (zip ts vs). accepts (fst x) (snd x))
      | _ \<Rightarrow> False)"
| "accepts (TMap k t) v =
     (case v of VMap k' t' m \<Rightarrow>
        wire_type k = wire_type k' \<and> wire_type t = wire_type t' \<and>
        (\<forall>e \<in> set m. accepts k (fst e) \<and> accepts t (snd e))
      | _ \<Rightarrow> False)"
| "accepts TVariant v = (type_of v = TVariant \<and> walkable v)"
| "accepts TFastVariant v = (type_of v = TVariant \<and> walkable v)"

lemma accepts_wire_type:
  "accepts T v \<Longrightarrow> wt v \<Longrightarrow> wire_type T = wire_type (type_of v)"
proof (induction T arbitrary: v)
  case (TTuple ts)
  then obtain vs where v: "v = VTuple vs" and l: "length ts = length vs"
    and z: "\<And>x. x \<in> set (zip ts vs) \<Longrightarrow> accepts (fst x) (snd x)" and w: "wt_elems vs"
    by (cases v) auto
  have "wire_type (ts ! i) = wire_type (type_of (vs ! i))" if "i < length vs" for i
  proof (rule TTuple.IH)
    show "ts ! i \<in> set ts" using that l by simp
    show "accepts (ts ! i) (vs ! i)" using z [of "(ts ! i, vs ! i)"] that l by (force simp: set_zip)
    show "wt (vs ! i)" using w that by (simp add: wt_elems_iff)
  qed
  then have "map wire_type ts = map (wire_type \<circ> type_of) vs"
    using l by (intro nth_equalityI) simp_all
  then show ?case using v by simp
qed (auto split: dval.splits)

lemma GA_wire_type [simp]: "GA (wire_type t) = GA t"
  by (cases t) simp_all

lemma IsDBusMap_wire_type [simp]: "IsDBusMap (wire_type t) = IsDBusMap t"
  by (cases t) simp_all

lemma field_alignment_wire_type: "wire_type t = wire_type u \<Longrightarrow> field_alignment t = field_alignment u"
  unfolding field_alignment_def by (metis GA_wire_type IsDBusMap_wire_type)

lemma GA_wire_eq: "wire_type t = wire_type u \<Longrightarrow> GA t = GA u"
  by (metis GA_wire_type)

lemma le_bytes_Nil_iff [simp]: "le_bytes k n = [] \<longleftrightarrow> k = 0"
  by (cases k) simp_all

lemma body_nonempty:
  "accepts T v \<Longrightarrow> wt v \<Longrightarrow> body GA v p \<noteq> []"
proof (induction T arbitrary: v p)
  case (TFixed f)
  then obtain x where "v = VFixed x" by (cases v) auto
  then show ?case
    using length_wire_fixed [of x] wire_size_pos [of "fix_type x"]
    by (metis body.simps(1) length_0_conv less_irrefl)
next
  case (TTuple ts)
  then obtain u us where v: "v = VTuple (u # us)" by (cases v) (auto simp: neq_Nil_conv)
  with TTuple.prems obtain t ts' where ts: "ts = t # ts'" by (cases ts) auto
  have "body GA u (p + padn (field_alignment (type_of u)) p) \<noteq> []"
    by (rule TTuple.IH [of t]) (use TTuple.prems v ts in auto)
  then show ?case using v by (simp add: Let_def)
next
  case TVariant
  then show ?case by (cases v) (auto simp: Let_def string_body_def)
next
  case TFastVariant
  then show ?case by (cases v) (auto simp: Let_def string_body_def)
qed (auto simp: Let_def string_body_def split: dval.splits)

text \<open>
  \<open>received v u\<close>: \<open>u\<close> is what a reader gets for \<open>v\<close>. A variant arrives undecoded: its signature and the
  bytes of its content as laid out at some position aligned for it, followed in the 32-byte buffer
  of a \<^verbatim>\<open>Variant\<close> by bytes of unknown value.
\<close>

inductive received :: "dval \<Rightarrow> dval \<Rightarrow> bool" where
  fixed: "received (VFixed x) (VFixed x)"
| string: "received (VString st s) (VString st' s)"
| array: "list_all2 (\<lambda>v u. received v u \<and> type_of u = t') vs us \<Longrightarrow> received (VArr n t vs) (VArr n' t' us)"
| tuple: "list_all2 received vs us \<Longrightarrow> received (VTuple vs) (VTuple us)"
| map: "list_all2 (\<lambda>a b. (received (fst a) (fst b) \<and> type_of (fst b) = k') \<and>
      (received (snd a) (snd b) \<and> type_of (snd b) = t')) m m' \<Longrightarrow>
    received (VMap k t m) (VMap k' t' m')"
| variant: "content v = Some c \<Longrightarrow> GA (type_of c) dvd p \<Longrightarrow> sg = GetTypeSignature (type_of c) \<Longrightarrow>
    w = body GA c p \<Longrightarrow> (if length w > SMALL_BUFFER_SIZE then j = [] else length (w @ j) = SMALL_BUFFER_SIZE) \<Longrightarrow>
    received v (VDeser sg (w @ j))"
| fast: "content v = Some c \<Longrightarrow> GA (type_of c) dvd p \<Longrightarrow> sg = GetTypeSignature (type_of c) \<Longrightarrow>
    w = body GA c p \<Longrightarrow> received v (VFastDeser sg w)"


section \<open>Reading sequences\<close>

text \<open>\<open>parses p1 T v\<close>: the parser \<open>p1\<close>, used for type \<open>T\<close>, reads \<open>v\<close> from any aligned position of \<open>buf\<close>
  that holds it.\<close>

definition parses :: "8 word list \<Rightarrow> dval parser \<Rightarrow> cty \<Rightarrow> dval \<Rightarrow> bool" where
  "parses buf elem T v \<longleftrightarrow> wire_type T = wire_type (type_of v) \<and> (\<forall>p. body GA v p \<noteq> []) \<and>
     (\<forall>p. field_alignment T dvd p \<longrightarrow> holds buf p (body GA v p) \<longrightarrow>
       (\<exists>u. elem buf p = Inr (u, p + length (body GA v p)) \<and> received v u \<and> type_of u = T))"

lemma parsesE:
  assumes "parses buf elem T v" and "field_alignment T dvd p" and "holds buf p (body GA v p)"
  obtains u where "elem buf p = Inr (u, p + length (body GA v p))" and "received v u" and "type_of u = T"
  using assms by (auto simp: parses_def)

lemma unmarshal_fields:
  assumes "length fs = length vs" and "length ts = length vs"
    and "\<And>i. i < length vs \<Longrightarrow> parses buf (snd (fs ! i)) (ts ! i) (vs ! i)"
    and "\<And>i. i < length vs \<Longrightarrow> fst (fs ! i) = F (type_of (vs ! i)) \<and> 0 < F (type_of (vs ! i)) \<and>
        field_alignment (type_of (vs ! i)) dvd F (type_of (vs ! i))"
    and "vs \<noteq> [] \<Longrightarrow> F (type_of (hd vs)) dvd p" and "holds buf p (wires GA F vs p)"
  shows "\<exists>us. UnmarshalFields fs buf p = Inr (us, p + length (wires GA F vs p)) \<and>
    list_all2 received vs us \<and> map type_of us = ts"
  using assms
proof (induction fs arbitrary: ts vs p)
  case Nil
  then show ?case by simp
next
  case (Cons f fs)
  from Cons.prems(1) obtain v vs' where vs: "vs = v # vs'" by (cases vs) auto
  from Cons.prems(2) vs obtain t ts' where ts: "ts = t # ts'" by (cases ts) auto
  obtain a elem where f: "f = (a, elem)" by (cases f)
  let ?b = "body GA v p"
  have k: "padn (F (type_of v)) p = 0" using Cons.prems(5) vs by (simp add: padn_aligned)
  have w: "wires GA F vs p = ?b @ wires GA F vs' (p + length ?b)" using vs k by (simp add: Let_def)
  have h: "holds buf p ?b" "holds buf (p + length ?b) (wires GA F vs' (p + length ?b))"
    using Cons.prems(6) unfolding w by (simp_all only: holds_append)
  have P: "parses buf elem t v" using Cons.prems(3) [of 0] vs ts f by simp
  have al: "field_alignment t dvd p"
    using P Cons.prems(4) [of 0] Cons.prems(5) vs field_alignment_wire_type [of t "type_of v"]
    by (auto simp: parses_def intro: dvd_trans)
  from P al h(1) obtain u where u: "elem buf p = Inr (u, p + length ?b)" "received v u" "type_of u = t"
    by (rule parsesE)
  show ?case
  proof (cases "vs' = []")
    case True
    then show ?thesis using Cons.prems(1, 2) vs ts f u w by simp
  next
    case False
    let ?k = "padn (F (type_of (hd vs'))) (p + length ?b)"
    have pos: "0 < F (type_of (hd vs'))" using Cons.prems(4) [of 1] vs False by (cases vs') auto
    have w': "wires GA F vs' (p + length ?b) = zeros ?k @ wires GA F vs' (p + length ?b + ?k)"
      by (rule impl.wires_pad [where F = F, OF False pos])
    have h': "holds buf (p + length ?b + ?k) (wires GA F vs' (p + length ?b + ?k))"
      using h(2) unfolding w' by (simp add: holds_append)
    have "fs \<noteq> []" using False Cons.prems(1) vs by auto
    moreover have "fst (hd fs) = F (type_of (hd vs'))"
      using Cons.prems(1) Cons.prems(4) [of 1] vs False \<open>fs \<noteq> []\<close> by (cases fs; cases vs') auto
    moreover have "SkipPadding (p + length ?b) (F (type_of (hd vs'))) = p + length ?b + ?k"
      by (rule SkipPadding_holds) (use h(2) w' in simp)
    moreover have "\<exists>us. UnmarshalFields fs buf (p + length ?b + ?k) =
        Inr (us, p + length ?b + ?k + length (wires GA F vs' (p + length ?b + ?k))) \<and>
      list_all2 received vs' us \<and> map type_of us = ts'"
    proof (rule Cons.IH [OF _ _ _ _ _ h'])
      show "F (type_of (hd vs')) dvd p + length ?b + ?k" by (rule dvd_add_padn [OF pos])
      fix i assume "i < length vs'"
      then show "parses buf (snd (fs ! i)) (ts' ! i) (vs' ! i)"
        "fst (fs ! i) = F (type_of (vs' ! i)) \<and> 0 < F (type_of (vs' ! i)) \<and>
          field_alignment (type_of (vs' ! i)) dvd F (type_of (vs' ! i))"
        using Cons.prems(3) [of "Suc i"] Cons.prems(4) [of "Suc i"] vs ts by simp_all
    qed (use Cons.prems vs ts in simp_all)
    ultimately show ?thesis
      using vs ts f u w w' by auto
  qed
qed

lemma wires_nonempty:
  "vs \<noteq> [] \<Longrightarrow> (\<And>v q. v \<in> set vs \<Longrightarrow> body GA v q \<noteq> []) \<Longrightarrow> wires GA F vs p \<noteq> []"
  by (cases vs) (auto simp: Let_def)

lemma length_wires:
  "(\<And>v q. v \<in> set vs \<Longrightarrow> body GA v q \<noteq> []) \<Longrightarrow> length vs \<le> length (wires GA F vs p)"
proof (induction vs arbitrary: p)
  case (Cons v vs)
  let ?k = "padn (F (type_of v)) p"
  have "0 < length (body GA v (p + ?k))" using Cons.prems by simp
  moreover have "length vs \<le> length (wires GA F vs (p + ?k + length (body GA v (p + ?k))))"
    by (rule Cons.IH) (use Cons.prems in simp)
  moreover have "length (wires GA F (v # vs) p) = ?k + (length (body GA v (p + ?k)) +
      length (wires GA F vs (p + ?k + length (body GA v (p + ?k)))))"
    by (simp add: Let_def)
  ultimately show ?case by (simp only: list.size)
qed simp

lemma length_entries:
  "(\<And>e q. e \<in> set m \<Longrightarrow> body GA (fst e) q \<noteq> []) \<Longrightarrow> length m \<le> length (entries GA t m p)"
proof (induction m arbitrary: p)
  case (Cons e m)
  obtain a b where e: "e = (a, b)" by (cases e)
  let ?x = "body GA a (p + padn 8 p)"
  have "0 < length ?x" using Cons.prems [of e] e by simp
  moreover have "length ?x + length m \<le> length (entries GA t (e # m) p)"
    unfolding e using Cons.IH Cons.prems by (simp add: Let_def trans_le_add2)
  ultimately show ?case by (simp only: list.size)
qed simp

lemma unmarshal_array_elements:
  assumes "\<And>v. v \<in> set vs \<Longrightarrow> parses buf elem t v" and "\<And>v. v \<in> set vs \<Longrightarrow> type_of v = t'"
    and "vs \<noteq> [] \<Longrightarrow> GA t dvd p" and "holds buf p (wires GA (\<lambda>_. GA t) vs p)"
    and "bytesRead + length (wires GA (\<lambda>_. GA t) vs p) = arrLength" and "arrLength < 67108864"
    and "length vs < n" and "N = None \<or> N = Some (length vec + length vs)"
  shows "\<exists>us. UnmarshalArrayElements elem n N t arrLength buf p bytesRead vec =
      Inr (VArr N t (vec @ us), p + length (wires GA (\<lambda>_. GA t) vs p)) \<and> list_all2 (\<lambda>v u. received v u \<and> type_of u = t) vs us"
  using assms
proof (induction vs arbitrary: n p bytesRead vec)
  case Nil
  then show ?case by (cases n) auto
next
  case (Cons v vs)
  let ?F = "\<lambda>_::cty. GA t"
  from Cons.prems(7) obtain n' where n: "n = Suc n'" by (cases n) auto
  let ?b = "body GA v p"
  let ?p = "p + length ?b"
  have P: "parses buf elem t v" using Cons.prems(1) by simp
  have k: "padn (GA t) p = 0" using Cons.prems(3) by (simp add: padn_aligned)
  have w: "wires GA ?F (v # vs) p = ?b @ wires GA ?F vs ?p" using k by (simp add: Let_def)
  have h: "holds buf p ?b" "holds buf ?p (wires GA ?F vs ?p)"
    using Cons.prems(4) unfolding w by (simp_all only: holds_append)
  have bd: "?p + length (wires GA ?F vs ?p) \<le> length buf" "length buf < 67108864"
    using holdsD(1, 2) [OF h(2)] .
  have ne: "body GA x q \<noteq> []" if "x \<in> set (v # vs)" for x q
    using Cons.prems(1) [OF that] by (simp add: parses_def)
  from ne [of v p] have pos: "0 < length ?b" by simp
  have al: "field_alignment t dvd p"
    using Cons.prems(3) field_alignment_dvd by (auto intro: dvd_trans)
  from P al h(1) obtain u where u: "elem buf p = Inr (u, ?p)" "received v u" "type_of u = t"
    by (rule parsesE)
  have N: "\<not> (case N of Some k \<Rightarrow> length vec \<ge> k | None \<Rightarrow> False)" using Cons.prems(8) by auto
  have r1: "u32 (bytesRead + usub32 ?p p) = bytesRead + length ?b"
    using bd Cons.prems(5, 6) w by simp
  have tot: "bytesRead + (length ?b + length (wires GA ?F vs ?p)) = arrLength"
    using Cons.prems(5) unfolding w by simp
  have lt: "bytesRead < arrLength" "p < length buf" using tot pos bd by linarith+
  show ?case
  proof (cases "vs = []")
    case True
    then have "bytesRead + length ?b = arrLength" using Cons.prems(5) w by simp
    moreover from this have "\<exists>us. UnmarshalArrayElements elem n' N t arrLength buf ?p arrLength (vec @ [u]) =
      Inr (VArr N t ((vec @ [u]) @ us), ?p + length (wires GA ?F vs ?p)) \<and> list_all2 (\<lambda>v u. received v u \<and> type_of u = t) vs us"
      by (intro Cons.IH) (use Cons.prems True h n in auto)
    ultimately show ?thesis
      using n lt N u r1 w by (auto simp: Let_def)
  next
    case False
    let ?k = "padn (GA t) ?p"
    have w': "wires GA ?F vs ?p = zeros ?k @ wires GA ?F vs (?p + ?k)"
      by (rule impl.wires_pad [where F = ?F, OF False]) simp
    have h': "holds buf (?p + ?k) (wires GA ?F vs (?p + ?k))"
      using h(2) unfolding w' by (simp add: holds_append)
    have sk: "SkipPadding ?p (GA t) = ?p + ?k"
      by (rule SkipPadding_holds) (use h(2) w' in simp)
    have "wires GA ?F vs (?p + ?k) \<noteq> []" by (rule wires_nonempty [OF False]) (use ne in simp)
    then have "0 < length (wires GA ?F vs (?p + ?k))" by simp
    moreover have "length (wires GA ?F vs ?p) = ?k + length (wires GA ?F vs (?p + ?k))"
      by (subst w') simp
    ultimately have r2: "bytesRead + length ?b + ?k < arrLength" using tot by linarith
    have r3: "u32 (bytesRead + length ?b + usub32 (?p + ?k) ?p) = bytesRead + length ?b + ?k"
      using bd w' r2 Cons.prems(6) by simp
    have "\<exists>us. UnmarshalArrayElements elem n' N t arrLength buf (?p + ?k) (bytesRead + length ?b + ?k) (vec @ [u]) =
      Inr (VArr N t ((vec @ [u]) @ us), ?p + ?k + length (wires GA ?F vs (?p + ?k))) \<and> list_all2 (\<lambda>v u. received v u \<and> type_of u = t) vs us"
    proof (rule Cons.IH [OF _ _ _ h'])
      show "GA t dvd ?p + ?k" by (rule dvd_add_padn) simp
      show "bytesRead + length ?b + ?k + length (wires GA ?F vs (?p + ?k)) = arrLength"
        using Cons.prems(5) unfolding w w' by simp
    qed (use Cons.prems n in auto)
    then show ?thesis
      using n lt N u r1 r2 r3 w w' sk by (auto simp: Let_def)
  qed
qed

text \<open>Received keys compare as the sent ones do.\<close>

lemma received_key:
  "received a a' \<Longrightarrow> IsDBusBasicType (type_of a) \<Longrightarrow> received b b' \<Longrightarrow> IsDBusBasicType (type_of b) \<Longrightarrow>
   key_less a b \<Longrightarrow> key_less a' b'"
  by (cases a; cases b) (auto elim!: received.cases simp: IsDBusBasicType_def)

lemma unmarshal_map_entries:
  assumes "\<And>e. e \<in> set m \<Longrightarrow> parses buf keyT k (fst e) \<and> parses buf mappedT t (snd e)"
    and "m \<noteq> [] \<Longrightarrow> 8 dvd p" and "holds buf p (entries GA t m p)"
    and "bytesRead + length (entries GA t m p) = mapLength" and "mapLength < 67108864"
    and "length m < n"
    and "\<And>e. e \<in> set m \<Longrightarrow> IsDBusBasicType (type_of (fst e))"
    and "sorted_wrt key_less (map fst m)"
    and "\<And>x e. x \<in> fst ` set acc \<Longrightarrow> e \<in> set m \<Longrightarrow> \<exists>y. received y x \<and> IsDBusBasicType (type_of y) \<and> key_less y (fst e)"
  shows "\<exists>m'. UnmarshalMapEntries keyT mappedT n k t mapLength buf p bytesRead acc =
      Inr (VMap k t (acc @ m'), p + length (entries GA t m p)) \<and>
    list_all2 (\<lambda>a b. (received (fst a) (fst b) \<and> type_of (fst b) = k) \<and>
      (received (snd a) (snd b) \<and> type_of (snd b) = t)) m m'"
  using assms
proof (induction m arbitrary: n p bytesRead acc)
  case Nil
  then show ?case by (cases n) auto
next
  case (Cons e m)
  from Cons.prems(6) obtain n' where n: "n = Suc n'" by (cases n) auto
  obtain a b where e: "e = (a, b)" by (cases e)
  let ?x = "body GA a p"
  let ?l = "padn (field_alignment t) (p + length ?x)"
  let ?q = "p + length ?x + ?l"
  let ?y = "body GA b ?q"
  let ?r = "?q + length ?y"
  have k8: "padn 8 p = 0" using Cons.prems(2) by (simp add: padn_aligned)
  have w: "entries GA t (e # m) p = ?x @ (zeros ?l @ ?y) @ entries GA t m ?r"
    using k8 e by (simp add: Let_def)
  have h: "holds buf p ?x" "holds buf (p + length ?x) (zeros ?l @ ?y)" "holds buf ?q ?y"
    "holds buf ?r (entries GA t m ?r)"
    using Cons.prems(3) unfolding w by (simp_all add: holds_append add.assoc)
  have bd: "?r + length (entries GA t m ?r) \<le> length buf" "length buf < 67108864"
    using holdsD(1, 2) [OF h(4)] .
  have P: "parses buf keyT k a" "parses buf mappedT t b" using Cons.prems(1) [of e] e by simp_all
  have "field_alignment k dvd p" using Cons.prems(2) field_alignment_dvd_8 [of k] by (auto intro: dvd_trans)
  from P(1) this h(1) obtain a' where a': "keyT buf p = Inr (a', p + length ?x)" "received a a'" "type_of a' = k"
    by (rule parsesE)
  have "field_alignment t dvd ?q" by (rule dvd_add_padn) simp
  from P(2) this h(3) obtain b' where b': "mappedT buf ?q = Inr (b', ?r)" "received b b'" "type_of b' = t"
    by (rule parsesE)
  have sk: "SkipPadding (p + length ?x) (field_alignment t) = ?q" by (rule SkipPadding_holds [OF h(2)])
  have pos: "0 < length ?x" using P(1) by (simp add: parses_def)
  have r1: "u32 (bytesRead + usub32 ?r p) = bytesRead + (?r - p)"
    using bd Cons.prems(4, 5) w by simp
  have em: "map_emplace a' b' acc = acc @ [(a', b')]"
  proof (rule map_emplace_last)
    fix x assume "x \<in> fst ` set acc"
    then obtain y where "received y x" "IsDBusBasicType (type_of y)" "key_less y a"
      using Cons.prems(9) [of x e] e by auto
    then show "key_less x a'" using received_key a'(2) Cons.prems(7) [of e] e by auto
  qed
  have tot: "bytesRead + (length ?x + (?l + length ?y) + length (entries GA t m ?r)) = mapLength"
    using Cons.prems(4) unfolding w by simp
  have lt: "bytesRead < mapLength" using tot pos by linarith
  have acc: "\<exists>y. received y x \<and> IsDBusBasicType (type_of y) \<and> key_less y (fst e')"
    if "x \<in> fst ` set (acc @ [(a', b')])" "e' \<in> set m" for x e'
  proof (cases "x = a'")
    case True
    then show ?thesis using a'(2) Cons.prems(7) [of e] Cons.prems(8) that(2) e by auto
  next
    case False
    then show ?thesis using Cons.prems(9) [of x e'] that by auto
  qed
  show ?case
  proof (cases "m = []")
    case True
    then have eq: "bytesRead + (?r - p) = mapLength" using Cons.prems(4) w by simp
    have "\<exists>m'. UnmarshalMapEntries keyT mappedT n' k t mapLength buf ?r mapLength (acc @ [(a', b')]) =
        Inr (VMap k t ((acc @ [(a', b')]) @ m'), ?r + length (entries GA t m ?r)) \<and>
      list_all2 (\<lambda>a b. (received (fst a) (fst b) \<and> type_of (fst b) = k) \<and>
      (received (snd a) (snd b) \<and> type_of (snd b) = t)) m m'"
      by (rule Cons.IH [OF _ _ h(4)]) (use Cons.prems True n in auto)
    then show ?thesis
      using n lt a' b' sk r1 em w e eq True by (auto simp: Let_def)
  next
    case False
    let ?k = "padn 8 ?r"
    have w': "entries GA t m ?r = zeros ?k @ entries GA t m (?r + ?k)"
      by (rule impl.entries_pad [OF False])
    have h': "holds buf (?r + ?k) (entries GA t m (?r + ?k))"
      using h(4) unfolding w' by (simp add: holds_append)
    have ap: "fst (AddPaddingToSize ?r (GA (TMap k t))) = ?r + ?k"
      using bd w' by (simp add: AddPaddingToSize_padn)
    have "entries GA t m (?r + ?k) \<noteq> []"
    proof -
      obtain e2 m2 where m: "m = e2 # m2" using False by (cases m) auto
      then have "body GA (fst e2) q \<noteq> []" for q using Cons.prems(1) [of e2] by (simp add: parses_def)
      then show ?thesis unfolding m by (cases e2) (simp add: Let_def)
    qed
    then have "0 < length (entries GA t m (?r + ?k))" by simp
    moreover have "length (entries GA t m ?r) = ?k + length (entries GA t m (?r + ?k))"
      by (subst w') simp
    ultimately have r2: "bytesRead + (?r - p) + ?k < mapLength" using tot by linarith
    have r3: "u32 (bytesRead + (?r - p) + usub32 (?r + ?k) ?r) = bytesRead + (?r - p) + ?k"
      using bd w' r2 Cons.prems(5) by simp
    have "\<exists>m'. UnmarshalMapEntries keyT mappedT n' k t mapLength buf (?r + ?k) (bytesRead + (?r - p) + ?k)
          (acc @ [(a', b')]) =
        Inr (VMap k t ((acc @ [(a', b')]) @ m'), ?r + ?k + length (entries GA t m (?r + ?k))) \<and>
      list_all2 (\<lambda>a b. (received (fst a) (fst b) \<and> type_of (fst b) = k) \<and>
      (received (snd a) (snd b) \<and> type_of (snd b) = t)) m m'"
    proof (rule Cons.IH [OF _ _ h'])
      show "8 dvd ?r + ?k" by (rule dvd_add_padn) simp
      show "bytesRead + (?r - p) + ?k + length (entries GA t m (?r + ?k)) = mapLength"
        using Cons.prems(4) unfolding w w' by simp
      show "\<And>x e'. x \<in> fst ` set (acc @ [(a', b')]) \<Longrightarrow> e' \<in> set m \<Longrightarrow>
          \<exists>y. received y x \<and> IsDBusBasicType (type_of y) \<and> key_less y (fst e')"
        by (rule acc)
    qed (use Cons.prems n in auto)
    then show ?thesis
      using n lt a' b' sk r1 r2 r3 em w w' e ap by (auto simp: Let_def)
  qed
qed

section \<open>Reading every type\<close>

lemma variant_content:
  assumes "wt v" and "type_of v = TVariant" and "walkable v"
  obtains c where "content v = Some c" and "wt c" and "walkable c" and "sig_fits (type_of c)"
proof -
  have "\<exists>c. content v = Some c \<and> wt c \<and> walkable c \<and> sig_fits (type_of c)"
  proof (cases v)
    case (VInlineStr sg al b st)
    then have "sig_fits (TString st)" "length (c_string b) < 256"
      using assms(1) length_c_string [of b] by (cases st; simp add: sig_fits_def SMALL_BUFFER_SIZE_def)+
    then show ?thesis using VInlineStr assms by simp
  qed (use assms in auto)
  then show ?thesis using that by blast
qed

lemma walkable_no_map: "walkable c \<Longrightarrow> \<not> IsDBusMap (type_of c)"
  by (cases c) simp_all

text \<open>The walk visits no more characters than the signature and the content have bytes, so fuel above
  the buffer's length is enough.\<close>

lemma sum_steps:
  "(\<And>v q. v \<in> set vs \<Longrightarrow> walk_steps v \<le> length (GetTypeSignature (type_of v)) + length (body GA v q)) \<Longrightarrow>
   sum_list (map walk_steps vs) \<le>
   length (concat (map (\<lambda>v. GetTypeSignature (type_of v)) vs)) + length (wires GA F vs p)"
proof (induction vs arbitrary: p)
  case (Cons v vs)
  let ?k = "padn (F (type_of v)) p"
  have "sum_list (map walk_steps vs) \<le> length (concat (map (\<lambda>v. GetTypeSignature (type_of v)) vs)) +
      length (wires GA F vs (p + ?k + length (body GA v (p + ?k))))"
    by (rule Cons.IH) (use Cons.prems in simp)
  then show ?case using Cons.prems [of v "p + ?k"] by (simp add: Let_def)
qed simp

lemma walk_steps_le:
  "wt v \<Longrightarrow> walkable v \<Longrightarrow> walk_steps v \<le> length (GetTypeSignature (type_of v)) + length (body GA v p)"
proof -
  have "\<forall>p. wt v \<longrightarrow> walkable v \<longrightarrow> walk_steps v \<le> length (GetTypeSignature (type_of v)) + length (body GA v p)"
    "\<forall>v \<in> set vs. \<forall>p. wt v \<longrightarrow> walkable v \<longrightarrow>
       walk_steps v \<le> length (GetTypeSignature (type_of v)) + length (body GA v p)" "True"
    for vs and m :: "(dval \<times> dval) list"
  proof (induction v and vs and m rule: value_induct)
    case (VFixed x)
    have "GetTypeSignature (TFixed (fix_type x)) \<noteq> []" by simp
    then show ?case by (cases "GetTypeSignature (TFixed (fix_type x))") simp_all
  next
    case (VString st s)
    have "GetTypeSignature (TString st) \<noteq> []" by simp
    then show ?case by (cases "GetTypeSignature (TString st)") simp_all
  next
    case (VTuple vs)
    show ?case
    proof (intro allI impI)
      fix p assume "wt (VTuple vs)" "walkable (VTuple vs)"
      then have "sum_list (map walk_steps vs) \<le>
          length (concat (map (\<lambda>v. GetTypeSignature (type_of v)) vs)) + length (wires GA field_alignment vs p)"
        by (intro sum_steps) (use VTuple in \<open>auto simp: wt_elems_iff\<close>)
      then show "walk_steps (VTuple vs) \<le> length (GetTypeSignature (type_of (VTuple vs))) + length (body GA (VTuple vs) p)"
        by (simp add: comp_def)
    qed
  next
    case (VHeap sg al v)
    show ?case
    proof (intro allI impI)
      fix p assume a: "wt (VHeap sg al v)" "walkable (VHeap sg al v)"
      let ?h = "string_body SignatureString sg"
      let ?q = "p + length ?h + padn (GA (type_of v)) (p + length ?h)"
      have "walk_steps v \<le> length sg + length (body GA v ?q)" using VHeap a by auto
      then show "walk_steps (VHeap sg al v) \<le>
          length (GetTypeSignature (type_of (VHeap sg al v))) + length (body GA (VHeap sg al v) p)"
        by (simp add: Let_def length_string_body)
    qed
  next
    case (VInlineObj sg al v)
    show ?case
    proof (intro allI impI)
      fix p assume a: "wt (VInlineObj sg al v)" "walkable (VInlineObj sg al v)"
      let ?h = "string_body SignatureString sg"
      let ?q = "p + length ?h + padn (GA (type_of v)) (p + length ?h)"
      have "walk_steps v \<le> length sg + length (body GA v ?q)" using VInlineObj a by auto
      then show "walk_steps (VInlineObj sg al v) \<le>
          length (GetTypeSignature (type_of (VInlineObj sg al v))) + length (body GA (VInlineObj sg al v) p)"
        by (simp add: Let_def length_string_body)
    qed
  next
    case (VInlineStr sg al b st)
    then show ?case by (simp add: Let_def length_string_body)
  qed simp_all
  then show "wt v \<Longrightarrow> walkable v \<Longrightarrow> walk_steps v \<le> length (GetTypeSignature (type_of v)) + length (body GA v p)"
    by blast
qed

lemma unmarshal_variant:
  assumes v: "wt v" "type_of v = TVariant" "walkable v" and h: "holds buf p (body GA v p)"
    and n: "length buf < n"
  shows "\<exists>u. UnmarshalDBusVariant junk n fast buf p = Inr (u, p + length (body GA v p)) \<and> received v u \<and>
    type_of u = (if fast then TFastVariant else TVariant)"
proof -
  obtain c where c: "content v = Some c" "wt c" "walkable c" "sig_fits (type_of c)"
    using variant_content [OF v] .
  let ?s = "GetTypeSignature (type_of c)"
  let ?h = "string_body SignatureString ?s"
  let ?k = "padn (GA (type_of c)) (p + length ?h)"
  let ?q = "p + length ?h + ?k"
  let ?w = "body GA c ?q"
  have b: "body GA v p = ?h @ zeros ?k @ ?w"
    using body_variant [OF c(1) v(1), of GA p] by (simp add: Let_def)
  have h1: "holds buf p ?h" "holds buf (p + length ?h) (zeros ?k @ ?w)" "holds buf ?q ?w"
    using h unfolding b by (simp_all add: holds_append add.assoc)
  have bd: "?q + length ?w \<le> length buf" "length buf < 67108864" using holdsD(1, 2) [OF h1(3)] .
  have s: "UnmarshalDBusBasicStringlikeType SignatureString buf p = Inr (VString SignatureString ?s, p + length ?h)"
    by (rule unmarshal_string [OF h1(1)]) (use c(4) in \<open>simp_all add: valid_string_def sig_fits_def\<close>)
  have al: "GetAlignmentOfSignature (str_head ?s) = Inr (GA (type_of c))"
    using signature_alignment [of "type_of c"] walkable_no_map [OF c(3)] by simp
  have sk: "SkipPadding (p + length ?h) (GA (type_of c)) = ?q" by (rule SkipPadding_holds [OF h1(2)])
  have "walk_steps c < n"
    using walk_steps_le [OF c(2, 3), of ?q] bd n by (simp add: length_string_body)
  then obtain m where m: "n = walk_steps c + Suc m" by (metis add_Suc_right less_imp_Suc_add)
  have wk: "WalkVariantSignature n ?s buf (p + length ?h) = Inr (?q + length ?w)"
    using walksD [OF walkable_walks [OF c(2, 3)] h1(2), of "Suc m" "[]"] unfolding m by simp
  have sz: "usub32 (?q + length ?w) ?q = length ?w" using bd by simp
  have t: "take (length ?w) (drop ?q buf) = ?w" by (rule holdsD(3) [OF h1(3)])
  have dq: "GA (type_of c) dvd ?q" by (rule dvd_add_padn) simp
  have r: "received v (VDeser ?s (?w @ (if length ?w > SMALL_BUFFER_SIZE then [] else map (junk ?q) [length ?w..<SMALL_BUFFER_SIZE])))"
    "received v (VFastDeser ?s ?w)"
    by (rule received.variant [OF c(1) dq refl refl], simp) (rule received.fast [OF c(1) dq refl refl])
  have l: "p + length (body GA v p) = ?q + length ?w" unfolding b by simp
  show ?thesis
    unfolding UnmarshalDBusVariant_def s l Let_def using al wk
    by (simp add: Let_def sk sz t bd) (use bd r in auto)
qed

theorem parses_all:
  assumes "length buf < n"
  shows "accepts T v \<Longrightarrow> wt v \<Longrightarrow> parses buf (UnmarshalDBusTypeImpl junk n T) T v"
proof (induction T arbitrary: v)
  case (TFixed f)
  then obtain x where v: "v = VFixed x" "fix_type x = f" by (cases v) auto
  then show ?case
    using accepts_wire_type [OF TFixed] body_nonempty [OF TFixed] unmarshal_fixed [of buf _ x]
    by (auto simp: parses_def intro: received.fixed)
next
  case (TString st)
  then obtain st' s where v: "v = VString st' s" and st: "wire_type (TString st) = wire_type (TString st')"
    and s: "valid_string st s" "st = SignatureString \<longrightarrow> length s < 256"
    by (cases v) auto
  have sg: "st = SignatureString \<longleftrightarrow> st' = SignatureString" using st by (cases st; cases st') simp_all
  show ?case
    using accepts_wire_type [OF TString] body_nonempty [OF TString] unmarshal_string [of buf _ st' s st] sg s v
    by (auto simp: parses_def intro: received.string)
next
  case TVariant
  then show ?case
    using accepts_wire_type [OF TVariant] body_nonempty [OF TVariant] unmarshal_variant [OF _ _ _ _ assms, of v _ junk False]
    by (auto simp: parses_def)
next
  case TFastVariant
  then show ?case
    using accepts_wire_type [OF TFastVariant] body_nonempty [OF TFastVariant] unmarshal_variant [OF _ _ _ _ assms, of v _ junk True]
    by (auto simp: parses_def)
next
  case (TTuple ts)
  from TTuple.prems obtain vs where v: "v = VTuple vs" and ne: "vs \<noteq> []" and len: "length ts = length vs"
    and z: "\<And>x. x \<in> set (zip ts vs) \<Longrightarrow> accepts (fst x) (snd x)" and w: "wt_elems vs"
    by (cases v) auto
  have P: "parses buf (UnmarshalDBusTypeImpl junk n (ts ! i)) (ts ! i) (vs ! i)" if "i < length vs" for i
  proof (rule TTuple.IH)
    show "ts ! i \<in> set ts" using that len by simp
    show "accepts (ts ! i) (vs ! i)" using z [of "(ts ! i, vs ! i)"] that len by (force simp: set_zip)
    show "wt (vs ! i)" using w that by (simp add: wt_elems_iff)
  qed
  have f: "field_alignment (ts ! i) = field_alignment (type_of (vs ! i))" if "i < length vs" for i
    using P [OF that] by (intro field_alignment_wire_type) (simp add: parses_def)
  have "\<exists>u. UnmarshalDBusTypeImpl junk n (TTuple ts) buf p = Inr (u, p + length (body GA v p)) \<and>
      received v u \<and> type_of u = TTuple ts"
    if al: "field_alignment (TTuple ts) dvd p" and h: "holds buf p (body GA v p)" for p
  proof -
    have "8 dvd p" using al by (simp add: field_alignment_def)
    then have d: "field_alignment t dvd p" for t by (rule dvd_trans [OF field_alignment_dvd_8])
    have "\<exists>us. UnmarshalFields (map (\<lambda>t. (field_alignment t, UnmarshalDBusTypeImpl junk n t)) ts) buf p =
        Inr (us, p + length (wires GA field_alignment vs p)) \<and> list_all2 received vs us \<and> map type_of us = ts"
      by (rule unmarshal_fields) (use len P f h v d in \<open>auto simp: nth_map\<close>)
    then show ?thesis using v by (auto intro: received.tuple)
  qed
  then show ?case
    using accepts_wire_type [OF TTuple.prems] body_nonempty [OF TTuple.prems] by (auto simp: parses_def)
next
  case (TMap k t)
  from TMap.prems obtain k' t' m where v: "v = VMap k' t' m" and k: "wire_type k = wire_type k'" "wire_type t = wire_type t'"
    and a: "\<And>e. e \<in> set m \<Longrightarrow> accepts k (fst e) \<and> accepts t (snd e)"
    and w: "IsDBusBasicType k'" "sorted_wrt key_less (map fst m)" "wt_entries k' t' m"
    by (cases v) auto
  have es: "wt (fst e) \<and> wt (snd e) \<and> type_of (fst e) = k'" if "e \<in> set m" for e
    using w(3) that by (cases e) (auto simp: wt_entries_iff)
  have P: "parses buf (UnmarshalDBusTypeImpl junk n k) k (fst e) \<and> parses buf (UnmarshalDBusTypeImpl junk n t) t (snd e)"
    if "e \<in> set m" for e
    using TMap.IH a [OF that] es [OF that] by blast
  have "\<exists>u. UnmarshalDBusTypeImpl junk n (TMap k t) buf p = Inr (u, p + length (body GA v p)) \<and>
      received v u \<and> type_of u = TMap k t"
    if h: "holds buf p (body GA v p)" for p
  proof -
    let ?k = "padn 8 (p + 4)"
    let ?q = "p + 4 + ?k"
    let ?es = "entries GA t' m ?q"
    have b: "body GA v p = le_bytes 4 (length ?es) @ zeros ?k @ ?es" using v by (simp only: body.simps Let_def)
    have h1: "holds buf p (le_bytes 4 (length ?es))" "holds buf (p + 4) (zeros ?k @ ?es)" "holds buf ?q ?es"
      using h unfolding b by (simp_all add: holds_append add.assoc)
    have bd: "?q + length ?es \<le> length buf" "length buf < 67108864" using holdsD(1, 2) [OF h1(3)] .
    have l: "unmarshal_length U32 buf p = Inr (length ?es, p + 4)"
      by (rule unmarshal_length_U32 [OF h1(1)]) (use bd in simp)
    have sk: "SkipPadding (p + 4) 8 = ?q" by (rule SkipPadding_holds [OF h1(2)])
    have d8: "8 dvd ?q" by (rule dvd_add_padn) simp
    have sk2: "SkipPadding ?q 8 = ?q" using d8 by (simp add: SkipPadding_def Let_def dvd_eq_mod_eq_0)
    have te: "entries GA t m p = entries GA t' m p" for p
      using field_alignment_wire_type [OF k(2)] by (induction m arbitrary: p) (auto simp: Let_def)
    show ?thesis
    proof (cases "length ?es = 0")
      case True
      have "m = []"
      proof (rule ccontr)
        assume "m \<noteq> []"
        then obtain e m2 where m: "m = e # m2" by (cases m) auto
        then have "body GA (fst e) q \<noteq> []" for q using P [of e] by (simp add: parses_def)
        then show False using True unfolding m by (cases e) (simp add: Let_def)
      qed
      then show ?thesis using l sk sk2 v b True by (auto intro!: received.map simp: Let_def)
    next
      case False
      have "\<exists>m'. UnmarshalMapEntries (UnmarshalDBusTypeImpl junk n k) (UnmarshalDBusTypeImpl junk n t) n k t
            (length ?es) buf ?q 0 [] =
          Inr (VMap k t ([] @ m'), ?q + length (entries GA t m ?q)) \<and>
        list_all2 (\<lambda>a b. (received (fst a) (fst b) \<and> type_of (fst b) = k) \<and>
      (received (snd a) (snd b) \<and> type_of (snd b) = t)) m m'"
      proof (rule unmarshal_map_entries)
        show "length m < n"
          using length_entries [of m t' ?q] P bd assms by (force simp: parses_def)
      qed (use P es w h1(3) te bd d8 in auto)
      then show ?thesis using l sk v b False te by (auto intro!: received.map simp: Let_def)
    qed
  qed
  then show ?case
    using accepts_wire_type [OF TMap.prems] body_nonempty [OF TMap.prems] by (auto simp: parses_def)
next
  case (TArr N t)
  from TArr.prems obtain N' t' vs where v: "v = VArr N' t' vs" and t: "wire_type t = wire_type t'"
    and nb: "t \<noteq> TFixed Bool" and N: "N = None \<or> N = Some (length vs)"
    and a: "\<And>x. x \<in> set vs \<Longrightarrow> accepts t x"
    and w: "\<And>x. x \<in> set vs \<Longrightarrow> wt x \<and> type_of x = t'"
    by (cases v) (auto simp: wt_elems_iff split: option.splits)
  have P: "parses buf (UnmarshalDBusTypeImpl junk n t) t x" if "x \<in> set vs" for x
    using TArr.IH a [OF that] w [OF that] by blast
  have g: "GA t' = GA t" using GA_wire_eq [OF t] by simp
  have "\<exists>u. UnmarshalDBusTypeImpl junk n (TArr N t) buf p = Inr (u, p + length (body GA v p)) \<and>
      received v u \<and> type_of u = TArr N t"
    if h: "holds buf p (body GA v p)" for p
  proof -
    let ?k = "padn (GA t) (p + 4)"
    let ?q = "p + 4 + ?k"
    let ?es = "wires GA (\<lambda>_. GA t) vs ?q"
    have b: "body GA v p = le_bytes 4 (length ?es) @ zeros ?k @ ?es"
      using v g by (simp only: body.simps Let_def)
    have h1: "holds buf p (le_bytes 4 (length ?es))" "holds buf (p + 4) (zeros ?k @ ?es)" "holds buf ?q ?es"
      using h unfolding b by (simp_all add: holds_append add.assoc)
    have bd: "?q + length ?es \<le> length buf" "length buf < 67108864" using holdsD(1, 2) [OF h1(3)] .
    have l: "unmarshal_length U32 buf p = Inr (length ?es, p + 4)"
      by (rule unmarshal_length_U32 [OF h1(1)]) (use bd in simp)
    have sk: "SkipPadding (p + 4) (GA t) = ?q" by (rule SkipPadding_holds [OF h1(2)])
    have d: "GA t dvd ?q" by (rule dvd_add_padn) simp
    show ?thesis
    proof (cases "\<exists>f. t = TFixed f")
      case True
      then obtain f where f: "t = TFixed f" by blast
      with t have t': "t' = TFixed f" by (cases t') simp_all
      have ty: "\<And>x. x \<in> set vs \<Longrightarrow> type_of x = TFixed f" using w t' by simp
      have es: "?es = concat (map raw_bytes vs)"
        using fixed_wires [OF ty, of vs ?q GA] d f by simp
      have "UnmarshalFixedElements N f (length ?es) buf ?q = Inr (VArr N (TFixed f) vs, ?q + length ?es)"
        unfolding es by (rule unmarshal_fixed_elements [OF ty]) (use nb f N h1(3) es in auto)
      moreover have "list_all2 (\<lambda>v u. received v u \<and> type_of u = t) vs vs"
      proof (rule list_all2_all_nthI)
        fix i assume "i < length vs"
        then have "type_of (vs ! i) = TFixed f" using ty by simp
        then show "received (vs ! i) (vs ! i) \<and> type_of (vs ! i) = t"
          using f by (cases "vs ! i") (auto intro: received.fixed)
      qed simp
      ultimately show ?thesis
        using l sk v b bd f by (auto simp: Let_def intro!: received.array)
    next
      case False
      have "\<exists>us. UnmarshalArrayElements (UnmarshalDBusTypeImpl junk n t) n N t (length ?es) buf ?q 0 [] =
          Inr (VArr N t ([] @ us), ?q + length ?es) \<and> list_all2 (\<lambda>v u. received v u \<and> type_of u = t) vs us"
      proof (rule unmarshal_array_elements)
        show "length vs < n"
          using length_wires [of vs "\<lambda>_. GA t" ?q] P bd assms by (force simp: parses_def)
      qed (use P w h1(3) bd d N in auto)
      then show ?thesis
        using l sk v b bd False by (cases t) (auto simp: Let_def intro!: received.array)
    qed
  qed
  then show ?case
    using accepts_wire_type [OF TArr.prems] body_nonempty [OF TArr.prems] by (auto simp: parses_def)
qed

section \<open>Round trips\<close>

lemma arrays_fit_small: "length (body GA v p) < 67108864 \<Longrightarrow> arrays_fit v p"
proof -
  have "\<forall>p. length (body GA v p) < 67108864 \<longrightarrow> arrays_fit v p"
    "\<forall>F p. length (wires GA F vs p) < 67108864 \<longrightarrow> wires_fit F vs p"
    "\<forall>t p. length (entries GA t m p) < 67108864 \<longrightarrow> entries_fit t m p" for vs m
  proof (induction v and vs and m rule: value_induct)
    case (VMap k t m)
    show ?case
    proof (intro allI impI)
      fix p assume a: "length (body GA (VMap k t m) p) < 67108864"
      let ?q = "p + 4 + padn 8 (p + 4)"
      have "8 dvd ?q" by (rule dvd_add_padn) simp
      then have "entries GA t m ?q = entries GA t m 0"
        by (intro impl.entries_mod_8) (simp add: dvd_eq_mod_eq_0)
      then have "length (entries GA t m 0) < 67108864" using a by (simp add: Let_def)
      then show "arrays_fit (VMap k t m) p" using VMap by simp
    qed
  qed (simp_all add: Let_def add.assoc [symmetric])
  then show "length (body GA v p) < 67108864 \<Longrightarrow> arrays_fit v p" by blast
qed

fun variant_free :: "cty \<Rightarrow> bool" where
  "variant_free (TArr N t) = variant_free t"
| "variant_free (TTuple ts) = (\<forall>t \<in> set ts. variant_free t)"
| "variant_free (TMap k t) = (variant_free k \<and> variant_free t)"
| "variant_free TVariant = False"
| "variant_free TFastVariant = False"
| "variant_free _ = True"

lemma received_same:
  "received v u \<Longrightarrow> wt v \<Longrightarrow> type_of u = type_of v \<Longrightarrow> variant_free (type_of v) \<Longrightarrow> u = v"
proof (induction rule: received.induct)
  case (array t' vs us n n')
  have len: "length us = length vs" using array.IH by (simp add: list_all2_lengthD)
  have "us ! i = vs ! i" if "i < length vs" for i
  proof -
    have "vs ! i \<in> set vs" using that by simp
    moreover have "wt_elems vs" "\<forall>v \<in> set vs. type_of v = t'" "variant_free t'"
      using array.prems by simp_all
    ultimately have "wt (vs ! i)" "type_of (vs ! i) = t'" "variant_free t'"
      unfolding wt_elems_iff by blast+
    moreover have "type_of (us ! i) = t'" using list_all2_nthD [OF array.IH that] by blast
    ultimately show ?thesis using list_all2_nthD [OF array.IH that] by metis
  qed
  then have "us = vs" using len by (auto intro: nth_equalityI)
  then show ?case using array.prems(2) by simp
next
  case (tuple vs us)
  have len: "length us = length vs" using tuple.IH by (simp add: list_all2_lengthD)
  have types: "map type_of us = map type_of vs" using tuple.prems(2) by simp
  have "us ! i = vs ! i" if "i < length vs" for i
  proof -
    have "type_of (us ! i) = type_of (vs ! i)"
      using arg_cong [OF types, of "\<lambda>l. l ! i"] len that by simp
    moreover have "vs ! i \<in> set vs" using that by simp
    then have "wt (vs ! i)" "variant_free (type_of (vs ! i))"
      using tuple.prems(1, 3) by (simp_all add: wt_elems_iff)
    ultimately show ?thesis using list_all2_nthD [OF tuple.IH that] by metis
  qed
  then have "us = vs" using len by (auto intro: nth_equalityI)
  then show ?case by simp
next
  case (map k' t' m m' k t)
  have len: "length m' = length m" using map.IH by (simp add: list_all2_lengthD)
  have eq: "k' = k" "t' = t" using map.prems(2) by simp_all
  have w: "wt_entries k t m" using map.prems(1) by simp
  have vf: "variant_free k" "variant_free t" using map.prems(3) by simp_all
  have "m' ! i = m ! i" if "i < length m" for i
  proof -
    have "case m ! i of (a, b) \<Rightarrow> type_of a = k \<and> wt a \<and> type_of b = t \<and> wt b"
      by (rule bspec [OF w [unfolded wt_entries_iff] nth_mem [OF that]])
    then have "type_of (fst (m ! i)) = k" "wt (fst (m ! i))" "type_of (snd (m ! i)) = t" "wt (snd (m ! i))"
      by (simp_all add: case_prod_beta)
    then have "fst (m' ! i) = fst (m ! i)" "snd (m' ! i) = snd (m ! i)"
      using list_all2_nthD [OF map.IH that] vf unfolding eq by metis+
    then show ?thesis by (simp add: prod_eq_iff)
  qed
  then have "m' = m" using len by (auto intro: nth_equalityI)
  then show ?case using eq by simp
next
  case (variant v c p sg w j)
  then show ?case by (cases v) simp_all
next
  case (fast v c p sg w)
  then show ?case by (cases v) simp_all
qed simp_all

lemma check_own_signature: "check_signature (GetTypeSignature T) (GetTypeSignature T) = Inr ()"
  using signature_type_codes signature_balanced
  by (simp add: check_signature_def AreDBusTypeCodeBracketsEven_def balanced_def)

lemma marshal_body:
  assumes "wt v" and "sendable v" and "length (body GA v 0) < 67108864"
  shows "MarshalDBusType v = Inr (body GA v 0)"
  using marshalsD [OF wt_marshals [OF assms(1, 2)], of "[]"] arrays_fit_small [of v 0] assms(3)
  by (simp add: MarshalDBusType_def)

lemma body_read:
  assumes "wt v" and "accepts T v" and "length (body GA v 0) < 67108864" and "length (body GA v 0) < n"
  obtains u where "UnmarshalDBusType junk n T (body GA v 0) (GetTypeSignature T) = Inr u" "received v u" "type_of u = T"
proof -
  have "holds (body GA v 0) 0 (body GA v 0)" using assms(3) by (simp add: holds_def)
  then obtain u where "UnmarshalDBusTypeImpl junk n T (body GA v 0) 0 = Inr (u, length (body GA v 0))" "received v u" "type_of u = T"
    using parses_all [OF assms(4, 2, 1), of junk] by (elim parsesE [where p = 0]) auto
  then show thesis using check_own_signature that by (simp add: UnmarshalDBusType_def UnmarshalDBusType_at_def)
qed

lemma body_read_back:
  assumes "wt v" and "accepts (type_of v) v" and "variant_free (type_of v)"
    and "length (body GA v 0) < 67108864" and "length (body GA v 0) < n"
  shows "UnmarshalDBusType junk n (type_of v) (body GA v 0) (GetTypeSignature (type_of v)) = Inr v"
proof -
  obtain u where u: "UnmarshalDBusType junk n (type_of v) (body GA v 0) (GetTypeSignature (type_of v)) = Inr u"
      "received v u" "type_of u = type_of v"
    by (rule body_read [OF assms(1,2,4,5)])
  then show ?thesis using received_same [OF u(2) assms(1) u(3) assms(3)] by simp
qed

text \<open>C5: Round trip, for every type a receiver may use. A well-typed, sendable value that the receiver's
  type \<open>T\<close> accepts is marshalled, and the bytes are unmarshalled as \<open>T\<close>, completely and without an
  error, to the value that corresponds to it; fuel above the message's length is enough.\<close>

theorem marshal_unmarshal:
  assumes "wt v" and "sendable v" and "accepts T v" and "length (body GA v 0) < 67108864"
    and "length (body GA v 0) < n"
  shows "\<exists>out u. MarshalDBusType v = Inr out \<and>
    UnmarshalDBusType junk n T out (GetTypeSignature T) = Inr u \<and> received v u \<and> type_of u = T"
  using marshal_body [OF assms(1,2,4)] body_read [OF assms(1,3-5), of junk] by metis

theorem marshal_unmarshal_witness:
  "\<exists>out u. MarshalDBusType example_value = Inr out \<and>
     UnmarshalDBusType no_junk 100 (TTuple [TFixed U8, TArr (Some 1) (TString StdString), TMap (TFixed U32) TVariant])
       out (GetTypeSignature (TTuple [TFixed U8, TArr (Some 1) (TString StdString), TMap (TFixed U32) TVariant])) = Inr u \<and>
     received example_value u \<and>
     type_of u = TTuple [TFixed U8, TArr (Some 1) (TString StdString), TMap (TFixed U32) TVariant]"
  by (rule marshal_unmarshal) code_simp+

text \<open>C16: Without variants the round trip is the identity: reading the bytes of a value with its own type
  gives the value back.\<close>

theorem roundtrip_identity:
  assumes "wt v" and "sendable v" and "accepts (type_of v) v" and "variant_free (type_of v)"
    and "length (body GA v 0) < 67108864" and "length (body GA v 0) < n"
  shows "bindE (MarshalDBusType v) (\<lambda>out.
      UnmarshalDBusType junk n (type_of v) out (GetTypeSignature (type_of v))) = Inr v"
  using marshal_body [OF assms(1,2,5)] body_read_back [OF assms(1,3-6)] by simp

theorem roundtrip_identity_witness:
  "let v = VTuple [VFixed (FU8 7), VMap (TString StdString) (TFixed Double) [(VString StdString ''k'', VFixed (FDouble 5))]] in
   bindE (MarshalDBusType v) (\<lambda>out.
      UnmarshalDBusType no_junk 50 (type_of v) out (GetTypeSignature (type_of v))) = Inr v"
  unfolding Let_def by (rule roundtrip_identity) code_simp+

text \<open>Reading is local. A value laid out at an aligned position of a message is read from there, whatever
  bytes come before and after it, and the pointer ends just behind it.\<close>

theorem unmarshal_in_context:
  assumes "wt v" and "accepts T v" and "field_alignment T dvd length pre"
    and "length (pre @ body GA v (length pre) @ post) < 67108864"
    and "length (pre @ body GA v (length pre) @ post) < n"
  shows "\<exists>u. UnmarshalDBusTypeImpl junk n T (pre @ body GA v (length pre) @ post) (length pre) =
    Inr (u, length pre + length (body GA v (length pre))) \<and> received v u \<and> type_of u = T"
  using parses_all [OF assms(5, 2, 1), of junk] assms(3) holds_middle [OF refl assms(4)]
  by (elim parsesE) auto

theorem unmarshal_in_context_witness:
  "\<exists>u. UnmarshalDBusTypeImpl no_junk 50 (TTuple [TFixed U8, TString StdString])
       (replicate 8 9 @ body GA (VTuple [VFixed (FU8 1), VString StdString ''a'']) (length (replicate 8 (9 :: 8 word))) @ [3, 3])
       (length (replicate 8 (9 :: 8 word))) =
     Inr (u, length (replicate 8 (9 :: 8 word)) +
       length (body GA (VTuple [VFixed (FU8 1), VString StdString ''a'']) (length (replicate 8 (9 :: 8 word))))) \<and>
     received (VTuple [VFixed (FU8 1), VString StdString ''a'']) u \<and> type_of u = TTuple [TFixed U8, TString StdString]"
  by (rule unmarshal_in_context) code_simp+

section \<open>The content of a received variant\<close>

lemma unmarshal_content:
  assumes "wt c" and "accepts T c" and "pads GA (GA (type_of c)) c" and "GA (type_of c) dvd p"
    and "data = body GA c p @ j" and "length data < 67108864" and "length data < n"
  shows "\<exists>u. UnmarshalDBusTypeImpl junk n T data 0 = Inr (u, length (body GA c p)) \<and> received c u \<and> type_of u = T"
proof -
  have b: "body GA c p = body GA c 0"
    by (rule impl.body_same [OF assms(3)]) (use assms(4) in \<open>simp add: dvd_eq_mod_eq_0\<close>)
  have "holds data 0 (body GA c 0)" using assms(5, 6) b by (auto simp: holds_def)
  then show ?thesis
    using parses_all [OF assms(7, 2, 1), of junk] b by (elim parsesE [where p = 0]) auto
qed

text \<open>The content of a received \<^verbatim>\<open>Variant\<close> can be read, when no padding inside it exceeds its own
  alignment: whatever position it was sent at and whatever the uninitialised bytes of the buffer are,
  \<^verbatim>\<open>UnmarshalData\<close> with a type that accepts the content gives the content.\<close>

theorem variant_data_roundtrip:
  assumes "received v (VDeser sg data)" and "content v = Some c" and "wt c" and "accepts T c"
    and "pads GA (GA (type_of c)) c" and "length data < 67108864" and "length data < n"
  shows "\<exists>u. Variant_UnmarshalData junk n T (VDeser sg data) = Inr u \<and> received c u \<and> type_of u = T"
  using assms(1)
proof (cases rule: received.cases)
  case (variant c' p w j)
  then have c: "c' = c" using assms(2) by simp
  have "GetTypeSignature T = GetTypeSignature (type_of c)"
    using accepts_wire_type [OF assms(4, 3)] by (metis signature_wire_type)
  moreover obtain u where "UnmarshalDBusTypeImpl junk n T data 0 = Inr (u, length (body GA c p))"
      "received c u" "type_of u = T"
    using unmarshal_content [OF assms(3, 4, 5) _ _ assms(6, 7)] variant c by blast
  ultimately show ?thesis using variant c by simp
qed

theorem variant_data_roundtrip_witness:
  "\<exists>u. Variant_UnmarshalData no_junk 40 (TFixed U32)
       (VDeser ''u'' (body GA (VFixed (FU32 5)) 4 @ replicate 28 9)) = Inr u \<and>
     received (VFixed (FU32 5)) u \<and> type_of u = TFixed U32"
proof (rule variant_data_roundtrip)
  show "received (VInlineObj ''u'' 4 (VFixed (FU32 5))) (VDeser ''u'' (body GA (VFixed (FU32 5)) 4 @ replicate 28 9))"
    by (rule received.variant [where c = "VFixed (FU32 5)" and p = 4]) (simp_all add: SMALL_BUFFER_SIZE_def)
qed (simp_all add: SMALL_BUFFER_SIZE_def)

text \<open>Content whose inner alignment exceeds its own is misread. An array of 64-bit integers is aligned to
  4 but its elements to 8; sent in a variant, its elements move by four bytes when the copied content
  is read again from offset 0, and the reader gets bytes of the next element, or uninitialised ones.\<close>

theorem variant_misreads_int64_array:
  "let v = Variant_Create (VArr None (TFixed I64) [VFixed (FI64 0x0000000200000001)]);
       r = (\<lambda>b. bindE (MarshalDBusType v) (\<lambda>out.
              bindE (UnmarshalDBusType (\<lambda>_ _. b) 40 TVariant out ''v'')
                (Variant_UnmarshalData (\<lambda>_ _. b) 40 (TArr None (TFixed I64)))))
   in r 0 = Inr (VArr None (TFixed I64) [VFixed (FI64 0x0000000000000002)]) \<and>
      r 1 = Inr (VArr None (TFixed I64) [VFixed (FI64 0x0101010100000002)])"
  by code_simp

text \<open>A dictionary in a variant is measured with the padding of the element that follows it, which is not
  there: a byte sent behind such a variant is not found and the message is rejected.\<close>

theorem variant_dictionary_misread:
  "let v = VTuple [Variant_Create (VMap (TFixed U8) (TFixed U8) [(VFixed (FU8 1), VFixed (FU8 2))]), VFixed (FU8 7)]
   in bindE (MarshalDBusType v) (\<lambda>out.
        UnmarshalDBusType junk 40 (TTuple [TVariant, TFixed U8]) out ''(vy)'') = Inl UndefinedBehaviour"
  by code_simp

end
