(* ===== verification/Safety.thy ===== *)
theory Safety
  imports Roundtrip
begin

text \<open>
  The decoder of \<^verbatim>\<open>src/src/DBus.h\<close> on arbitrary input: when it returns, when it stays inside the received
  bytes, and the inputs on which it does neither.
\<close>

section \<open>Progress\<close>

text \<open>
  A parser makes progress if success means that it started inside the buffer, moved the pointer
  forward, and left it at most at the next multiple of eight behind the buffer (padding is skipped
  without a check).
\<close>

definition limit :: "8 word list \<Rightarrow> nat" where
  "limit buf = length buf + padn 8 (length buf)"

definition progress :: "8 word list \<Rightarrow> 'a parser \<Rightarrow> bool" where
  "progress buf elem \<longleftrightarrow>
     (\<forall>p v q. elem buf p = Inr (v, q) \<longrightarrow> p < length buf \<and> p < q \<and> q \<le> limit buf) \<and>
     (\<forall>p. elem buf p \<noteq> Inl OutOfFuel)"

lemma progressD:
  assumes "progress buf elem"
  shows "elem buf p = Inr (v, q) \<Longrightarrow> p < length buf \<and> p < q \<and> q \<le> limit buf"
    and "elem buf p \<noteq> Inl OutOfFuel"
  using assms by (auto simp: progress_def)

lemma limit_bounds: "length buf \<le> limit buf" "limit buf < length buf + 8"
  using padn_less [of 8 "length buf"] by (simp_all add: limit_def)

lemma SkipPadding_bounds:
  assumes "p \<le> limit buf" and "a dvd 8" and "0 < a" and "length buf < 2147483648"
  shows "p \<le> SkipPadding p a" and "SkipPadding p a \<le> limit buf"
proof -
  have "8 dvd limit buf" unfolding limit_def by (rule dvd_add_padn) simp
  then have d: "a dvd limit buf" using assms(2) by (rule dvd_trans [rotated])
  have "p + padn a p \<le> limit buf"
  proof (cases "p mod a = 0")
    case False
    obtain k where k: "limit buf = a * k" using d by blast
    have "p div a < k"
      using False assms(1, 3) k by (metis div_mult_mod_eq dvd_triv_left le_neq_implies_less less_mult_imp_div_less
          mod_eq_0_iff_dvd mult.commute)
    then have "(p div a + 1) * a \<le> k * a" by (intro mult_right_mono) simp_all
    moreover have "p + padn a p = (p div a + 1) * a"
    proof -
      have "padn a p = a - p mod a" using False by (simp add: padn_def)
      moreover have "(p div a + 1) * a = p div a * a + a" by simp
      ultimately show ?thesis
        using div_mult_mod_eq [of p a] mod_less_divisor [OF assms(3), of p] by linarith
    qed
    ultimately show ?thesis using k by (simp add: mult.commute)
  qed (use assms(1) in \<open>simp add: padn_def\<close>)
  moreover from this have "SkipPadding p a = p + padn a p"
    using limit_bounds [of buf] assms(4) by (intro SkipPadding_padn) simp
  ultimately show "p \<le> SkipPadding p a" "SkipPadding p a \<le> limit buf" by simp_all
qed

lemma fixed_progress:
  "length buf < 2147483648 \<Longrightarrow> UnmarshalDBusBasicFixedType f buf p = Inr (x, q) \<Longrightarrow>
   p + wire_size f \<le> length buf \<and> q = p + wire_size f"
  by (auto simp: UnmarshalDBusBasicFixedType_def Let_def split: if_splits)

lemma fixed_returns: "UnmarshalDBusBasicFixedType f buf p \<noteq> Inl OutOfFuel"
  by (simp add: UnmarshalDBusBasicFixedType_def Let_def)

lemma length_progress:
  "length buf < 2147483648 \<Longrightarrow> unmarshal_length f buf p = Inr (k, q) \<Longrightarrow>
   p + wire_size f \<le> length buf \<and> q = p + wire_size f"
  by (auto simp: unmarshal_length_def bindE_Inr_iff dest: fixed_progress)

lemma length_returns: "unmarshal_length f buf p \<noteq> Inl OutOfFuel"
  using fixed_returns by (auto simp: unmarshal_length_def bindE_Inl_iff)

lemma construct_returns: "construct_string st s \<noteq> Inl OutOfFuel"
  by (simp add: construct_string_def make_ObjectPath_def make_DBusInterfaceName_def split: option.splits)

lemma string_progress:
  assumes "length buf < 2147483648" and "UnmarshalDBusBasicStringlikeType st buf p = Inr (v, q)"
  shows "p < length buf \<and> p < q \<and> q \<le> length buf"
proof -
  obtain k p1 where k: "unmarshal_length (if st = SignatureString then U8 else U32) buf p = Inr (k, p1)"
    and g: "\<not> k \<ge> usub64 (length buf) p1" and q: "q = u32 (p1 + (k + 1))"
    using assms(2) by (auto simp: UnmarshalDBusBasicStringlikeType_def bindE_Inr_iff split: if_splits)
  from length_progress [OF assms(1) k] have p1: "p1 \<le> length buf" "p < p1" by (auto split: if_splits)
  then have "k < length buf - p1" using g assms(1) by simp
  then show ?thesis using p1 q assms(1) by simp
qed

lemma string_returns: "UnmarshalDBusBasicStringlikeType st buf p \<noteq> Inl OutOfFuel"
  using length_returns construct_returns
  by (auto simp: UnmarshalDBusBasicStringlikeType_def bindE_Inl_iff split: if_splits)

lemma raw_values_returns: "raw_values f bs \<noteq> Inl OutOfFuel"
  by (induction f bs rule: raw_values.induct) (subst raw_values.simps, auto simp: Let_def bindE_Inl_iff)

lemma fixed_elements_progress:
  assumes "length buf < 2147483648" and "p \<le> limit buf" and "k < 67108864"
    and "UnmarshalFixedElements N f k buf p = Inr (v, q)"
  shows "p \<le> q \<and> q \<le> length buf"
proof -
  have "u32 (p + k) = p + k" using assms(1, 2, 3) limit_bounds [of buf] by simp
  then show ?thesis
    using assms(4) by (auto simp: UnmarshalFixedElements_def Let_def bindE_Inr_iff split: if_splits option.splits)
qed

lemma fixed_elements_returns: "UnmarshalFixedElements N f k buf p \<noteq> Inl OutOfFuel"
  using raw_values_returns by (auto simp: UnmarshalFixedElements_def Let_def bindE_Inl_iff split: option.splits)

lemma fields_progress:
  assumes "length buf < 2147483648" and "\<forall>f \<in> set fs. progress buf (snd f) \<and> fst f dvd 8 \<and> 0 < fst f"
  shows "UnmarshalFields fs buf p \<noteq> Inl OutOfFuel"
    and "fs \<noteq> [] \<Longrightarrow> UnmarshalFields fs buf p = Inr (vs, q) \<Longrightarrow> p < length buf \<and> p < q \<and> q \<le> limit buf"
proof -
  have "UnmarshalFields fs buf p \<noteq> Inl OutOfFuel \<and>
    (fs \<noteq> [] \<longrightarrow> (\<forall>vs q. UnmarshalFields fs buf p = Inr (vs, q) \<longrightarrow> p < length buf \<and> p < q \<and> q \<le> limit buf))"
    using assms(2)
  proof (induction fs arbitrary: p)
    case (Cons f fs)
    obtain a elem where f: "f = (a, elem)" by (cases f)
    have P: "progress buf elem" using Cons.prems f by simp
    show ?case
    proof (cases "elem buf p")
      case (Inl e)
      then show ?thesis using f progressD(2) [OF P, of p] by auto
    next
      case (Inr r)
      obtain v p1 where r: "r = (v, p1)" by (cases r)
      have p1: "p < length buf" "p < p1" "p1 \<le> limit buf" using progressD(1) [OF P] Inr r by auto
      let ?p = "if fs \<noteq> [] then SkipPadding p1 (fst (hd fs)) else p1"
      have "p1 \<le> ?p" "?p \<le> limit buf"
        using SkipPadding_bounds [OF p1(3) _ _ assms(1), of "fst (hd fs)"] Cons.prems p1(3)
        by (cases fs; simp)+
      moreover have "UnmarshalFields fs buf ?p \<noteq> Inl OutOfFuel \<and>
          (fs \<noteq> [] \<longrightarrow> (\<forall>vs q. UnmarshalFields fs buf ?p = Inr (vs, q) \<longrightarrow>
            ?p < length buf \<and> ?p < q \<and> q \<le> limit buf))"
        by (rule Cons.IH) (use Cons.prems in simp)
      ultimately show ?thesis
        using f Inr r p1 by (cases "fs = []") (auto simp: bindE_Inr_iff bindE_Inl_iff)
    qed
  qed simp
  then show "UnmarshalFields fs buf p \<noteq> Inl OutOfFuel"
    "fs \<noteq> [] \<Longrightarrow> UnmarshalFields fs buf p = Inr (vs, q) \<Longrightarrow> p < length buf \<and> p < q \<and> q \<le> limit buf"
    by blast+
qed

lemma array_progress:
  assumes small: "length buf < 2147483648" and P: "progress buf elem"
    and "p \<le> limit buf" and "length buf < p + n" and "0 < n"
  shows "UnmarshalArrayElements elem n N t k buf p b vec \<noteq> Inl OutOfFuel \<and>
    (\<forall>v q. UnmarshalArrayElements elem n N t k buf p b vec = Inr (v, q) \<longrightarrow> p \<le> q \<and> q \<le> limit buf)"
  using assms(3-5)
proof (induction n arbitrary: p b vec)
  case (Suc n)
  show ?case
  proof (cases "b < k \<and> p < length buf \<and> \<not> (case N of Some j \<Rightarrow> length vec \<ge> j | None \<Rightarrow> False)")
    case False
    then show ?thesis using Suc.prems(1) by (auto split: option.splits if_splits)
  next
    case True
    then have n: "0 < n" using Suc.prems(2) by simp
    show ?thesis
    proof (cases "elem buf p")
      case (Inl e)
      then show ?thesis using True progressD(2) [OF P, of p] by auto
    next
      case (Inr r)
      obtain v p1 where r: "r = (v, p1)" by (cases r)
      have p1: "p < p1" "p1 \<le> limit buf" using progressD(1) [OF P] Inr r by auto
      let ?p2 = "SkipPadding p1 (GA t)"
      have p2: "p1 \<le> ?p2" "?p2 \<le> limit buf"
        using SkipPadding_bounds [OF p1(2) _ _ small, of "GA t"] by simp_all
      have IH: "UnmarshalArrayElements elem n N t k buf p' b' vec' \<noteq> Inl OutOfFuel \<and>
          (\<forall>v q. UnmarshalArrayElements elem n N t k buf p' b' vec' = Inr (v, q) \<longrightarrow> p' \<le> q \<and> q \<le> limit buf)"
        if "p < p'" "p' \<le> limit buf" for p' b' vec'
        by (rule Suc.IH) (use that Suc.prems(2) n in simp_all)
      let ?c = "u32 (b + usub32 p1 p)"
      have c: "UnmarshalArrayElements elem (Suc n) N t k buf p b vec =
          (if ?c < k then UnmarshalArrayElements elem n N t k buf ?p2 (u32 (?c + usub32 ?p2 p1)) (vec @ [v])
           else UnmarshalArrayElements elem n N t k buf p1 ?c (vec @ [v]))"
        using True Inr r by (auto simp: Let_def)
      show ?thesis
        unfolding c using IH [of ?p2] IH [of p1] p1 p2 by (auto; fastforce)
    qed
  qed
qed simp

lemma map_progress:
  assumes small: "length buf < 2147483648" and P: "progress buf keyT" "progress buf mappedT"
    and "p \<le> limit buf" and "length buf < p + n" and "0 < n"
  shows "UnmarshalMapEntries keyT mappedT n kt t k buf p b m \<noteq> Inl OutOfFuel \<and>
    (\<forall>v q. UnmarshalMapEntries keyT mappedT n kt t k buf p b m = Inr (v, q) \<longrightarrow> p \<le> q \<and> q \<le> limit buf)"
  using assms(4-6)
proof (induction n arbitrary: p b m)
  case (Suc n)
  show ?case
  proof (cases "b < k")
    case False
    then show ?thesis using Suc.prems(1) by simp
  next
    case True
    show ?thesis
    proof (cases "keyT buf p")
      case (Inl e)
      then show ?thesis using True progressD(2) [OF P(1), of p] by auto
    next
      case (Inr r)
      obtain a p1 where r: "r = (a, p1)" by (cases r)
      have p1: "p < length buf" "p < p1" "p1 \<le> limit buf" using progressD(1) [OF P(1)] Inr r by auto
      have n: "0 < n" using p1(1) Suc.prems(2) by simp
      let ?p2 = "SkipPadding p1 (field_alignment t)"
      show ?thesis
      proof (cases "mappedT buf ?p2")
        case (Inl e)
        then show ?thesis using True \<open>keyT buf p = Inr r\<close> r progressD(2) [OF P(2), of ?p2] by auto
      next
        case v: (Inr s)
        obtain y p3 where s: "s = (y, p3)" by (cases s)
        have "p1 \<le> ?p2" using SkipPadding_bounds [OF p1(3) _ _ small, of "field_alignment t"] by simp
        then have p3: "p < p3" "p3 \<le> limit buf" using progressD(1) [OF P(2)] v s p1(2) by fastforce+
        let ?p4 = "fst (AddPaddingToSize p3 8)"
        have p4: "p3 \<le> ?p4" "?p4 \<le> limit buf"
          using SkipPadding_bounds [OF p3(2) _ _ small, of 8]
          by (simp_all add: SkipPadding_def AddPaddingToSize_def Let_def split: if_splits)
        have IH: "UnmarshalMapEntries keyT mappedT n kt t k buf p' b' m' \<noteq> Inl OutOfFuel \<and>
          (\<forall>v q. UnmarshalMapEntries keyT mappedT n kt t k buf p' b' m' = Inr (v, q) \<longrightarrow> p' \<le> q \<and> q \<le> limit buf)"
          if "p < p'" "p' \<le> limit buf" for p' b' m'
          by (rule Suc.IH) (use that Suc.prems(2) n in simp_all)
        let ?c = "u32 (b + usub32 p3 p)"
        have c: "UnmarshalMapEntries keyT mappedT (Suc n) kt t k buf p b m =
          (if ?c < k then UnmarshalMapEntries keyT mappedT n kt t k buf ?p4 (u32 (?c + usub32 ?p4 p3)) (map_emplace a y m)
           else UnmarshalMapEntries keyT mappedT n kt t k buf p3 ?c (map_emplace a y m))"
          using True Inr r v s by (auto simp: Let_def)
        show ?thesis
          unfolding c using IH [of ?p4] IH [of p3] p3 p4 by (auto; fastforce)
      qed
    qed
  qed
qed simp

text \<open>Types whose values are read without a signature walk, and whose every value has at least one byte.\<close>

fun terminating :: "cty \<Rightarrow> bool" where
  "terminating (TArr N t) = terminating t"
| "terminating (TTuple ts) = (ts \<noteq> [] \<and> (\<forall>t \<in> set ts. terminating t))"
| "terminating (TMap k t) = (terminating k \<and> terminating t)"
| "terminating TVariant = False"
| "terminating TFastVariant = False"
| "terminating _ = True"

lemma progress_all:
  assumes small: "length buf < 2147483648" and n: "length buf < n"
  shows "terminating T \<Longrightarrow> progress buf (UnmarshalDBusTypeImpl junk n T)"
proof (induction T)
  case (TFixed f)
  have "p < length buf \<and> p < q \<and> q \<le> limit buf"
    if "UnmarshalDBusBasicFixedType f buf p = Inr (x, q)" for p x q
    using fixed_progress [OF small that] wire_size_pos [of f] limit_bounds(1) [of buf] by linarith
  then show ?case
    using fixed_returns [of f buf] by (auto simp: progress_def bindE_Inr_iff bindE_Inl_iff)
next
  case (TString st)
  then show ?case
    using string_progress [OF small, of st] string_returns [of st buf] limit_bounds(1) [of buf]
    by (fastforce simp: progress_def)
next
  case (TTuple ts)
  let ?fs = "map (\<lambda>t. (field_alignment t, UnmarshalDBusTypeImpl junk n t)) ts"
  have "\<forall>f \<in> set ?fs. progress buf (snd f) \<and> fst f dvd 8 \<and> 0 < fst f" "?fs \<noteq> []"
    using TTuple by auto
  note F = fields_progress(1) [OF small this(1)] fields_progress(2) [OF small this]
  have "UnmarshalDBusTypeImpl junk n (TTuple ts) buf p \<noteq> Inl OutOfFuel \<and>
    (\<forall>v q. UnmarshalDBusTypeImpl junk n (TTuple ts) buf p = Inr (v, q) \<longrightarrow> p < length buf \<and> p < q \<and> q \<le> limit buf)" for p
  proof (cases "UnmarshalFields ?fs buf p")
    case (Inl e)
    then show ?thesis using F(1) [of p] by auto
  next
    case (Inr r)
    then show ?thesis using F(2) [of p] by (cases r) simp
  qed
  then show ?case unfolding progress_def by blast
next
  case (TArr N t)
  then have P: "progress buf (UnmarshalDBusTypeImpl junk n t)" by simp
  have "UnmarshalDBusTypeImpl junk n (TArr N t) buf p \<noteq> Inl OutOfFuel \<and>
    (\<forall>v q. UnmarshalDBusTypeImpl junk n (TArr N t) buf p = Inr (v, q) \<longrightarrow> p < length buf \<and> p < q \<and> q \<le> limit buf)" for p
  proof (cases "unmarshal_length U32 buf p")
    case (Inl e)
    then show ?thesis using length_returns [of U32 buf p] by auto
  next
    case (Inr r)
    obtain k p0 where r: "r = (k, p0)" by (cases r)
    have p0: "p + 4 \<le> length buf" "p0 = p + 4" using length_progress [OF small, of U32 p k p0] Inr r by simp_all
    let ?p = "SkipPadding p0 (GA t)"
    have "p0 \<le> limit buf" using p0 limit_bounds(1) [of buf] by linarith
    then have p1: "p0 \<le> ?p" "?p \<le> limit buf" using SkipPadding_bounds [OF _ _ _ small, of p0 "GA t"] by simp_all
    show ?thesis
    proof (cases "k \<ge> 67108864")
      case False
      show ?thesis
      proof (cases "\<exists>f. t = TFixed f")
        case True
        then obtain f where f: "t = TFixed f" by blast
        have "UnmarshalFixedElements N f k buf ?p \<noteq> Inl OutOfFuel" by (rule fixed_elements_returns)
        moreover have "?p \<le> q \<and> q \<le> length buf" if "UnmarshalFixedElements N f k buf ?p = Inr (v, q)" for v q
          using fixed_elements_progress [OF small p1(2) _ that] False by simp
        ultimately show ?thesis
          using Inr r False f p0 p1 limit_bounds(1) [of buf] by (auto; fastforce)
      next
        case nf: False
        have "UnmarshalArrayElements (UnmarshalDBusTypeImpl junk n t) n N t k buf ?p 0 [] \<noteq> Inl OutOfFuel \<and>
          (\<forall>v q. UnmarshalArrayElements (UnmarshalDBusTypeImpl junk n t) n N t k buf ?p 0 [] = Inr (v, q) \<longrightarrow>
             ?p \<le> q \<and> q \<le> limit buf)"
          by (rule array_progress [OF small P p1(2)]) (use n in simp_all)
        then show ?thesis
          using Inr r False nf p0 p1 by (cases t) (auto; fastforce)+
      qed
    qed (use Inr r in simp)
  qed
  then show ?case unfolding progress_def by blast
next
  case (TMap k t)
  then have P: "progress buf (UnmarshalDBusTypeImpl junk n k)" "progress buf (UnmarshalDBusTypeImpl junk n t)"
    by simp_all
  have "UnmarshalDBusTypeImpl junk n (TMap k t) buf p \<noteq> Inl OutOfFuel \<and>
    (\<forall>v q. UnmarshalDBusTypeImpl junk n (TMap k t) buf p = Inr (v, q) \<longrightarrow> p < length buf \<and> p < q \<and> q \<le> limit buf)" for p
  proof (cases "unmarshal_length U32 buf p")
    case (Inl e)
    then show ?thesis using length_returns [of U32 buf p] by auto
  next
    case (Inr r)
    obtain l p0 where r: "r = (l, p0)" by (cases r)
    have p0: "p + 4 \<le> length buf" "p0 = p + 4" using length_progress [OF small, of U32 p l p0] Inr r by simp_all
    let ?p = "SkipPadding p0 8"
    have "p0 \<le> limit buf" using p0 limit_bounds(1) [of buf] by linarith
    then have p1: "p0 \<le> ?p" "?p \<le> limit buf" using SkipPadding_bounds [OF _ _ _ small, of p0 8] by simp_all
    then have p2: "?p \<le> SkipPadding ?p 8" "SkipPadding ?p 8 \<le> limit buf"
      using SkipPadding_bounds [OF _ _ _ small, of ?p 8] by simp_all
    have "UnmarshalMapEntries (UnmarshalDBusTypeImpl junk n k) (UnmarshalDBusTypeImpl junk n t) n k t l buf ?p 0 [] \<noteq> Inl OutOfFuel \<and>
      (\<forall>v q. UnmarshalMapEntries (UnmarshalDBusTypeImpl junk n k) (UnmarshalDBusTypeImpl junk n t) n k t l buf ?p 0 [] = Inr (v, q) \<longrightarrow>
         ?p \<le> q \<and> q \<le> limit buf)"
      by (rule map_progress [OF small P p1(2)]) (use n in simp_all)
    then show ?thesis
      using Inr r p0 p1 p2 by (cases "l = 0") (auto simp: Let_def; fastforce)+
  qed
  then show ?case unfolding progress_def by blast
qed simp_all

section \<open>Termination\<close>

text \<open>C17: Decoding returns. For every type without variants (whose structs have fields), every input shorter
  than 2 GiB and every start, the loops end within fuel above the input's length: the result is a
  value or an exception. On success at least one byte was read and the pointer moved forward.\<close>

theorem unmarshal_returns:
  assumes "terminating T" and "length buf < 2147483648" and "length buf < n"
  shows "UnmarshalDBusTypeImpl junk n T buf p \<noteq> Inl OutOfFuel"
  using progressD(2) [OF progress_all [OF assms(2, 3, 1)]] .

theorem unmarshal_returns_witness:
  "UnmarshalDBusTypeImpl no_junk 9 (TArr None (TTuple [TString StdString, TMap (TFixed U8) (TFixed U16)]))
     [255, 255, 255, 3, 1, 2, 3, 4] 0 \<noteq> Inl OutOfFuel"
  by (rule unmarshal_returns) simp_all

definition looping_message :: "8 word list" where
  "looping_message = [1, 118, 0, 3, 97, 115, 118, 0, 0xF7, 0xFF, 0xFF, 0xFF]"

lemma looping_reads:
  "UnmarshalDBusBasicStringlikeType SignatureString looping_message 0 = Inr (VString SignatureString ''v'', 3)"
  "UnmarshalDBusBasicStringlikeType SignatureString looping_message 3 = Inr (VString SignatureString ''asv'', 8)"
  "unmarshal_length U32 looping_message 8 = Inr (4294967287, 12)"
  "SkipPadding 3 1 = 3" "SkipPadding 8 4 = 8" "u32 (SkipPadding 12 4 + 4294967287) = 3"
  by code_simp+

lemma looping_walk:
  "WalkVariantSignature n ''v'' looping_message 3 = Inl OutOfFuel \<and>
   WalkVariantSignature n ''asv'' looping_message 8 = Inl OutOfFuel"
proof (induction n)
  case (Suc n)
  then show ?case by (simp add: looping_reads [simplified] Let_def)
qed simp

text \<open>C36: With a variant it need not. On this message of twelve bytes, whose nested signature \<^verbatim>\<open>asv\<close> gives an
  array length that moves the 32-bit pointer back to that signature, the loop of
  \<^verbatim>\<open>UnmarshalDBusVariant\<close> never ends: no amount of fuel is enough.\<close>

theorem variant_never_returns:
  "UnmarshalDBusType junk n TVariant looping_message ''v'' = Inl OutOfFuel"
proof -
  have "check_signature ''v'' ''v'' = Inr ()" by code_simp
  then show ?thesis
    using looping_walk [of n]
    by (simp add: UnmarshalDBusType_def UnmarshalDBusType_at_def UnmarshalDBusVariant_def looping_reads Let_def)
qed

section \<open>Reads outside the buffer\<close>

text \<open>C32: Exactly when a fixed-size read leaves the buffer. The guard compares with \<^verbatim>\<open>size() - arrPointer\<close>, computed
  as \<^verbatim>\<open>size_t\<close>: it protects every read that starts inside the buffer, and no read that starts behind it.\<close>

theorem fixed_read_out_of_bounds_iff:
  assumes "length buf < 4294967296" and "p < 4294967296"
  shows "UnmarshalDBusBasicFixedType f buf p = Inl UndefinedBehaviour \<longleftrightarrow> length buf < p"
proof (cases "length buf < p")
  case True
  moreover have "wire_size f \<le> 8" by (cases f) simp_all
  ultimately show ?thesis
    using usub64_wrap [of "length buf" p] assms by (simp add: UnmarshalDBusBasicFixedType_def Let_def)
next
  case False
  then show ?thesis using assms by (auto simp: UnmarshalDBusBasicFixedType_def Let_def)
qed

theorem fixed_read_out_of_bounds_witness:
  "UnmarshalDBusBasicFixedType U32 [1, 2] 4 = Inl UndefinedBehaviour \<longleftrightarrow> length [1, 2 :: 8 word] < 4"
  by (rule fixed_read_out_of_bounds_iff) simp_all

lemma construct_defined: "construct_string st s \<noteq> Inl UndefinedBehaviour"
  by (simp add: construct_string_def make_ObjectPath_def make_DBusInterfaceName_def split: option.splits)

text \<open>Strings are safe: a string read that starts inside the buffer never leaves it, and what it returns
  lies inside the buffer with one more byte (the terminator) behind it.\<close>

theorem string_read_in_bounds:
  assumes "length buf < 2147483648" and "p \<le> length buf"
  shows "UnmarshalDBusBasicStringlikeType st buf p \<noteq> Inl UndefinedBehaviour \<and>
    (\<forall>v q. UnmarshalDBusBasicStringlikeType st buf p = Inr (v, q) \<longrightarrow> p < q \<and> q \<le> length buf)"
proof -
  have "UnmarshalDBusBasicFixedType f buf p \<noteq> Inl UndefinedBehaviour" for f
    using assms by (auto simp: UnmarshalDBusBasicFixedType_def Let_def)
  then have "unmarshal_length f buf p \<noteq> Inl UndefinedBehaviour" for f
    by (auto simp: unmarshal_length_def bindE_Inl_iff)
  then have "UnmarshalDBusBasicStringlikeType st buf p \<noteq> Inl UndefinedBehaviour"
    using construct_defined by (auto simp: UnmarshalDBusBasicStringlikeType_def bindE_Inl_iff split: if_splits)
  then show ?thesis using string_progress [OF assms(1)] by blast
qed

theorem string_read_in_bounds_witness:
  "UnmarshalDBusBasicStringlikeType StdString [3, 0, 0, 0, 65] 0 \<noteq> Inl UndefinedBehaviour"
  by (rule conjunct1 [OF string_read_in_bounds]) simp_all

lemma raw_values_defined: "f \<noteq> Bool \<Longrightarrow> raw_values f bs \<noteq> Inl e"
  by (induction f bs rule: raw_values.induct) (subst raw_values.simps, auto simp: Let_def bindE_Inl_iff)

text \<open>C33: Exactly when an array of numbers overruns its memory. A received byte length that is not a multiple
  of the element size passes every check of a \<^verbatim>\<open>std::vector\<close> read, and the copy writes behind the
  vector's last element; with a multiple, the read is safe.\<close>

theorem array_copy_overruns_iff:
  assumes "f \<noteq> Bool" and "p + k < 4294967296"
  shows "UnmarshalFixedElements None f k buf p = Inl UndefinedBehaviour \<longleftrightarrow>
    p + k \<le> length buf \<and> \<not> wire_size f dvd k"
proof -
  have m: "mem_size f = wire_size f" using assms(1) by (simp add: mem_size_def)
  have "k div wire_size f * wire_size f < k \<longleftrightarrow> \<not> wire_size f dvd k"
    using div_times_less_eq_dividend [of k "wire_size f"] dvd_div_mult_self [of "wire_size f" k]
    by (metis dvd_triv_right le_neq_implies_less less_irrefl)
  then show ?thesis
    using assms(2) raw_values_defined [OF assms(1)]
    by (auto simp: UnmarshalFixedElements_def Let_def m bindE_Inl_iff)
qed

theorem array_copy_overruns_witness:
  "UnmarshalFixedElements None U32 5 [5, 0, 0, 0, 1, 2, 3, 4, 5] 4 = Inl UndefinedBehaviour \<longleftrightarrow>
    4 + 5 \<le> length [5, 0, 0, 0, 1, 2, 3, 4, 5 :: 8 word] \<and> \<not> wire_size U32 dvd 5"
  by (rule array_copy_overruns_iff) simp_all

end
