(* ===== verification/Messages.thy ===== *)
theory Messages
  imports Roundtrip
begin

text \<open>
  Messages: the builder class \<^verbatim>\<open>DBusMessage\<close> (\<^verbatim>\<open>src/src/DBusMessage.h\<close> and \<^verbatim>\<open>.cpp\<close>), the table
  \<^verbatim>\<open>HEADER_FIELDS\<close> of \<^verbatim>\<open>src/src/DBus.h\<close>, the parsed header of \<^verbatim>\<open>src/src/IncomingDBusMessage.cpp\<close>, and the framing
  of the read loop in \<^verbatim>\<open>src/src/DBusConnection.txx\<close>, which cuts the received bytes into messages. The
  last part proves that a message built and serialised by the library is parsed back.
\<close>

section \<open>Header fields\<close>

record HeaderField =
  decimalCode :: HeaderFieldCode
  field_type :: DBusTypeCodes
  requiredMessageType :: "DBusMessageType list"

definition HEADER_FIELDS :: "HeaderField list" where
  "HEADER_FIELDS =
     [\<lparr> decimalCode = HF_INVALID, field_type = TC_INVALID, requiredMessageType = [MT_NONE, MT_NONE] \<rparr>,
      \<lparr> decimalCode = HF_PATH, field_type = TC_OBJECT_PATH, requiredMessageType = [MT_METHOD_CALL, MT_SIGNAL] \<rparr>,
      \<lparr> decimalCode = HF_INTERFACE, field_type = TC_STRING, requiredMessageType = [MT_SIGNAL, MT_NONE] \<rparr>,
      \<lparr> decimalCode = HF_MEMBER, field_type = TC_STRING, requiredMessageType = [MT_METHOD_CALL, MT_SIGNAL] \<rparr>,
      \<lparr> decimalCode = HF_ERROR_NAME, field_type = TC_STRING, requiredMessageType = [MT_ERROR, MT_NONE] \<rparr>,
      \<lparr> decimalCode = HF_REPLY_SERIAL, field_type = TC_UINT32, requiredMessageType = [MT_ERROR, MT_METHOD_RETURN] \<rparr>,
      \<lparr> decimalCode = HF_DESTINATION, field_type = TC_STRING, requiredMessageType = [MT_OPTIONAL, MT_OPTIONAL] \<rparr>,
      \<lparr> decimalCode = HF_SENDER, field_type = TC_STRING, requiredMessageType = [MT_OPTIONAL, MT_OPTIONAL] \<rparr>,
      \<lparr> decimalCode = HF_SIGNATURE, field_type = TC_SIGNATURE, requiredMessageType = [MT_OPTIONAL, MT_OPTIONAL] \<rparr>,
      \<lparr> decimalCode = HF_UNIX_FDS, field_type = TC_UINT32, requiredMessageType = [MT_OPTIONAL, MT_OPTIONAL] \<rparr>]"

section \<open>Building a message\<close>

record DBusMessage =
  m_method :: "string option"
  m_path :: "ObjectPath option"
  m_interface :: "DBusInterfaceName option"
  m_flags :: "8 word"
  m_messageType :: DBusMessageType
  m_signature :: "Signature option"
  m_destination :: "string option"
  m_errorName :: "string option"
  m_replySerial :: "32 word option"
  m_messageBody :: "8 word list"

definition new_DBusMessage :: "DBusMessageType \<Rightarrow> DBusMessage" where
  "new_DBusMessage t =
     \<lparr> m_method = None, m_path = None, m_interface = None, m_flags = 0, m_messageType = t,
       m_signature = None, m_destination = None, m_errorName = None, m_replySerial = None,
       m_messageBody = [] \<rparr>"

definition DBusMessage_Method :: "string \<Rightarrow> ObjectPath \<Rightarrow> DBusMessage" where
  "DBusMessage_Method method path =
     (new_DBusMessage MT_METHOD_CALL)\<lparr> m_method := Some method, m_path := Some path \<rparr>"

definition DBusMessage_Signal :: "string \<Rightarrow> ObjectPath \<Rightarrow> DBusInterfaceName \<Rightarrow> DBusMessage" where
  "DBusMessage_Signal signal path interface =
     (new_DBusMessage MT_SIGNAL)\<lparr> m_method := Some signal, m_path := Some path, m_interface := Some interface \<rparr>"

definition DBusMessage_Path :: "ObjectPath \<Rightarrow> DBusMessage \<Rightarrow> DBusMessage" where
  "DBusMessage_Path path m = m\<lparr> m_path := Some path \<rparr>"

definition DBusMessage_Interface :: "DBusInterfaceName \<Rightarrow> DBusMessage \<Rightarrow> DBusMessage" where
  "DBusMessage_Interface interface m = m\<lparr> m_interface := Some interface \<rparr>"

definition DBusMessage_Destination :: "string \<Rightarrow> DBusMessage \<Rightarrow> DBusMessage" where
  "DBusMessage_Destination destination m = m\<lparr> m_destination := Some destination \<rparr>"

definition DBusMessage_Flag :: "DBusMessageFlags \<Rightarrow> DBusMessage \<Rightarrow> DBusMessage" where
  "DBusMessage_Flag flag m = m\<lparr> m_flags := or (m_flags m) (flag_code flag) \<rparr>"

text \<open>\<^verbatim>\<open>Parameter\<close> with one value, and with a \<^verbatim>\<open>MultipleCompleteTypes\<close> of several. When marshalling throws, the
  signature has already been assigned; the exception leaves the message to its owner.\<close>

definition DBusMessage_Parameter :: "dval \<Rightarrow> DBusMessage \<Rightarrow> DBusMessage result" where
  "DBusMessage_Parameter v m =
     bindE (MarshalDBusType v) (\<lambda>bs. Inr (m
       \<lparr> m_signature := Some (MkSignature (GetTypeSignature (type_of v))), m_messageBody := bs \<rparr>))"

definition DBusMessage_Parameters :: "dval list \<Rightarrow> DBusMessage \<Rightarrow> DBusMessage result" where
  "DBusMessage_Parameters vs m =
     bindE (MarshalMultipleCompleteTypes vs) (\<lambda>bs. Inr (m
       \<lparr> m_signature := Some (MkSignature (BuildMultipleCompleteTypesSignature (map type_of vs))),
         m_messageBody := bs \<rparr>))"

definition ExpectsReply :: "DBusMessage \<Rightarrow> bool" where
  "ExpectsReply m = (and (m_flags m) (flag_code FL_NO_REPLY_EXPECTED) = 0)"

section \<open>Serialising a message\<close>

definition require :: "bool \<Rightarrow> dval \<Rightarrow> dval result" where
  "require present v = (if present then Inr (Variant_Create v) else Inl DBusSerializationError)"

text \<open>The \<^verbatim>\<open>switch\<close> of \<^verbatim>\<open>CreateDBusMessage\<close>.\<close>

fun header_variant :: "DBusMessage \<Rightarrow> HeaderFieldCode \<Rightarrow> dval result" where
  "header_variant m HF_REPLY_SERIAL =
     (case m_replySerial m of None \<Rightarrow> Inl DBusSerializationError
      | Some s \<Rightarrow> Inr (Variant_Create (VFixed (FU32 s))))"
| "header_variant m HF_ERROR_NAME =
     (case m_errorName m of None \<Rightarrow> Inl DBusSerializationError
      | Some s \<Rightarrow> require (s \<noteq> []) (VString StdString s))"
| "header_variant m HF_PATH =
     (case m_path m of None \<Rightarrow> Inl DBusSerializationError
      | Some p \<Rightarrow> require (\<not> ObjectPath_Empty p) (VString ObjectPathString (GetPath p)))"
| "header_variant m HF_INTERFACE =
     (case m_interface m of None \<Rightarrow> Inl DBusSerializationError
      | Some i \<Rightarrow> require (\<not> InterfaceName_empty i) (VString InterfaceString (interface_name i)))"
| "header_variant m HF_MEMBER =
     (case m_method m of None \<Rightarrow> Inl DBusSerializationError
      | Some s \<Rightarrow> require (s \<noteq> []) (VString StdString s))"
| "header_variant m HF_SIGNATURE =
     (case m_signature m of None \<Rightarrow> Inl DBusSerializationError
      | Some s \<Rightarrow> require (\<not> Signature_Empty s) (VString SignatureString (GetSignature s)))"
| "header_variant m _ = Inl RuntimeError"

text \<open>The loop over \<^verbatim>\<open>HEADER_FIELDS\<close>: a field is a code with its variant.\<close>

fun required_fields :: "DBusMessage \<Rightarrow> HeaderField list \<Rightarrow> (HeaderFieldCode \<times> dval) list result" where
  "required_fields m [] = Inr []"
| "required_fields m (hf # hfs) =
     (if (if decimalCode hf = HF_SIGNATURE then m_messageBody m = []
          else m_messageType m \<notin> set (requiredMessageType hf))
      then required_fields m hfs
      else bindE (header_variant m (decimalCode hf)) (\<lambda>variant.
        bindE (required_fields m hfs) (\<lambda>fs. Inr ((decimalCode hf, variant) # fs))))"

definition header_fields :: "DBusMessage \<Rightarrow> (HeaderFieldCode \<times> dval) list result" where
  "header_fields m =
     bindE (required_fields m HEADER_FIELDS) (\<lambda>fs.
       let fs1 = (case m_interface m of
             Some i \<Rightarrow> if HF_INTERFACE \<notin> fst ` set fs
                       then fs @ [(HF_INTERFACE, Variant_Create (VString InterfaceString (interface_name i)))]
                       else fs
           | None \<Rightarrow> fs)
       in Inr (case m_destination m of
             Some d \<Rightarrow> if d \<noteq> []
                       then fs1 @ [(HF_DESTINATION, Variant_Create (VString StdString d))] else fs1
           | None \<Rightarrow> fs1))"

definition field_value :: "HeaderFieldCode \<times> dval \<Rightarrow> dval" where
  "field_value f = VTuple [VFixed (FU8 (header_field_code (fst f))), snd f]"

definition header_values :: "DBusMessage \<Rightarrow> 32 word \<Rightarrow> (HeaderFieldCode \<times> dval) list \<Rightarrow> dval list" where
  "header_values m serial fs =
     [VFixed (FU8 108), VFixed (FU8 (message_type_code (m_messageType m))), VFixed (FU8 (m_flags m)),
      VFixed (FU8 1), VFixed (FU32 (word_of_nat (length (m_messageBody m)))), VFixed (FU32 serial),
      VArr None (TTuple [TFixed U8, TVariant]) (map field_value fs)]"

definition CreateDBusMessage :: "DBusMessage \<Rightarrow> 32 word \<Rightarrow> 8 word list result" where
  "CreateDBusMessage m serial =
     bindE (header_fields m) (\<lambda>fs.
       bindE (MarshalMultipleCompleteTypes (header_values m serial fs)) (\<lambda>header.
         Inr (ApplyPadding header DBUS_MESSAGE_BODY_ALIGNMENT @ m_messageBody m)))"

definition Serialize :: "DBusMessage \<Rightarrow> 32 word \<Rightarrow> 8 word list result" where
  "Serialize m serial = CreateDBusMessage m serial"

section \<open>The header of a received message\<close>

record ReplyData =
  rd_serial :: "32 word"
  rd_replySerial :: "32 word option"
  rd_messageType :: DBusMessageType
  rd_objectPath :: "ObjectPath option"
  rd_interface :: "DBusInterfaceName option"
  rd_member :: "string option"
  rd_errorName :: "string option"
  rd_signature :: "Signature option"
  rd_sender :: "string option"
  rd_destination :: "string option"
  rd_messageLength :: nat
  rd_headerFieldLength :: nat

text \<open>\<^verbatim>\<open>find_if\<close> over the unmarshalled fields, each a struct of a code and a variant.\<close>

definition field_code :: "dval \<Rightarrow> nat" where
  "field_code v = (case v of VTuple (VFixed (FU8 c) # _) \<Rightarrow> unat c | _ \<Rightarrow> 256)"

definition field_variant :: "dval \<Rightarrow> dval" where
  "field_variant v = (case v of VTuple [_, x] \<Rightarrow> x | _ \<Rightarrow> VMonostate)"

definition find_field :: "HeaderFieldCode \<Rightarrow> dval list \<Rightarrow> dval option" where
  "find_field hf hfs =
     map_option field_variant (find (\<lambda>f. field_code f = unat (header_field_code hf)) hfs)"

text \<open>A field that is missing although \<^verbatim>\<open>HEADER_FIELDS\<close> requires it for the message type is an error.\<close>

definition check_required :: "DBusMessageType \<Rightarrow> dval list \<Rightarrow> HeaderFieldCode \<Rightarrow> unit result" where
  "check_required messageType hfs hf =
     (if find_field hf hfs = None \<and>
         (\<exists>f \<in> set HEADER_FIELDS. decimalCode f = hf \<and> messageType \<in> set (requiredMessageType f))
      then Inl DBusMalformedInputError else Inr ())"

definition read_field ::
    "(nat \<Rightarrow> nat \<Rightarrow> 8 word) \<Rightarrow> nat \<Rightarrow> dval list \<Rightarrow> HeaderFieldCode \<Rightarrow> cty \<Rightarrow> (dval \<Rightarrow> 'a) \<Rightarrow> 'a option result" where
  "read_field junk n hfs hf T conv =
     (case find_field hf hfs of None \<Rightarrow> Inr None
      | Some v \<Rightarrow> bindE (Variant_UnmarshalData junk n T v) (\<lambda>u. Inr (Some (conv u))))"

fun the_string :: "dval \<Rightarrow> string" where
  "the_string (VString st s) = s"
| "the_string _ = []"

fun the_u32 :: "dval \<Rightarrow> 32 word" where
  "the_u32 (VFixed (FU32 w)) = w"
| "the_u32 _ = 0"

definition UnmarshalDBusHeader ::
    "(nat \<Rightarrow> nat \<Rightarrow> 8 word) \<Rightarrow> nat \<Rightarrow> 8 word list \<Rightarrow> 32 word \<Rightarrow> DBusMessageType \<Rightarrow> nat \<Rightarrow> nat \<Rightarrow> ReplyData result" where
  "UnmarshalDBusHeader junk n dbusMessage serial messageType headerFieldLength messageLength =
     bindE (UnmarshalDBusType_at junk n (TArr None (TTuple [TFixed U8, TFastVariant])) dbusMessage ''a(yv)''
         (FIRST_HEADER_PART_SIZE - 4)) (\<lambda>(arr, arrPointer).
       let headerFields = (case arr of VArr _ _ fs \<Rightarrow> fs | _ \<Rightarrow> []) in
       if find_field HF_SIGNATURE headerFields = None \<and> messageLength \<noteq> 0 then Inl DBusMalformedInputError else
       bindE (check_required messageType headerFields HF_REPLY_SERIAL) (\<lambda>_.
       bindE (check_required messageType headerFields HF_PATH) (\<lambda>_.
       bindE (check_required messageType headerFields HF_INTERFACE) (\<lambda>_.
       bindE (check_required messageType headerFields HF_MEMBER) (\<lambda>_.
       bindE (check_required messageType headerFields HF_SENDER) (\<lambda>_.
       bindE (check_required messageType headerFields HF_DESTINATION) (\<lambda>_.
       bindE (check_required messageType headerFields HF_ERROR_NAME) (\<lambda>_.
       bindE (read_field junk n headerFields HF_REPLY_SERIAL (TFixed U32) the_u32) (\<lambda>replySerial.
       bindE (read_field junk n headerFields HF_PATH (TString ObjectPathString) (\<lambda>u. MkObjectPath (the_string u))) (\<lambda>objectPath.
       bindE (read_field junk n headerFields HF_INTERFACE (TString InterfaceString) (\<lambda>u. MkInterfaceName (the_string u))) (\<lambda>interface.
       bindE (read_field junk n headerFields HF_MEMBER (TString StdString) the_string) (\<lambda>member.
       bindE (read_field junk n headerFields HF_ERROR_NAME (TString StdString) the_string) (\<lambda>errorName.
       bindE (read_field junk n headerFields HF_SIGNATURE (TString SignatureString) (\<lambda>u. MkSignature (the_string u))) (\<lambda>signature.
       bindE (read_field junk n headerFields HF_SENDER (TString StdString) the_string) (\<lambda>sender.
       bindE (read_field junk n headerFields HF_SENDER (TString StdString) the_string) (\<lambda>destination.
       Inr \<lparr> rd_serial = serial, rd_replySerial = replySerial, rd_messageType = messageType,
         rd_objectPath = objectPath, rd_interface = interface, rd_member = member,
         rd_errorName = errorName, rd_signature = signature, rd_sender = sender,
         rd_destination = destination, rd_messageLength = messageLength,
         rd_headerFieldLength = headerFieldLength \<rparr>))))))))))))))))"

record IncomingDBusMessage =
  m_header :: ReplyData
  in_messageBody :: "8 word list"

text \<open>\<^verbatim>\<open>IncomingDBusMessage::Get<T>\<close>: without a signature field it dereferences an empty optional.\<close>

definition IncomingDBusMessage_Get ::
    "(nat \<Rightarrow> nat \<Rightarrow> 8 word) \<Rightarrow> nat \<Rightarrow> cty \<Rightarrow> IncomingDBusMessage \<Rightarrow> dval result" where
  "IncomingDBusMessage_Get junk n T m =
     (case rd_signature (m_header m) of
        None \<Rightarrow> Inl UndefinedBehaviour
      | Some sg \<Rightarrow> UnmarshalDBusType junk n T (in_messageBody m) (GetSignature sg))"

definition IncomingDBusMessage_GetMultiple ::
    "(nat \<Rightarrow> nat \<Rightarrow> 8 word) \<Rightarrow> nat \<Rightarrow> cty list \<Rightarrow> IncomingDBusMessage \<Rightarrow> dval list result" where
  "IncomingDBusMessage_GetMultiple junk n Ts m =
     (case rd_signature (m_header m) of
        None \<Rightarrow> Inl UndefinedBehaviour
      | Some sg \<Rightarrow> UnmarshalMultipleCompleteTypes junk n Ts (in_messageBody m) (GetSignature sg))"

definition HasArguments :: "IncomingDBusMessage \<Rightarrow> bool" where
  "HasArguments m = (in_messageBody m \<noteq> [])"

text \<open>\<^verbatim>\<open>DBusMessage::Reply\<close> and \<^verbatim>\<open>DBusMessage::Error\<close>.\<close>

definition DBusMessage_Reply :: "IncomingDBusMessage \<Rightarrow> DBusMessage" where
  "DBusMessage_Reply incoming =
     (new_DBusMessage MT_METHOD_RETURN)
       \<lparr> m_replySerial := Some (rd_serial (m_header incoming)), m_destination := rd_sender (m_header incoming) \<rparr>"

definition DBusMessage_Error :: "IncomingDBusMessage \<Rightarrow> DBusErrorName \<Rightarrow> string \<Rightarrow> DBusMessage result" where
  "DBusMessage_Error incoming errorName errorMessage =
     DBusMessage_Parameter (VString StdString errorMessage)
       ((new_DBusMessage MT_ERROR)
         \<lparr> m_errorName := Some (error_name errorName), m_replySerial := Some (rd_serial (m_header incoming)),
           m_destination := rd_sender (m_header incoming) \<rparr>)"

section \<open>Framing\<close>

text \<open>
  One round of \<^verbatim>\<open>ReadLoop\<close> on the bytes that have arrived and not been read: \<^verbatim>\<open>async_read\<close> waits until it has
  exactly the bytes it asked for, so with fewer the round does not finish. Otherwise it has a
  message or has thrown, and the given bytes remain; or decoding never returns or is undefined, and with it the
  loop: such a round is \<open>Broken\<close>.
\<close>

datatype round = Waiting | Finished "IncomingDBusMessage result" "8 word list" | Broken error

definition round_end :: "IncomingDBusMessage result \<Rightarrow> 8 word list \<Rightarrow> round" where
  "round_end r rest =
     (case r of
        Inr message \<Rightarrow> Finished (Inr message) rest
      | Inl e \<Rightarrow> if thrown e then Finished (Inl e) rest else Broken e)"

lemma round_end_cases: "round_end r rest \<noteq> Waiting"
  "round_end r rest = Finished r' rest' \<longleftrightarrow> r' = r \<and> rest' = rest \<and> (\<forall>e. r = Inl e \<longrightarrow> thrown e)"
  "round_end r rest = Broken e \<longleftrightarrow> r = Inl e \<and> \<not> thrown e"
  by (auto simp: round_end_def split: sum.splits)

definition first_part_types :: "cty list" where
  "first_part_types = [TFixed U8, TFixed U8, TFixed U8, TFixed U8, TFixed U32, TFixed U32, TFixed U32]"

definition ReadLoop_round :: "(nat \<Rightarrow> nat \<Rightarrow> 8 word) \<Rightarrow> nat \<Rightarrow> 8 word list \<Rightarrow> round" where
  "ReadLoop_round junk n stream =
     (if length stream < FIRST_HEADER_PART_SIZE then Waiting
      else let first = take FIRST_HEADER_PART_SIZE stream; rest = drop FIRST_HEADER_PART_SIZE stream in
        case UnmarshalMultipleCompleteTypes junk n first_part_types first ''yyyyuuu'' of
          Inl e \<Rightarrow> round_end (Inl e) rest
        | Inr values \<Rightarrow>
            let messageLength = unat (the_u32 (values ! 4));
                headerFieldArrLength = unat (the_u32 (values ! 6));
                serial = the_u32 (values ! 5);
                messageType = message_type_of (case values ! 1 of VFixed (FU8 w) \<Rightarrow> w | _ \<Rightarrow> 0);
                (sz, nrOfPaddingBytes) =
                  AddPaddingToSize (u32 (FIRST_HEADER_PART_SIZE + headerFieldArrLength)) DBUS_MESSAGE_BODY_ALIGNMENT;
                toRead = u32 (usub32 sz FIRST_HEADER_PART_SIZE + messageLength)
            in if length rest < toRead then Waiting
               else let rawFullReply = first @ take toRead rest;
                        headerSize = u32 (FIRST_HEADER_PART_SIZE + headerFieldArrLength) in
                 round_end
                   (if headerSize > length rawFullReply then Inl UndefinedBehaviour
                    else bindE (UnmarshalDBusHeader junk n (take headerSize rawFullReply) serial messageType
                          headerFieldArrLength messageLength) (\<lambda>header.
                      Inr \<lparr> m_header = header,
                        in_messageBody = drop (u32 (headerSize + nrOfPaddingBytes)) rawFullReply \<rparr>))
                   (drop toRead rest))"

text \<open>The messages of a stream and the exceptions caught, until it waits for more bytes or a round is broken, which is then
  the last of the list; every round reads at least 16 bytes.\<close>

function ReadLoop_messages :: "(nat \<Rightarrow> nat \<Rightarrow> 8 word) \<Rightarrow> nat \<Rightarrow> 8 word list \<Rightarrow> IncomingDBusMessage result list" where
  "ReadLoop_messages junk n stream =
     (case ReadLoop_round junk n stream of
        Waiting \<Rightarrow> []
      | Finished r rest \<Rightarrow> r # ReadLoop_messages junk n rest
      | Broken e \<Rightarrow> [Inl e])"
  by pat_completeness auto

lemma ReadLoop_round_consumes:
  "ReadLoop_round junk n stream = Finished r rest \<Longrightarrow> length rest + 16 \<le> length stream"
  by (auto simp: ReadLoop_round_def Let_def FIRST_HEADER_PART_SIZE_def round_end_cases split: if_splits sum.splits prod.splits)

termination ReadLoop_messages
  by (relation "measure (\<lambda>(junk, n, stream). length stream)") (auto dest: ReadLoop_round_consumes)

declare ReadLoop_messages.simps [simp del]

section \<open>A message of the test suite\<close>

lemma test_method_call:
  "Serialize (DBusMessage_Method ''Hi'' (MkObjectPath ''/'')) 7 =
   Inr [108, 1, 0, 1, 0, 0, 0, 0, 7, 0, 0, 0, 27, 0, 0, 0,
        1, 1, 111, 0, 1, 0, 0, 0, 47, 0, 0, 0, 0, 0, 0, 0,
        3, 1, 115, 0, 2, 0, 0, 0, 72, 105, 0, 0, 0, 0, 0, 0]"
  by code_simp

end
