(* ===== verification/MessageRoundtrip.thy ===== *)
theory MessageRoundtrip
  imports Safety Messages
begin

text \<open>
  The composition of the builder, the marshalling code, the read loop's framing and the header
  parser: a message the library builds and sends is received, by the library, as the message that was
  sent. The section on fields says what each header field of a message holds.
\<close>

section \<open>The fields a message sends\<close>

text \<open>\<open>sent_field m hf\<close> is the content of the header field \<open>hf\<close> of \<open>m\<close>, if it is sent.\<close>

fun sent_field :: "DBusMessage \<Rightarrow> HeaderFieldCode \<Rightarrow> dval option" where
  "sent_field m HF_PATH =
     (if m_messageType m \<in> {MT_METHOD_CALL, MT_SIGNAL}
      then map_option (\<lambda>p. VString ObjectPathString (GetPath p)) (m_path m) else None)"
| "sent_field m HF_INTERFACE = map_option (\<lambda>i. VString InterfaceString (interface_name i)) (m_interface m)"
| "sent_field m HF_MEMBER =
     (if m_messageType m \<in> {MT_METHOD_CALL, MT_SIGNAL}
      then map_option (VString StdString) (m_method m) else None)"
| "sent_field m HF_ERROR_NAME =
     (if m_messageType m = MT_ERROR then map_option (VString StdString) (m_errorName m) else None)"
| "sent_field m HF_REPLY_SERIAL =
     (if m_messageType m \<in> {MT_ERROR, MT_METHOD_RETURN}
      then map_option (\<lambda>s. VFixed (FU32 s)) (m_replySerial m) else None)"
| "sent_field m HF_DESTINATION =
     (case m_destination m of Some d \<Rightarrow> if d \<noteq> [] then Some (VString StdString d) else None | None \<Rightarrow> None)"
| "sent_field m HF_SIGNATURE =
     (if m_messageBody m \<noteq> []
      then map_option (\<lambda>s. VString SignatureString (GetSignature s)) (m_signature m) else None)"
| "sent_field m _ = None"

text \<open>A message with everything its type requires.\<close>

definition complete :: "DBusMessage \<Rightarrow> bool" where
  "complete m \<longleftrightarrow>
     m_messageType m \<in> {MT_METHOD_CALL, MT_METHOD_RETURN, MT_ERROR, MT_SIGNAL} \<and>
     (m_messageType m \<in> {MT_METHOD_CALL, MT_SIGNAL} \<longrightarrow>
        (\<exists>p \<in> set_option (m_path m). \<not> ObjectPath_Empty p) \<and> (\<exists>s \<in> set_option (m_method m). s \<noteq> [])) \<and>
     (m_messageType m = MT_SIGNAL \<longrightarrow> (\<exists>i \<in> set_option (m_interface m). \<not> InterfaceName_empty i)) \<and>
     (m_messageType m = MT_ERROR \<longrightarrow> (\<exists>s \<in> set_option (m_errorName m). s \<noteq> [])) \<and>
     (m_messageType m \<in> {MT_ERROR, MT_METHOD_RETURN} \<longrightarrow> m_replySerial m \<noteq> None) \<and>
     (m_messageBody m \<noteq> [] \<longrightarrow> (\<exists>s \<in> set_option (m_signature m). \<not> Signature_Empty s))"

definition opt_field :: "DBusMessage \<Rightarrow> HeaderFieldCode \<Rightarrow> (HeaderFieldCode \<times> dval) list" where
  "opt_field m hf = (case sent_field m hf of None \<Rightarrow> [] | Some c \<Rightarrow> [(hf, c)])"

text \<open>The fields in the order they are written: those of the table, then the optional interface, then
  the destination.\<close>

definition sent_fields :: "DBusMessage \<Rightarrow> (HeaderFieldCode \<times> dval) list" where
  "sent_fields m =
     opt_field m HF_PATH @ (if m_messageType m = MT_SIGNAL then opt_field m HF_INTERFACE else []) @
     opt_field m HF_MEMBER @ opt_field m HF_ERROR_NAME @ opt_field m HF_REPLY_SERIAL @ opt_field m HF_SIGNATURE @
     (if m_messageType m = MT_SIGNAL then [] else opt_field m HF_INTERFACE) @ opt_field m HF_DESTINATION"

lemma header_fields_sent:
  assumes "complete m"
  shows "header_fields m = Inr (map (\<lambda>(hf, c). (hf, Variant_Create c)) (sent_fields m))"
proof -
  consider "m_messageType m = MT_METHOD_CALL" | "m_messageType m = MT_METHOD_RETURN"
    | "m_messageType m = MT_ERROR" | "m_messageType m = MT_SIGNAL"
    using assms by (auto simp: complete_def)
  then show ?thesis
  proof cases
    case 1
    then show ?thesis
      using assms
      by (cases "m_messageBody m = []"; cases "m_interface m"; cases "m_destination m")
        (auto simp: complete_def header_fields_def HEADER_FIELDS_def require_def sent_fields_def opt_field_def Let_def)
  next
    case 2
    then show ?thesis
      using assms
      by (cases "m_messageBody m = []"; cases "m_interface m"; cases "m_destination m")
        (auto simp: complete_def header_fields_def HEADER_FIELDS_def require_def sent_fields_def opt_field_def Let_def)
  next
    case 3
    then show ?thesis
      using assms
      by (cases "m_messageBody m = []"; cases "m_interface m"; cases "m_destination m")
        (auto simp: complete_def header_fields_def HEADER_FIELDS_def require_def sent_fields_def opt_field_def Let_def)
  next
    case 4
    then show ?thesis
      using assms
      by (cases "m_messageBody m = []"; cases "m_destination m")
        (auto simp: complete_def header_fields_def HEADER_FIELDS_def require_def sent_fields_def opt_field_def Let_def)
  qed
qed

lemma map_of_opt_field: "map_of (opt_field m hf) hf' = (if hf = hf' then sent_field m hf else None)"
  by (simp add: opt_field_def split: option.splits)

lemma map_of_sent_fields: "map_of (sent_fields m) hf = sent_field m hf"
  by (cases hf) (simp_all add: sent_fields_def map_add_def map_of_opt_field split: option.splits)

lemma length_opt_field: "length (opt_field m hf) \<le> 1"
  by (simp add: opt_field_def split: option.splits)

lemma length_sent_fields: "length (sent_fields m) \<le> 7"
  using length_opt_field [of m HF_PATH] length_opt_field [of m HF_INTERFACE] length_opt_field [of m HF_MEMBER]
    length_opt_field [of m HF_ERROR_NAME] length_opt_field [of m HF_REPLY_SERIAL]
    length_opt_field [of m HF_SIGNATURE] length_opt_field [of m HF_DESTINATION]
  by (simp add: sent_fields_def)

lemma set_opt_field: "(hf, c) \<in> set (opt_field m k) \<longleftrightarrow> hf = k \<and> sent_field m k = Some c"
  by (auto simp: opt_field_def split: option.splits)

lemma set_sent_fields: "(hf, c) \<in> set (sent_fields m) \<Longrightarrow> sent_field m hf = Some c"
  by (auto simp: sent_fields_def set_opt_field split: if_splits simp del: sent_field.simps)

lemma required_types:
  "(\<exists>f \<in> set HEADER_FIELDS. decimalCode f = HF_PATH \<and> mt \<in> set (requiredMessageType f)) \<longleftrightarrow> mt = MT_METHOD_CALL \<or> mt = MT_SIGNAL"
  "(\<exists>f \<in> set HEADER_FIELDS. decimalCode f = HF_INTERFACE \<and> mt \<in> set (requiredMessageType f)) \<longleftrightarrow> mt = MT_SIGNAL \<or> mt = MT_NONE"
  "(\<exists>f \<in> set HEADER_FIELDS. decimalCode f = HF_MEMBER \<and> mt \<in> set (requiredMessageType f)) \<longleftrightarrow> mt = MT_METHOD_CALL \<or> mt = MT_SIGNAL"
  "(\<exists>f \<in> set HEADER_FIELDS. decimalCode f = HF_ERROR_NAME \<and> mt \<in> set (requiredMessageType f)) \<longleftrightarrow> mt = MT_ERROR \<or> mt = MT_NONE"
  "(\<exists>f \<in> set HEADER_FIELDS. decimalCode f = HF_REPLY_SERIAL \<and> mt \<in> set (requiredMessageType f)) \<longleftrightarrow> mt = MT_ERROR \<or> mt = MT_METHOD_RETURN"
  "(\<exists>f \<in> set HEADER_FIELDS. decimalCode f = HF_SENDER \<and> mt \<in> set (requiredMessageType f)) \<longleftrightarrow> mt = MT_OPTIONAL"
  "(\<exists>f \<in> set HEADER_FIELDS. decimalCode f = HF_DESTINATION \<and> mt \<in> set (requiredMessageType f)) \<longleftrightarrow> mt = MT_OPTIONAL"
  by (simp_all add: HEADER_FIELDS_def)

section \<open>Messages that can be sent\<close>

text \<open>
  What the callers of the builder provide: the names passed their constructors, no string has a null
  character inside or is longer than a message may be, and the signature has at most 255 characters.
\<close>

definition plain :: "string \<Rightarrow> bool" where
  "plain s \<longleftrightarrow> CHR 0x00 \<notin> set s \<and> length s < 67108864"

definition message_ok :: "DBusMessage \<Rightarrow> bool" where
  "message_ok m \<longleftrightarrow> complete m \<and>
     (\<forall>p \<in> set_option (m_path m). ValidateDBusObjectPath (GetPath p) = None \<and> plain (GetPath p)) \<and>
     (\<forall>i \<in> set_option (m_interface m). ValidateDBusInterfaceName (interface_name i) = None \<and>
        plain (interface_name i)) \<and>
     (\<forall>s \<in> set_option (m_method m). plain s) \<and>
     (\<forall>s \<in> set_option (m_errorName m). plain s) \<and>
     (\<forall>s \<in> set_option (m_destination m). plain s) \<and>
     (\<forall>s \<in> set_option (m_signature m). plain (GetSignature s) \<and> length (GetSignature s) < 256)"

definition basic_content :: "dval \<Rightarrow> bool" where
  "basic_content c \<longleftrightarrow>
     (case c of VFixed (FU32 w) \<Rightarrow> True
      | VString st s \<Rightarrow> valid_string st s \<and> plain s \<and> (st = SignatureString \<longrightarrow> length s < 256)
      | _ \<Rightarrow> False)"

lemma basic_contentE:
  assumes "basic_content c"
  obtains (u32) w where "c = VFixed (FU32 w)"
    | (str) st s where "c = VString st s" "valid_string st s" "plain s" "st = SignatureString \<longrightarrow> length s < 256"
  using assms by (auto simp: basic_content_def split: dval.splits fixval.splits)

lemma sent_field_basic: "message_ok m \<Longrightarrow> sent_field m hf = Some c \<Longrightarrow> basic_content c"
  by (cases hf) (auto simp: message_ok_def basic_content_def valid_string_def split: if_splits option.splits)

lemma basic_content_variant:
  assumes "basic_content c"
  shows "wt (Variant_Create c) \<and> sendable (Variant_Create c) \<and> walkable (Variant_Create c) \<and>
    content (Variant_Create c) = Some c"
  using assms
proof (cases rule: basic_contentE)
  case (u32 w)
  then show ?thesis by (simp add: Variant_Create_def Let_def SMALL_BUFFER_SIZE_def mem_size_def sig_fits_def)
next
  case (str st s)
  have "sig_fits (TString st)" by (cases st) (simp_all add: sig_fits_def)
  moreover have "CHR 0x00 \<notin> set (GetTypeSignature (TString st))" by (rule signature_no_null)
  ultimately show ?thesis
    using str wt_Variant_Create [of c] c_string_small_buffer_id [of s]
    by (auto simp: Variant_Create_string plain_def SMALL_BUFFER_SIZE_def simp del: GetTypeSignature.simps)
qed

section \<open>The bytes of a message\<close>

definition field_elem :: "HeaderFieldCode \<times> dval \<Rightarrow> dval" where
  "field_elem f = field_value (fst f, Variant_Create (snd f))"

definition header_array :: "DBusMessage \<Rightarrow> dval" where
  "header_array m = VArr None (TTuple [TFixed U8, TVariant]) (map field_elem (sent_fields m))"

definition fixed_header :: "DBusMessage \<Rightarrow> 32 word \<Rightarrow> dval list" where
  "fixed_header m serial =
     [VFixed (FU8 108), VFixed (FU8 (message_type_code (m_messageType m))), VFixed (FU8 (m_flags m)),
      VFixed (FU8 1), VFixed (FU32 (word_of_nat (length (m_messageBody m)))), VFixed (FU32 serial)]"

definition fixed_bytes :: "DBusMessage \<Rightarrow> 32 word \<Rightarrow> 8 word list" where
  "fixed_bytes m serial = [108, message_type_code (m_messageType m), m_flags m, 1] @
     le_bytes 4 (length (m_messageBody m)) @ le_bytes 4 (unat serial)"

text \<open>The header fields as they follow the first 16 bytes.\<close>

definition field_bytes :: "DBusMessage \<Rightarrow> 8 word list" where
  "field_bytes m = wires GA (\<lambda>_. 8) (map field_elem (sent_fields m)) 16"

definition header_bytes :: "DBusMessage \<Rightarrow> 32 word \<Rightarrow> 8 word list" where
  "header_bytes m serial = fixed_bytes m serial @ le_bytes 4 (length (field_bytes m)) @ field_bytes m"

definition message_bytes :: "DBusMessage \<Rightarrow> 32 word \<Rightarrow> 8 word list" where
  "message_bytes m serial = header_bytes m serial @
     zeros (padn 8 (length (header_bytes m serial))) @ m_messageBody m"

lemma length_fixed_bytes [simp]: "length (fixed_bytes m serial) = 12"
  by (simp add: fixed_bytes_def)

lemma length_header_bytes: "length (header_bytes m serial) = 16 + length (field_bytes m)"
  by (simp add: header_bytes_def)

lemma header_array_body: "body GA (header_array m) 12 = le_bytes 4 (length (field_bytes m)) @ field_bytes m"
  by (simp add: header_array_def field_bytes_def padn_def zeros_def Let_def)

lemma wire_fixed_FU8: "wire_fixed (FU8 w) = [w]"
  by (simp add: wire_fixed_def)

lemma wire_fixed_FU32: "wire_fixed (FU32 w) = le_bytes 4 (unat w)"
  by (simp add: wire_fixed_def)

lemma le_bytes_word: "le_bytes 4 (unat (word_of_nat n :: 32 word)) = le_bytes 4 n"
  using wire_fixed_U32 [of n] by (simp only: wire_fixed_FU32)

lemma wires_VFixed:
  "F (TFixed (fix_type x)) dvd p \<Longrightarrow>
   wires A F (VFixed x # vs) p = wire_fixed x @ wires A F vs (p + wire_size (fix_type x))"
  by (simp add: padn_aligned zeros_def Let_def)

lemma wires_aligned: "F (type_of v) dvd p \<Longrightarrow> wires A F [v] p = body A v p"
  by (simp add: padn_aligned zeros_def Let_def)

lemma type_of_header_array: "type_of (header_array m) = TArr None (TTuple [TFixed U8, TVariant])"
  by (simp add: header_array_def)

lemma header_wires: "wires GA GA (fixed_header m serial @ [header_array m]) 0 = header_bytes m serial"
  unfolding fixed_header_def append_Cons append_Nil header_bytes_def fixed_bytes_def
  by (simp add: wires_VFixed wires_aligned type_of_header_array header_array_body
      wire_fixed_FU8 wire_fixed_FU32 le_bytes_word del: wires.simps le_bytes.simps One_nat_def)


lemma sent_fields_basic: "message_ok m \<Longrightarrow> (hf, c) \<in> set (sent_fields m) \<Longrightarrow> basic_content c"
  by (rule sent_field_basic [OF _ set_sent_fields])

lemma header_array_ok:
  assumes "message_ok m"
  shows "wt (header_array m) \<and> sendable (header_array m)"
proof -
  have "wt (field_elem f) \<and> sendable (field_elem f)" if "f \<in> set (sent_fields m)" for f
    using basic_content_variant [OF sent_fields_basic [OF assms, of "fst f" "snd f"]] that
    by (simp add: field_elem_def field_value_def wt_elems_iff)
  moreover have "type_of (field_elem f) = TTuple [TFixed U8, TVariant]" for f
    by (simp add: field_elem_def field_value_def)
  ultimately show ?thesis by (simp add: header_array_def wt_elems_iff)
qed

lemma header_values_sent:
  "header_values m serial (map (\<lambda>(hf, c). (hf, Variant_Create c)) (sent_fields m)) =
   fixed_header m serial @ [header_array m]"
  by (simp add: header_values_def fixed_header_def header_array_def field_elem_def case_prod_unfold comp_def)

lemma wires_fit_VFixed:
  "F (TFixed (fix_type x)) dvd p \<Longrightarrow> wires_fit F (VFixed x # vs) p = wires_fit F vs (p + wire_size (fix_type x))"
  by (simp add: padn_aligned Let_def)

lemma wires_fit_aligned: "F (type_of v) dvd p \<Longrightarrow> wires_fit F [v] p = arrays_fit v p"
  by (simp add: padn_aligned Let_def)

lemma header_wires_fit:
  assumes "length (field_bytes m) < 67108000"
  shows "wires_fit GA (fixed_header m serial @ [header_array m]) 0"
proof -
  have "arrays_fit (header_array m) 12"
    using assms by (intro arrays_fit_small) (simp add: header_array_body)
  then show ?thesis
    by (simp add: fixed_header_def wires_fit_VFixed wires_fit_aligned type_of_header_array
        del: wires_fit.simps One_nat_def)
qed

lemma marshal_header:
  assumes "message_ok m" and "length (field_bytes m) < 67108000"
  shows "MarshalMultipleCompleteTypes (fixed_header m serial @ [header_array m]) = Inr (header_bytes m serial)"
proof -
  let ?bs = "[] :: 8 word list"
  have "marshal_seq GA (fixed_header m serial @ [header_array m]) ?bs =
      appends (wires_fit GA (fixed_header m serial @ [header_array m]) (length ?bs)) ?bs
        (wires GA GA (fixed_header m serial @ [header_array m]) (length ?bs))"
  proof (rule marshal_seq_wires)
    show "marshals v" if "v \<in> set (fixed_header m serial @ [header_array m])" for v
      using that header_array_ok [OF assms(1)] by (intro wt_marshals) (auto simp: fixed_header_def)
    show "length ?bs + length (wires GA GA (fixed_header m serial @ [header_array m]) (length ?bs)) < 4294967296"
      using assms(2) by (simp only: list.size(3) header_wires length_header_bytes)
  qed simp_all
  then show ?thesis
    using header_wires_fit [OF assms(2), of serial]
    by (simp add: MarshalMultipleCompleteTypes_def MarshalMultiple_seq header_wires)
qed

lemma serialize_message:
  assumes "message_ok m" and "length (field_bytes m) < 67108000"
  shows "Serialize m serial = Inr (message_bytes m serial)"
proof -
  have "complete m" using assms(1) by (simp add: message_ok_def)
  then show ?thesis
    using marshal_header [OF assms, of serial]
    by (simp add: Serialize_def CreateDBusMessage_def header_fields_sent header_values_sent ApplyPadding_padn
        message_bytes_def DBUS_MESSAGE_BODY_ALIGNMENT_def)
qed

section \<open>Reading the header fields\<close>

text \<open>What the header array's parser delivers for a field: its code, and the undecoded content.\<close>

definition field_received :: "HeaderFieldCode \<times> dval \<Rightarrow> dval \<Rightarrow> bool" where
  "field_received f u \<longleftrightarrow> (\<exists>p. GA (type_of (snd f)) dvd p \<and>
     u = VTuple [VFixed (FU8 (header_field_code (fst f))),
       VFastDeser (GetTypeSignature (type_of (snd f))) (body GA (snd f) p)])"

inductive_cases received_fixedE: "received (VFixed x) u"
inductive_cases received_stringE: "received (VString st s) u"
inductive_cases received_tupleE: "received (VTuple vs) u"
inductive_cases received_arrayE: "received (VArr n t vs) u"

lemma received_variant:
  assumes "received v u" and "type_of u = TFastVariant" and "content v = Some c"
  shows "\<exists>p. GA (type_of c) dvd p \<and> u = VFastDeser (GetTypeSignature (type_of c)) (body GA c p)"
  using assms by (cases rule: received.cases) auto

lemma received_field:
  assumes "basic_content c" and "received (field_elem (hf, c)) u" and "type_of u = TTuple [TFixed U8, TFastVariant]"
  shows "field_received (hf, c) u"
proof -
  obtain a b where u: "u = VTuple [a, b]" and a: "received (VFixed (FU8 (header_field_code hf))) a"
    and b: "received (Variant_Create c) b" "type_of b = TFastVariant"
    using assms(2,3) by (auto simp: field_elem_def field_value_def list_all2_Cons1 elim!: received_tupleE)
  have "a = VFixed (FU8 (header_field_code hf))" using a by (auto elim: received_fixedE)
  then show ?thesis
    using received_variant [OF b] basic_content_variant [OF assms(1)] u by (auto simp: field_received_def)
qed

lemma find_field_received:
  "list_all2 field_received fs us \<Longrightarrow> (case map_of fs hf of None \<Rightarrow> find_field hf us = None
   | Some c \<Rightarrow> \<exists>p. GA (type_of c) dvd p \<and>
       find_field hf us = Some (VFastDeser (GetTypeSignature (type_of c)) (body GA c p)))"
proof (induction rule: list_all2_induct)
  case Nil
  then show ?case by (simp add: find_field_def)
next
  case (Cons f fs u us)
  obtain k c where f: "f = (k, c)" by (cases f)
  with Cons(1) obtain p where p: "GA (type_of c) dvd p" and
    u: "u = VTuple [VFixed (FU8 (header_field_code k)), VFastDeser (GetTypeSignature (type_of c)) (body GA c p)]"
    by (auto simp: field_received_def)
  have k: "unat (header_field_code k) = unat (header_field_code hf) \<longleftrightarrow> k = hf"
    by (simp flip: word_unat_eq_iff)
  show ?case
  proof (cases "k = hf")
    case True
    then show ?thesis using f u p by (auto simp: find_field_def field_code_def field_variant_def)
  next
    case False
    then have "find_field hf (u # us) = find_field hf us"
      using k u by (simp add: find_field_def field_code_def)
    then show ?thesis using Cons.IH False f by (auto split: option.splits)
  qed
qed

lemma body_basic: "basic_content c \<Longrightarrow> body GA c p = body GA c 0 \<and> wt c \<and> accepts (type_of c) c \<and> pads GA a c"
  by (erule basic_contentE) auto

lemma read_content:
  assumes "basic_content c" and "GA (type_of c) dvd p" and "length (body GA c 0) < 67108864"
    and "length (body GA c 0) < n"
  shows "Variant_UnmarshalData junk n (type_of c) (VFastDeser (GetTypeSignature (type_of c)) (body GA c p)) = Inr c"
proof -
  have b: "body GA c p = body GA c 0" "wt c" "accepts (type_of c) c" "pads GA (GA (type_of c)) c"
    using body_basic [OF assms(1)] by auto
  have l: "length (body GA c p) < 67108864" "length (body GA c p) < n" using assms(3,4) b(1) by simp_all
  obtain u where u: "UnmarshalDBusTypeImpl junk n (type_of c) (body GA c p) 0 = Inr (u, length (body GA c p))"
    "received c u" "type_of u = type_of c"
    using unmarshal_content [OF b(2-4) assms(2), of "body GA c p" "[]"] l by auto
  have "variant_free (type_of c)" using assms(1) by (cases rule: basic_contentE) simp_all
  then have "u = c" by (rule received_same [OF u(2) b(2) u(3)])
  then show ?thesis using u(1) by simp
qed

lemma length_field_elem:
  assumes "basic_content c"
  shows "length (body GA c 0) \<le> length (body GA (field_elem (hf, c)) p)"
proof -
  obtain w where w: "\<And>q. body GA c q = w" using body_basic [OF assms] by blast
  show ?thesis
    using basic_content_variant [OF assms] body_variant [of "Variant_Create c" c GA] w
    by (simp add: field_elem_def field_value_def Let_def)
qed

lemma length_content_le:
  "(hf, c) \<in> set fs \<Longrightarrow> basic_content c \<Longrightarrow>
   length (body GA c 0) \<le> length (wires GA F (map field_elem fs) q)"
proof (induction fs arbitrary: q)
  case (Cons f fs)
  show ?case
  proof (cases "f = (hf, c)")
    case True
    then show ?thesis
      using length_field_elem [OF Cons.prems(2), of hf "q + padn (F (type_of (field_elem f))) q"]
      by (simp add: Let_def)
  next
    case False
    then have "length (body GA c 0) \<le> length (wires GA F (map field_elem fs) r)" for r
      using Cons by simp
    then show ?thesis by (simp add: Let_def trans_le_add2)
  qed
qed simp

lemma read_sent:
  assumes ok: "message_ok m" and us: "list_all2 field_received (sent_fields m) us"
    and b: "length (field_bytes m) < 67108000" "length (field_bytes m) < n"
    and T: "\<forall>c. sent_field m hf = Some c \<longrightarrow> type_of c = T"
  shows "read_field junk n us hf T conv = Inr (map_option conv (sent_field m hf))"
proof (cases "sent_field m hf")
  case None
  then show ?thesis using find_field_received [OF us, of hf] by (simp add: read_field_def map_of_sent_fields)
next
  case (Some c)
  then have c: "basic_content c" "(hf, c) \<in> set (sent_fields m)"
    using sent_field_basic [OF ok] map_of_SomeD [of "sent_fields m" hf c] by (simp_all add: map_of_sent_fields)
  have "length (body GA c 0) \<le> length (field_bytes m)"
    unfolding field_bytes_def by (rule length_content_le [OF c(2,1)])
  moreover obtain p where "GA (type_of c) dvd p"
    "find_field hf us = Some (VFastDeser (GetTypeSignature (type_of c)) (body GA c p))"
    using find_field_received [OF us, of hf] Some by (auto simp: map_of_sent_fields)
  ultimately show ?thesis
    using read_content [OF c(1), of p n junk] b T Some
    by (simp add: read_field_def del: Variant_UnmarshalData.simps)
qed

lemma find_sent:
  "list_all2 field_received (sent_fields m) us \<Longrightarrow> find_field hf us = None \<longleftrightarrow> sent_field m hf = None"
  using find_field_received [of "sent_fields m" us hf] by (auto simp: map_of_sent_fields split: option.splits)

lemma completeD:
  assumes "complete m"
  shows "m_messageType m \<in> {MT_METHOD_CALL, MT_METHOD_RETURN, MT_ERROR, MT_SIGNAL}"
    and "m_messageType m = MT_METHOD_CALL \<or> m_messageType m = MT_SIGNAL \<Longrightarrow> \<exists>p s. m_path m = Some p \<and> m_method m = Some s"
    and "m_messageType m = MT_SIGNAL \<Longrightarrow> \<exists>i. m_interface m = Some i"
    and "m_messageType m = MT_ERROR \<Longrightarrow> \<exists>s. m_errorName m = Some s"
    and "m_messageType m = MT_ERROR \<or> m_messageType m = MT_METHOD_RETURN \<Longrightarrow> \<exists>s. m_replySerial m = Some s"
    and "m_messageBody m \<noteq> [] \<Longrightarrow> \<exists>s. m_signature m = Some s"
  using assms by (simp_all add: complete_def) blast+

lemma check_sent:
  assumes c: "complete m" and us: "list_all2 field_received (sent_fields m) us"
  shows "check_required (m_messageType m) us HF_REPLY_SERIAL = Inr ()"
    and "check_required (m_messageType m) us HF_PATH = Inr ()"
    and "check_required (m_messageType m) us HF_INTERFACE = Inr ()"
    and "check_required (m_messageType m) us HF_MEMBER = Inr ()"
    and "check_required (m_messageType m) us HF_SENDER = Inr ()"
    and "check_required (m_messageType m) us HF_DESTINATION = Inr ()"
    and "check_required (m_messageType m) us HF_ERROR_NAME = Inr ()"
  unfolding check_required_def required_types find_sent [OF us]
  using completeD [OF c] by auto

text \<open>What the receiver holds of a message sent directly: the optional fields that apply to its type. The
  sender is the daemon's to add, and the destination is read from it.\<close>

definition received_header :: "DBusMessage \<Rightarrow> 32 word \<Rightarrow> ReplyData" where
  "received_header m serial =
     (let call = m_messageType m \<in> {MT_METHOD_CALL, MT_SIGNAL} in
      \<lparr> rd_serial = serial,
        rd_replySerial = (if m_messageType m \<in> {MT_ERROR, MT_METHOD_RETURN} then m_replySerial m else None),
        rd_messageType = m_messageType m,
        rd_objectPath = (if call then m_path m else None), rd_interface = m_interface m,
        rd_member = (if call then m_method m else None),
        rd_errorName = (if m_messageType m = MT_ERROR then m_errorName m else None),
        rd_signature = (if m_messageBody m \<noteq> [] then m_signature m else None),
        rd_sender = None, rd_destination = None,
        rd_messageLength = length (m_messageBody m), rd_headerFieldLength = length (field_bytes m) \<rparr>)"

abbreviation header_type :: cty where "header_type \<equiv> TArr None (TTuple [TFixed U8, TFastVariant])"

lemma header_array_parsed:
  assumes ok: "message_ok m" and b: "length (field_bytes m) < 67108000" "length (header_bytes m serial) < n"
  shows "\<exists>us. UnmarshalDBusType_at junk n header_type (header_bytes m serial) ''a(yv)'' 12 =
      Inr (VArr None (TTuple [TFixed U8, TFastVariant]) us, length (header_bytes m serial)) \<and>
    list_all2 field_received (sent_fields m) us"
proof -
  let ?buf = "header_bytes m serial"
  have "accepts (TTuple [TFixed U8, TFastVariant]) (field_elem f)" if "f \<in> set (sent_fields m)" for f
    using basic_content_variant [OF sent_fields_basic [OF ok, of "fst f" "snd f"]] that
    by (simp add: field_elem_def field_value_def)
  then have a: "accepts header_type (header_array m)" by (simp add: header_array_def)
  have w: "wt (header_array m)" using header_array_ok [OF ok] by blast
  have "?buf = fixed_bytes m serial @ body GA (header_array m) 12 @ []"
    by (simp add: header_bytes_def header_array_body)
  then have h: "holds ?buf 12 (body GA (header_array m) 12)"
    using b(1) holds_middle [of "fixed_bytes m serial" 12 "body GA (header_array m) 12" "[]"]
    by (simp add: length_header_bytes header_array_body)
  obtain u where u: "UnmarshalDBusTypeImpl junk n header_type ?buf 12 = Inr (u, 12 + length (body GA (header_array m) 12))"
    "received (header_array m) u" "type_of u = header_type"
    by (rule parsesE [OF parses_all [OF b(2) a w, of junk] _ h])
      (simp add: field_alignment_def)
  then obtain us where us: "u = VArr None (TTuple [TFixed U8, TFastVariant]) us"
    "list_all2 (\<lambda>v u. received v u \<and> type_of u = TTuple [TFixed U8, TFastVariant]) (map field_elem (sent_fields m)) us"
    by (auto simp: header_array_def elim!: received_arrayE)
  have "list_all2 field_received (sent_fields m) us"
    using us(2) unfolding list_all2_map1
    by (rule list.rel_mono_strong) (auto intro!: received_field sent_fields_basic [OF ok])
  moreover have "check_signature ''a(yv)'' (GetTypeSignature header_type) = Inr ()" by code_simp
  ultimately show ?thesis
    using u(1) us(1) by (simp add: UnmarshalDBusType_at_def header_array_body length_header_bytes
        del: UnmarshalDBusTypeImpl.simps)
qed

lemma sent_field_types:
  "\<forall>c. sent_field m HF_REPLY_SERIAL = Some c \<longrightarrow> type_of c = TFixed U32"
  "\<forall>c. sent_field m HF_PATH = Some c \<longrightarrow> type_of c = TString ObjectPathString"
  "\<forall>c. sent_field m HF_INTERFACE = Some c \<longrightarrow> type_of c = TString InterfaceString"
  "\<forall>c. sent_field m HF_MEMBER = Some c \<longrightarrow> type_of c = TString StdString"
  "\<forall>c. sent_field m HF_ERROR_NAME = Some c \<longrightarrow> type_of c = TString StdString"
  "\<forall>c. sent_field m HF_SIGNATURE = Some c \<longrightarrow> type_of c = TString SignatureString"
  "\<forall>c. sent_field m HF_SENDER = Some c \<longrightarrow> type_of c = TString StdString"
  by (auto split: if_splits option.splits)

lemma sent_fields_read:
  "map_option the_u32 (sent_field m HF_REPLY_SERIAL) =
     (if m_messageType m \<in> {MT_ERROR, MT_METHOD_RETURN} then m_replySerial m else None)"
  "map_option (\<lambda>u. MkObjectPath (the_string u)) (sent_field m HF_PATH) =
     (if m_messageType m \<in> {MT_METHOD_CALL, MT_SIGNAL} then m_path m else None)"
  "map_option (\<lambda>u. MkInterfaceName (the_string u)) (sent_field m HF_INTERFACE) = m_interface m"
  "map_option the_string (sent_field m HF_MEMBER) =
     (if m_messageType m \<in> {MT_METHOD_CALL, MT_SIGNAL} then m_method m else None)"
  "map_option the_string (sent_field m HF_ERROR_NAME) =
     (if m_messageType m = MT_ERROR then m_errorName m else None)"
  "map_option (\<lambda>u. MkSignature (the_string u)) (sent_field m HF_SIGNATURE) =
     (if m_messageBody m \<noteq> [] then m_signature m else None)"
  by (simp_all add: option.map_comp comp_def option.map_ident)

lemma header_parsed:
  assumes ok: "message_ok m" and b: "length (field_bytes m) < 67108000" "length (header_bytes m serial) < n"
  shows "UnmarshalDBusHeader junk n (header_bytes m serial) serial (m_messageType m) (length (field_bytes m))
      (length (m_messageBody m)) = Inr (received_header m serial)"
proof -
  obtain us where arr: "UnmarshalDBusType_at junk n header_type (header_bytes m serial) ''a(yv)'' 12 =
      Inr (VArr None (TTuple [TFixed U8, TFastVariant]) us, length (header_bytes m serial))"
    and us: "list_all2 field_received (sent_fields m) us"
    using header_array_parsed [OF assms] by blast
  have c: "complete m" using ok by (simp add: message_ok_def)
  have n: "length (field_bytes m) < n" using b(2) by (simp add: length_header_bytes)
  note rd = read_sent [OF ok us b(1) n, of _ _ junk]
  note reads = rd [OF sent_field_types(1)] rd [OF sent_field_types(2)] rd [OF sent_field_types(3)]
    rd [OF sent_field_types(4)] rd [OF sent_field_types(5)] rd [OF sent_field_types(6)] rd [OF sent_field_types(7)]
  have sg: "\<not> (sent_field m HF_SIGNATURE = None \<and> length (m_messageBody m) \<noteq> 0)"
    using completeD(6) [OF c] by auto
  have sender: "map_option the_string (sent_field m HF_SENDER) = None" by simp
  have p: "FIRST_HEADER_PART_SIZE - 4 = 12" by (simp add: FIRST_HEADER_PART_SIZE_def)
  show ?thesis
    unfolding UnmarshalDBusHeader_def p arr bindE_simps prod.case Let_def dval.case find_sent [OF us]
      check_sent [OF c us] reads sent_fields_read sender if_not_P [OF sg]
    by (simp add: received_header_def Let_def)
qed

section \<open>Reading a message\<close>

lemma multiple_read:
  assumes a: "list_all2 accepts Ts vs" and w: "\<And>v. v \<in> set vs \<Longrightarrow> wt v" and n: "length buf < n"
    and h: "holds buf 0 (wires GA GA vs 0)"
  shows "\<exists>us. UnmarshalDBusBasicMultipleCompleteTypes junk n Ts buf 0 = Inr (us, length (wires GA GA vs 0)) \<and>
    list_all2 received vs us \<and> map type_of us = Ts"
proof -
  let ?fs = "map (\<lambda>t. (GA t, UnmarshalDBusTypeImpl junk n t)) Ts"
  have l: "length Ts = length vs" using a by (rule list_all2_lengthD)
  have acc: "accepts (Ts ! i) (vs ! i)" "wt (vs ! i)" if "i < length vs" for i
    using list_all2_nthD2 [OF a that] w that by simp_all
  have "\<exists>us. UnmarshalFields ?fs buf 0 = Inr (us, 0 + length (wires GA GA vs 0)) \<and>
      list_all2 received vs us \<and> map type_of us = Ts"
  proof (rule unmarshal_fields)
    show "parses buf (snd (?fs ! i)) (Ts ! i) (vs ! i)" if "i < length vs" for i
      using parses_all [OF n acc [OF that], of junk] that l by simp
    show "fst (?fs ! i) = GA (type_of (vs ! i)) \<and> 0 < GA (type_of (vs ! i)) \<and>
        field_alignment (type_of (vs ! i)) dvd GA (type_of (vs ! i))" if "i < length vs" for i
      using GA_wire_eq [OF accepts_wire_type [OF acc [OF that]]] that l by (simp add: field_alignment_dvd)
  qed (use h l in auto)
  then show ?thesis by (simp add: UnmarshalDBusBasicMultipleCompleteTypes_def)
qed

lemma received_same_list:
  "list_all2 received vs us \<Longrightarrow> map type_of us = map type_of vs \<Longrightarrow>
   \<forall>v \<in> set vs. wt v \<and> variant_free (type_of v) \<Longrightarrow> us = vs"
  by (induction rule: list_all2_induct) (auto intro: received_same)

lemma first_part_read:
  assumes b: "length (m_messageBody m) < 4294967296" "length (field_bytes m) < 67108000" and n: "16 < n"
  shows "UnmarshalMultipleCompleteTypes junk n first_part_types
      (fixed_bytes m serial @ le_bytes 4 (length (field_bytes m))) ''yyyyuuu'' =
    Inr (fixed_header m serial @ [VFixed (FU32 (word_of_nat (length (field_bytes m))))])"
proof -
  let ?buf = "fixed_bytes m serial @ le_bytes 4 (length (field_bytes m))"
  let ?vs = "fixed_header m serial @ [VFixed (FU32 (word_of_nat (length (field_bytes m))))]"
  have w: "wires GA GA ?vs 0 = ?buf"
    unfolding fixed_header_def append_Cons append_Nil fixed_bytes_def
    by (simp add: wires_VFixed wires_aligned wire_fixed_FU8 wire_fixed_FU32 le_bytes_word
        del: wires.simps(2) le_bytes.simps One_nat_def)
  have fixed: "wt v" "variant_free (type_of v)" if "v \<in> set ?vs" for v using that by (auto simp: fixed_header_def)
  have ts: "first_part_types = map type_of ?vs" by (simp add: first_part_types_def fixed_header_def)
  have acc: "list_all2 accepts (map type_of ?vs) ?vs"
    unfolding fixed_header_def by simp
  have "\<exists>us. UnmarshalDBusBasicMultipleCompleteTypes junk n (map type_of ?vs) ?buf 0 =
      Inr (us, length (wires GA GA ?vs 0)) \<and> list_all2 received ?vs us \<and> map type_of us = map type_of ?vs"
  proof (rule multiple_read [OF acc fixed(1)])
    show "length ?buf < n" using n by simp
    show "holds ?buf 0 (wires GA GA ?vs 0)" unfolding w by (simp add: holds_def)
  qed
  then obtain us where us: "UnmarshalDBusBasicMultipleCompleteTypes junk n first_part_types ?buf 0 = Inr (us, length ?buf)" "list_all2 received ?vs us"
    "map type_of us = map type_of ?vs"
    unfolding w ts by blast
  have "us = ?vs"
    by (rule received_same_list [OF us(2,3)]) (use fixed in blast)
  moreover have "check_signature ''yyyyuuu'' (BuildMultipleCompleteTypesSignature first_part_types) = Inr ()"
    by code_simp
  ultimately show ?thesis
    using us(1) by (simp add: UnmarshalMultipleCompleteTypes_def)
qed

definition sent_message :: "DBusMessage \<Rightarrow> 32 word \<Rightarrow> IncomingDBusMessage" where
  "sent_message m serial = \<lparr> m_header = received_header m serial, in_messageBody = m_messageBody m \<rparr>"

definition message_small :: "DBusMessage \<Rightarrow> bool" where
  "message_small m \<longleftrightarrow> length (field_bytes m) + length (m_messageBody m) < 67108000"

lemma length_message_bytes:
  "length (message_bytes m serial) = 16 + length (field_bytes m) + padn 8 (length (field_bytes m)) + length (m_messageBody m)"
proof -
  have "padn 8 (16 + length (field_bytes m)) = padn 8 (length (field_bytes m))" by (rule padn_mod [of 8 8]) (simp, presburger)
  then show ?thesis by (simp add: message_bytes_def length_header_bytes)
qed

text \<open>What the first 16 bytes of a message tell the loop: how many more to wait for.\<close>

definition first_bytes :: "DBusMessage \<Rightarrow> 32 word \<Rightarrow> 8 word list" where
  "first_bytes m serial = fixed_bytes m serial @ le_bytes 4 (length (field_bytes m))"

definition rest_bytes :: "DBusMessage \<Rightarrow> 8 word list" where
  "rest_bytes m = field_bytes m @ zeros (padn 8 (16 + length (field_bytes m))) @ m_messageBody m"

lemma message_bytes_split: "message_bytes m serial = first_bytes m serial @ rest_bytes m"
  by (simp add: message_bytes_def header_bytes_def length_header_bytes first_bytes_def rest_bytes_def)

lemma length_first_bytes [simp]: "length (first_bytes m serial) = 16"
  by (simp add: first_bytes_def)

lemma round_after_first:
  assumes ok: "complete m" and small: "message_small m" and n: "16 < n"
  shows "ReadLoop_round junk n (first_bytes m serial @ r) =
    (if length r < length (rest_bytes m) then Waiting
     else round_end (bindE (UnmarshalDBusHeader junk n
         (take (16 + length (field_bytes m)) (first_bytes m serial @ take (length (rest_bytes m)) r))
         serial (m_messageType m) (length (field_bytes m)) (length (m_messageBody m)))
       (\<lambda>header. Inr \<lparr> m_header = header, in_messageBody =
         drop (16 + length (field_bytes m) + padn 8 (16 + length (field_bytes m)))
           (first_bytes m serial @ take (length (rest_bytes m)) r) \<rparr>))
       (drop (length (rest_bytes m)) r))"
proof -
  let ?fl = "length (field_bytes m)" and ?bl = "length (m_messageBody m)"
  let ?pad = "padn 8 (16 + ?fl)"
  have bounds: "?fl + ?bl < 67108000" "?pad < 8"
    using small padn_less [of 8 "16 + ?fl"] by (simp_all add: message_small_def)
  have mt: "message_type_of (message_type_code (m_messageType m)) = m_messageType m"
    using completeD(1) [OF ok] by (intro message_type_of_code) auto
  have read: "UnmarshalMultipleCompleteTypes junk n first_part_types (first_bytes m serial) ''yyyyuuu'' =
      Inr (fixed_header m serial @ [VFixed (FU32 (word_of_nat ?fl))])"
    unfolding first_bytes_def by (rule first_part_read) (use bounds n in simp_all)
  have pad: "AddPaddingToSize (16 + ?fl) 8 = (16 + ?fl + ?pad, ?pad)"
    using bounds by (simp add: AddPaddingToSize_def Let_def padn_def)
  have toRead: "u32 (usub32 (16 + ?fl + ?pad) 16 + ?bl) = length (rest_bytes m)"
    using bounds by (simp add: rest_bytes_def)
  have w: "unat (word_of_nat ?fl :: 32 word) = ?fl" "unat (word_of_nat ?bl :: 32 word) = ?bl"
    using bounds by (simp_all add: unat_of_nat)
  have hs: "u32 (16 + ?fl) = 16 + ?fl" "u32 (16 + ?fl + ?pad) = 16 + ?fl + ?pad" using bounds by simp_all
  have fhps: "FIRST_HEADER_PART_SIZE = 16" by (simp add: FIRST_HEADER_PART_SIZE_def)
  have f16: "take 16 (first_bytes m serial @ r) = first_bytes m serial" "drop 16 (first_bytes m serial @ r) = r"
    "\<not> length (first_bytes m serial @ r) < 16" by simp_all
  have vals: "(fixed_header m serial @ [VFixed (FU32 (word_of_nat ?fl))]) ! 4 = VFixed (FU32 (word_of_nat ?bl))"
    "(fixed_header m serial @ [VFixed (FU32 (word_of_nat ?fl))]) ! 6 = VFixed (FU32 (word_of_nat ?fl))"
    "(fixed_header m serial @ [VFixed (FU32 (word_of_nat ?fl))]) ! 5 = VFixed (FU32 serial)"
    "(fixed_header m serial @ [VFixed (FU32 (word_of_nat ?fl))]) ! 1 = VFixed (FU8 (message_type_code (m_messageType m)))"
    by (simp_all add: fixed_header_def)
  have ub: "\<not> 16 + ?fl > length (first_bytes m serial @ take (length (rest_bytes m)) r)"
    if "\<not> length r < length (rest_bytes m)" using that by (simp add: rest_bytes_def)
  show ?thesis
    unfolding ReadLoop_round_def fhps DBUS_MESSAGE_BODY_ALIGNMENT_def f16 if_not_P [OF f16(3)] Let_def
      read sum.case vals the_u32.simps w dval.case fixval.case mt hs pad prod.case toRead
    using ub by simp
qed

lemma round_reads_message:
  assumes ok: "message_ok m" and small: "message_small m" and n: "length (message_bytes m serial) < n"
  shows "ReadLoop_round junk n (message_bytes m serial @ rest) = Finished (Inr (sent_message m serial)) rest"
proof -
  let ?fl = "length (field_bytes m)"
  have "complete m" using ok by (simp add: message_ok_def)
  moreover have n16: "16 < n" "length (header_bytes m serial) < n"
    using n by (simp_all add: message_bytes_split rest_bytes_def length_header_bytes)
  moreover have "UnmarshalDBusHeader junk n (header_bytes m serial) serial (m_messageType m) ?fl
      (length (m_messageBody m)) = Inr (received_header m serial)"
    by (rule header_parsed [OF ok]) (use small n16 in \<open>simp_all add: message_small_def\<close>)
  moreover have "take (16 + ?fl) (first_bytes m serial @ rest_bytes m) = header_bytes m serial"
    "drop (16 + ?fl + padn 8 (16 + ?fl)) (first_bytes m serial @ rest_bytes m) = m_messageBody m"
    by (simp_all add: first_bytes_def rest_bytes_def header_bytes_def)
  moreover have "take (length (rest_bytes m)) (rest_bytes m @ rest) = rest_bytes m"
    "drop (length (rest_bytes m)) (rest_bytes m @ rest) = rest" by simp_all
  ultimately show ?thesis
    using round_after_first [OF _ small, of n junk serial "rest_bytes m @ rest"]
    by (simp add: message_bytes_split sent_message_def round_end_def del: take_append drop_append)
qed

lemma round_short: "length s < 16 \<Longrightarrow> ReadLoop_round junk n s = Waiting"
  by (simp add: ReadLoop_round_def FIRST_HEADER_PART_SIZE_def)

lemma round_waits:
  assumes ok: "message_ok m" and small: "message_small m" and n: "16 < n" and k: "k < length (message_bytes m serial)"
  shows "ReadLoop_round junk n (take k (message_bytes m serial)) = Waiting"
proof (cases "k < 16")
  case True
  then show ?thesis by (intro round_short) simp
next
  case False
  have "take k (message_bytes m serial) = first_bytes m serial @ take (k - 16) (rest_bytes m)"
    using False by (simp add: message_bytes_split)
  moreover have "length (take (k - 16) (rest_bytes m)) < length (rest_bytes m)"
    using k False by (simp add: message_bytes_split)
  moreover have "complete m" using ok by (simp add: message_ok_def)
  ultimately show ?thesis using round_after_first [OF _ small n, of junk serial] by (simp del: length_take)
qed

section \<open>Properties: sending and receiving\<close>

text \<open>C7: A message of the builder that has every field its type requires, whose names are valid and
  contain no null characters, is serialised, and one round of the peer's read loop, given these bytes
  and anything after them, delivers exactly that message (with no sender and destination, which the
  daemon adds) and leaves what followed.\<close>

theorem message_roundtrip:
  assumes "message_ok m" and "message_small m" and "length (message_bytes m serial) < n"
  shows "\<exists>out. Serialize m serial = Inr out \<and> length out = length (message_bytes m serial) \<and>
    ReadLoop_round junk n (out @ rest) = Finished (Inr (sent_message m serial)) rest"
  using serialize_message [OF assms(1)] round_reads_message [OF assms] assms(2)
  by (simp add: message_small_def)

definition example_signal :: DBusMessage where
  "example_signal = (DBusMessage_Signal ''Changed'' (MkObjectPath ''/a'') (MkInterfaceName ''a.b''))
     \<lparr> m_signature := Some (MkSignature ''y''), m_messageBody := [5] \<rparr>"

lemma example_signal_ok: "message_ok example_signal \<and> message_small example_signal \<and>
    length (message_bytes example_signal 3) < 200"
  by code_simp

theorem message_roundtrip_witness:
  "\<exists>out. Serialize example_signal 3 = Inr out \<and> length out = length (message_bytes example_signal 3) \<and>
    ReadLoop_round no_junk 200 (out @ [9]) = Finished (Inr (sent_message example_signal 3)) [9]"
  using example_signal_ok by (intro message_roundtrip) simp_all

definition messages_bytes :: "(DBusMessage \<times> 32 word) list \<Rightarrow> 8 word list" where
  "messages_bytes ms = concat (map (\<lambda>(m, serial). message_bytes m serial) ms)"

lemma messages_step:
  "ReadLoop_round junk n s = Finished r rest \<Longrightarrow> ReadLoop_messages junk n s = r # ReadLoop_messages junk n rest"
  by (subst ReadLoop_messages.simps) simp

lemma stream_cut:
  assumes "\<And>m serial. (m, serial) \<in> set ms \<Longrightarrow> message_ok m \<and> message_small m \<and> length (message_bytes m serial) < n"
  shows "ReadLoop_messages junk n (messages_bytes ms @ rest) =
    map (\<lambda>(m, serial). Inr (sent_message m serial)) ms @ ReadLoop_messages junk n rest"
  using assms
proof (induction ms)
  case (Cons y ms)
  obtain m serial where y: "y = (m, serial)" by (cases y)
  let ?rest = "messages_bytes ms @ rest"
  have "ReadLoop_round junk n (message_bytes m serial @ ?rest) = Finished (Inr (sent_message m serial)) ?rest"
    using Cons.prems [of m serial] y by (intro round_reads_message) simp_all
  moreover have "ReadLoop_messages junk n ?rest = map (\<lambda>(m, serial). Inr (sent_message m serial)) ms @ ReadLoop_messages junk n rest"
    by (rule Cons.IH) (use Cons.prems in auto)
  moreover have "messages_bytes (y # ms) @ rest = message_bytes m serial @ ?rest"
    by (simp add: y messages_bytes_def)
  ultimately show ?case using messages_step by (simp add: y)
qed (simp add: messages_bytes_def)

text \<open>C8: The messages of a sequence are cut out of the stream one by one and in the order they were sent,
  whatever their lengths, and the next message is not delivered while its last byte is missing.\<close>

theorem stream_roundtrip:
  assumes "\<And>m serial. (m, serial) \<in> set (next # ms) \<Longrightarrow>
      message_ok m \<and> message_small m \<and> length (message_bytes m serial) < n"
    and "k < length (messages_bytes [next])"
  shows "ReadLoop_messages junk n (messages_bytes ms @ take k (messages_bytes [next])) =
    map (\<lambda>(m, serial). Inr (sent_message m serial)) ms"
proof -
  obtain m serial where x: "next = (m, serial)" by (cases "next")
  have ok: "message_ok m" "message_small m" "length (message_bytes m serial) < n" using assms(1) [of m serial] x by simp_all
  have "16 < n" using ok(3) by (simp add: length_message_bytes)
  then have "ReadLoop_round junk n (take k (message_bytes m serial)) = Waiting"
    using ok x assms(2) by (intro round_waits) (simp_all add: messages_bytes_def)
  then have "ReadLoop_messages junk n (take k (messages_bytes [next])) = []"
    by (subst ReadLoop_messages.simps) (simp add: messages_bytes_def x)
  moreover have "ReadLoop_messages junk n (messages_bytes ms @ take k (messages_bytes [next])) =
      map (\<lambda>(m, serial). Inr (sent_message m serial)) ms @ ReadLoop_messages junk n (take k (messages_bytes [next]))"
    by (rule stream_cut) (use assms(1) in auto)
  ultimately show ?thesis by simp
qed

lemma example_signal_length: "length (message_bytes example_signal s) = 73"
proof -
  have "length (message_bytes example_signal 3) = 73" by code_simp
  then show ?thesis by (simp add: length_message_bytes)
qed

theorem stream_roundtrip_witness:
  "ReadLoop_messages no_junk 200
     (messages_bytes [(example_signal, 3), (example_signal, 4)] @ take 30 (messages_bytes [(example_signal, 5)])) =
   map (\<lambda>(m, serial). Inr (sent_message m serial)) [(example_signal, 3), (example_signal, 4)]"
proof (rule stream_roundtrip)
  show "message_ok m \<and> message_small m \<and> length (message_bytes m serial) < 200"
    if "(m, serial) \<in> set [(example_signal, 5), (example_signal, 3), (example_signal, 4)]" for m serial
    using that example_signal_ok example_signal_length by auto
  show "30 < length (messages_bytes [(example_signal, 5)])"
    by (simp add: messages_bytes_def example_signal_length)
qed

text \<open>C28: Serialising a message of one of the four types refuses, with \<^verbatim>\<open>DBusSerializationError\<close>, exactly those in
  which a field required for the type or the signature of a body is missing or empty, provided the rest
  can be marshalled.\<close>

theorem incomplete_refused:
  assumes "m_messageType m \<in> {MT_METHOD_CALL, MT_METHOD_RETURN, MT_ERROR, MT_SIGNAL}" and "\<not> complete m"
  shows "Serialize m serial = Inl DBusSerializationError"
proof -
  have "header_fields m = Inl DBusSerializationError"
  proof -
    note defs = header_fields_def HEADER_FIELDS_def require_def bindE_def
    consider "m_messageType m = MT_METHOD_CALL" | "m_messageType m = MT_METHOD_RETURN"
      | "m_messageType m = MT_ERROR" | "m_messageType m = MT_SIGNAL"
      using assms(1) by auto
    then show ?thesis
      by cases (use assms(2) in \<open>auto simp: complete_def defs split: option.splits if_splits\<close>)
  qed
  then show ?thesis by (simp add: Serialize_def CreateDBusMessage_def)
qed

theorem incomplete_refused_witness:
  "Serialize (DBusMessage_Method '''' (MkObjectPath ''/a'')) 1 = Inl DBusSerializationError"
  by (rule incomplete_refused) (simp_all add: DBusMessage_Method_def new_DBusMessage_def complete_def)

text \<open>Whatever header is parsed, the destination it reports is the sender: the field is looked up under
  the sender's code.\<close>

theorem destination_is_sender:
  assumes "UnmarshalDBusHeader junk n buf serial mt fieldLength messageLength = Inr h"
  shows "rd_destination h = rd_sender h"
  using assms unfolding UnmarshalDBusHeader_def
  by (auto simp: bindE_Inr_iff Let_def split: if_splits)

text \<open>A header with the fields SENDER \<^verbatim>\<open>:1.5\<close> and DESTINATION \<^verbatim>\<open>:1.9\<close>.\<close>

definition forwarded_header :: "8 word list" where
  "forwarded_header = [108, 9, 0, 1, 0, 0, 0, 0, 7, 0, 0, 0, 29, 0, 0, 0,
     7, 1, 115, 0, 4, 0, 0, 0, 58, 49, 46, 53, 0, 0, 0, 0,
     6, 1, 115, 0, 4, 0, 0, 0, 58, 49, 46, 57, 0]"

theorem destination_is_sender_witness:
  "\<exists>h. UnmarshalDBusHeader no_junk 9 forwarded_header 7 MT_INVALID 29 0 = Inr h \<and>
     rd_sender h = Some '':1.5'' \<and> rd_destination h = rd_sender h"
proof -
  have "map_option rd_sender (case UnmarshalDBusHeader no_junk 9 forwarded_header 7 MT_INVALID 29 0 of
      Inl e \<Rightarrow> None | Inr h \<Rightarrow> Some h) = Some (Some '':1.5'')"
    by code_simp
  then obtain h where "UnmarshalDBusHeader no_junk 9 forwarded_header 7 MT_INVALID 29 0 = Inr h" "rd_sender h = Some '':1.5''"
    by (auto split: sum.splits)
  then show ?thesis using destination_is_sender by blast
qed

text \<open>Every round cuts off one frame, whose bytes alone decide what comes of it.\<close>

lemma round_frame:
  assumes "ReadLoop_round junk n stream \<noteq> Waiting"
  shows "\<exists>frame rest r. stream = frame @ rest \<and> 16 \<le> length frame \<and>
    (\<forall>t. ReadLoop_round junk n (frame @ t) = round_end r t)"
proof -
  have fhps: "FIRST_HEADER_PART_SIZE = 16" by (simp add: FIRST_HEADER_PART_SIZE_def)
  define first where "first = take 16 stream"
  define tail where "tail = drop 16 stream"
  have s: "stream = first @ tail" and l16: "\<not> length stream < 16"
    using assms by (auto simp: first_def tail_def round_short)
  have lf: "length first = 16" using l16 by (simp add: first_def)
  show ?thesis
  proof (cases "UnmarshalMultipleCompleteTypes junk n first_part_types first ''yyyyuuu''")
    case (Inl e)
    then have "\<forall>t. ReadLoop_round junk n (first @ t) = round_end (Inl e) t"
      using lf by (simp add: ReadLoop_round_def fhps Let_def)
    then show ?thesis using s lf by (metis order_refl)
  next
    case (Inr vals)
    let ?ap = "AddPaddingToSize (u32 (16 + unat (the_u32 (vals ! 6)))) DBUS_MESSAGE_BODY_ALIGNMENT"
    define k where "k = u32 (usub32 (fst ?ap) 16 + unat (the_u32 (vals ! 4)))"
    obtain g where g: "\<And>t. ReadLoop_round junk n (first @ t) =
        (if length t < k then Waiting else round_end (g (take k t)) (drop k t))"
    proof
      show "ReadLoop_round junk n (first @ t) = (if length t < k then Waiting
          else round_end ((\<lambda>body. let rawFullReply = first @ body;
              headerSize = u32 (16 + unat (the_u32 (vals ! 6))) in
              (if headerSize > length rawFullReply then Inl UndefinedBehaviour
               else bindE (UnmarshalDBusHeader junk n (take headerSize rawFullReply) (the_u32 (vals ! 5))
                   (message_type_of (case vals ! 1 of VFixed (FU8 w) \<Rightarrow> w | _ \<Rightarrow> 0))
                   (unat (the_u32 (vals ! 6))) (unat (the_u32 (vals ! 4)))) (\<lambda>header.
                 Inr \<lparr> m_header = header, in_messageBody = drop (u32 (headerSize + snd ?ap)) rawFullReply \<rparr>)))
            (take k t)) (drop k t))" for t
        using lf Inr by (simp add: ReadLoop_round_def fhps Let_def k_def split: prod.split)
    qed
    have k: "\<not> length tail < k" using assms g [of tail] s by (auto split: if_splits)
    have "ReadLoop_round junk n ((first @ take k tail) @ t) = round_end (g (take k tail)) t" for t
      using g [of "take k tail @ t"] k by simp
    then show ?thesis
      using s lf by (intro exI [of _ "first @ take k tail"] exI [of _ "drop k tail"]) auto
  qed
qed

text \<open>C27: What a round reads, and what comes of it, depend on the bytes of its own frame only. A message is delivered, and a
  malformed one that makes the decoders throw is reported, and in both cases the loop continues right behind the frame, with
  whatever follows; a frame on which the decoders are undefined, or have not returned within the fuel, is the last the loop
  looks at.\<close>

theorem frame_self_contained:
  assumes "ReadLoop_round junk n stream \<noteq> Waiting"
  shows "\<exists>frame rest r. stream = frame @ rest \<and> 16 \<le> length frame \<and>
    ReadLoop_round junk n stream = round_end r rest \<and>
    (\<forall>t. ReadLoop_messages junk n (frame @ t) =
      (case r of Inl e \<Rightarrow> if thrown e then Inl e # ReadLoop_messages junk n t else [Inl e]
       | Inr message \<Rightarrow> Inr message # ReadLoop_messages junk n t))"
proof -
  obtain frame rest r where f: "stream = frame @ rest" "16 \<le> length frame"
      "\<And>t. ReadLoop_round junk n (frame @ t) = round_end r t"
    using round_frame [OF assms] by blast
  have "ReadLoop_messages junk n (frame @ t) =
      (case r of Inl e \<Rightarrow> if thrown e then Inl e # ReadLoop_messages junk n t else [Inl e]
       | Inr message \<Rightarrow> Inr message # ReadLoop_messages junk n t)" for t
    by (subst ReadLoop_messages.simps) (simp add: f(3) round_end_def split: sum.split)
  then show ?thesis using f by blast
qed

theorem frame_self_contained_witness:
  "\<exists>frame rest r. [108, 1, 0, 1, 0, 0, 0, 0, 7, 0, 0, 0, 0, 0, 0, 0, 5, 6] = frame @ rest \<and> 16 \<le> length frame \<and>
    round_end r rest = Finished (Inl DBusMalformedInputError) [5, 6] \<and>
    (\<forall>t. ReadLoop_messages no_junk 20 (frame @ t) =
      (case r of Inl e \<Rightarrow> if thrown e then Inl e # ReadLoop_messages no_junk 20 t else [Inl e]
       | Inr message \<Rightarrow> Inr message # ReadLoop_messages no_junk 20 t))"
proof -
  have r: "ReadLoop_round no_junk 20 [108, 1, 0, 1, 0, 0, 0, 0, 7, 0, 0, 0, 0, 0, 0, 0, 5, 6] =
      Finished (Inl DBusMalformedInputError) [5, 6]"
    by code_simp
  have "ReadLoop_round no_junk 20 [108, 1, 0, 1, 0, 0, 0, 0, 7, 0, 0, 0, 0, 0, 0, 0, 5, 6] \<noteq> Waiting"
    unfolding r by simp
  from frame_self_contained [OF this] obtain frame rest x where
      "[108, 1, 0, 1, 0, 0, 0, 0, 7, 0, 0, 0, 0, 0, 0, 0, 5, 6] = frame @ rest" "16 \<le> length frame"
      "Finished (Inl DBusMalformedInputError) [5, 6] = round_end x rest"
      "\<forall>t. ReadLoop_messages no_junk 20 (frame @ t) =
        (case x of Inl e \<Rightarrow> if thrown e then Inl e # ReadLoop_messages no_junk 20 t else [Inl e]
         | Inr message \<Rightarrow> Inr message # ReadLoop_messages no_junk 20 t)"
    unfolding r by blast
  then show ?thesis by (intro exI [of _ frame] exI [of _ rest] exI [of _ x]) simp
qed

end
