(* ===== verification/MatchRule.thy ===== *)
theory MatchRule
  imports MessageRoundtrip "HOL-Library.Sublist"
begin

text \<open>
  Match rules: \<^verbatim>\<open>src/src/DBusMatchRule.h\<close> and \<^verbatim>\<open>src/src/DBusMatchRule.cpp\<close>. A rule is built criterion by
  criterion, written as the text the daemon is sent, and evaluated on incoming signals, for which the
  string arguments are collected by walking over the message body.
\<close>

section \<open>Building a rule\<close>

text \<open>The index of an argument is a \<^verbatim>\<open>uint8_t\<close>.\<close>

record ArgInfo =
  ai_name :: string
  ai_index :: "8 word"

record DBusMatchRule =
  mr_messageType :: "DBusMessageType option"
  mr_sender :: "string option"
  mr_interface :: "DBusInterfaceName option"
  mr_member :: "string option"
  mr_path :: "ObjectPath option"
  mr_pathNamespace :: "ObjectPath option"
  mr_destination :: "DBusUniqueConnectionName option"
  mr_args :: "ArgInfo list"
  mr_argPaths :: "ArgInfo list"
  mr_argNamespace :: "string option"
  mr_eavesdrop :: "bool option"

definition MatchRule_Create :: DBusMatchRule where
  "MatchRule_Create =
     \<lparr> mr_messageType = None, mr_sender = None, mr_interface = None, mr_member = None, mr_path = None,
       mr_pathNamespace = None, mr_destination = None, mr_args = [], mr_argPaths = [],
       mr_argNamespace = None, mr_eavesdrop = None \<rparr>"

definition MatchRule_Type :: "DBusMessageType \<Rightarrow> DBusMatchRule \<Rightarrow> DBusMatchRule result" where
  "MatchRule_Type messageType r =
     (case messageType of
        MT_INVALID \<Rightarrow> Inl InvalidDBusMatchRule
      | MT_NONE \<Rightarrow> Inl InvalidDBusMatchRule
      | MT_OPTIONAL \<Rightarrow> Inl InvalidDBusMatchRule
      | _ \<Rightarrow> Inr (r\<lparr> mr_messageType := Some messageType \<rparr>))"

text \<open>\<^verbatim>\<open>std::variant\<close> of names: a sum.\<close>

definition MatchRule_Sender :: "DBusWellKnownName + DBusUniqueConnectionName \<Rightarrow> DBusMatchRule \<Rightarrow> DBusMatchRule" where
  "MatchRule_Sender senderName r =
     r\<lparr> mr_sender := Some (case senderName of Inl n \<Rightarrow> well_known_name n | Inr n \<Rightarrow> unique_name n) \<rparr>"

definition MatchRule_Interface :: "DBusInterfaceName \<Rightarrow> DBusMatchRule \<Rightarrow> DBusMatchRule" where
  "MatchRule_Interface interface r = r\<lparr> mr_interface := Some interface \<rparr>"

definition MatchRule_Member :: "string \<Rightarrow> DBusMatchRule \<Rightarrow> DBusMatchRule" where
  "MatchRule_Member member r = r\<lparr> mr_member := Some member \<rparr>"

definition MatchRule_Path :: "ObjectPath \<Rightarrow> DBusMatchRule \<Rightarrow> DBusMatchRule result" where
  "MatchRule_Path path r =
     (if mr_pathNamespace r \<noteq> None then Inl InvalidDBusMatchRule
      else Inr (r\<lparr> mr_path := Some path \<rparr>))"

definition MatchRule_PathNamespace :: "ObjectPath \<Rightarrow> DBusMatchRule \<Rightarrow> DBusMatchRule result" where
  "MatchRule_PathNamespace path r =
     (if mr_path r \<noteq> None then Inl InvalidDBusMatchRule
      else Inr (r\<lparr> mr_pathNamespace := Some path \<rparr>))"

definition MatchRule_Destination :: "DBusUniqueConnectionName \<Rightarrow> DBusMatchRule \<Rightarrow> DBusMatchRule" where
  "MatchRule_Destination destination r = r\<lparr> mr_destination := Some destination \<rparr>"

definition MatchRule_Argument :: "8 word \<Rightarrow> string \<Rightarrow> DBusMatchRule \<Rightarrow> DBusMatchRule result" where
  "MatchRule_Argument index member r =
     (if index > 63 then Inl InvalidDBusMatchRule
      else Inr (r\<lparr> mr_args := mr_args r @ [\<lparr> ai_name = member, ai_index = index \<rparr>] \<rparr>))"

definition MatchRule_ArgumentPath :: "8 word \<Rightarrow> string \<Rightarrow> DBusMatchRule \<Rightarrow> DBusMatchRule result" where
  "MatchRule_ArgumentPath index member r =
     (if index > 63 then Inl InvalidDBusMatchRule
      else Inr (r\<lparr> mr_argPaths := mr_argPaths r @ [\<lparr> ai_name = member, ai_index = index \<rparr>] \<rparr>))"

definition MatchRule_ArgumentNamespace ::
    "DBusWellKnownName + DBusUniqueConnectionName + string \<Rightarrow> DBusMatchRule \<Rightarrow> DBusMatchRule" where
  "MatchRule_ArgumentNamespace name r =
     r\<lparr> mr_argNamespace := Some (case name of Inl n \<Rightarrow> well_known_name n
        | Inr (Inl n) \<Rightarrow> unique_name n | Inr (Inr s) \<Rightarrow> s) \<rparr>"

definition MatchRule_EavesDrop :: "bool \<Rightarrow> DBusMatchRule \<Rightarrow> DBusMatchRule" where
  "MatchRule_EavesDrop eavesdrop r = r\<lparr> mr_eavesdrop := Some eavesdrop \<rparr>"

section \<open>The text of a rule\<close>

text \<open>\<^verbatim>\<open>MESSAGE_TYPE_STRINGS\<close> has four entries; the index is the type's code minus one.\<close>

definition MESSAGE_TYPE_STRINGS :: "string list" where
  "MESSAGE_TYPE_STRINGS = [''method_call'', ''method_return'', ''error'', ''signal'']"

definition message_type_string :: "DBusMessageType \<Rightarrow> string result" where
  "message_type_string t =
     (let i = unat (message_type_code t) in
      if 1 \<le> i \<and> i \<le> 4 then Inr (MESSAGE_TYPE_STRINGS ! (i - 1)) else Inl UndefinedBehaviour)"

text \<open>\<^verbatim>\<open>std::format("{}", n)\<close> of an unsigned number.\<close>

fun decimal :: "nat \<Rightarrow> string" where
  "decimal n = (if n < 10 then [char_of (48 + n)] else decimal (n div 10) @ [char_of (48 + n mod 10)])"

declare decimal.simps [simp del]

definition ADD_TO_RULE :: "string \<Rightarrow> string \<Rightarrow> string \<Rightarrow> string" where
  "ADD_TO_RULE key val str = (if str \<noteq> [] then str @ '','' else str) @ key @ ''='' @ [CHR 0x27] @ val @ [CHR 0x27]"

definition ADD_TO_RULE_CHECK_OPTIONAL :: "string option \<Rightarrow> string \<Rightarrow> string \<Rightarrow> string" where
  "ADD_TO_RULE_CHECK_OPTIONAL member key str =
     (case member of Some v \<Rightarrow> ADD_TO_RULE key v str | None \<Rightarrow> str)"

definition arg_key :: "ArgInfo \<Rightarrow> string" where
  "arg_key a = ''arg'' @ decimal (unat (ai_index a))"

definition GetRule :: "DBusMatchRule \<Rightarrow> string result" where
  "GetRule r =
     bindE (case mr_messageType r of None \<Rightarrow> Inr [] | Some t \<Rightarrow>
         bindE (message_type_string t) (\<lambda>s. Inr (ADD_TO_RULE ''type'' s []))) (\<lambda>rule0.
       let rule1 = ADD_TO_RULE_CHECK_OPTIONAL (mr_sender r) ''sender'' rule0;
           rule2 = ADD_TO_RULE_CHECK_OPTIONAL (map_option interface_name (mr_interface r)) ''interface'' rule1;
           rule3 = ADD_TO_RULE_CHECK_OPTIONAL (mr_member r) ''member'' rule2;
           rule4 = ADD_TO_RULE_CHECK_OPTIONAL (map_option GetPath (mr_path r)) ''path'' rule3;
           rule5 = ADD_TO_RULE_CHECK_OPTIONAL (map_option GetPath (mr_pathNamespace r)) ''path_namespace'' rule4;
           rule6 = ADD_TO_RULE_CHECK_OPTIONAL (map_option unique_name (mr_destination r)) ''destination'' rule5;
           rule7 = fold (\<lambda>a. ADD_TO_RULE (arg_key a) (ai_name a)) (mr_args r) rule6;
           rule8 = fold (\<lambda>a. ADD_TO_RULE (arg_key a @ ''path'') (ai_name a)) (mr_argPaths r) rule7;
           rule9 = ADD_TO_RULE_CHECK_OPTIONAL (mr_argNamespace r) ''arg0namespace'' rule8;
           rule = ADD_TO_RULE_CHECK_OPTIONAL
             (map_option (\<lambda>b. if b then ''true'' else ''false'') (mr_eavesdrop r)) ''eavesdrop'' rule9
       in if rule = [] then Inl EmptyDBusMatchRule else Inr rule)"

section \<open>Walking over the arguments of a message\<close>

record walk_state =
  ws_pointer :: nat
  ws_argIndex :: nat
  ws_stringArgs :: "(nat \<times> string) list"
  ws_objectPathArgs :: "(nat \<times> ObjectPath) list"

text \<open>\<^verbatim>\<open>std::unordered_map::insert\<close> keeps an entry that is there.\<close>

definition map_insert :: "nat \<Rightarrow> 'a \<Rightarrow> (nat \<times> 'a) list \<Rightarrow> (nat \<times> 'a) list" where
  "map_insert k v m = (case map_of m k of None \<Rightarrow> m @ [(k, v)] | Some _ \<Rightarrow> m)"

text \<open>\<^verbatim>\<open>std::span{messageBody.begin() + pointer, count}\<close>; forming an iterator behind the end is undefined.\<close>

definition span_of :: "8 word list \<Rightarrow> nat \<Rightarrow> nat \<Rightarrow> 8 word list result" where
  "span_of messageBody pointer count =
     (if pointer + count > length messageBody then Inl UndefinedBehaviour
      else Inr (take count (drop pointer messageBody)))"

text \<open>\<^verbatim>\<open>UnmarshalDBusType<uint32_t>\<close>, \<^verbatim>\<open><uint8_t>\<close>, \<^verbatim>\<open><std::string>\<close> and \<^verbatim>\<open><Signature>\<close> of a span.\<close>

definition span_number :: "fixty \<Rightarrow> 8 word list \<Rightarrow> nat \<Rightarrow> nat result" where
  "span_number f messageBody pointer =
     bindE (span_of messageBody pointer (wire_size f)) (\<lambda>s.
       bindE (UnmarshalDBusType no_junk 0 (TFixed f) s (GetTypeSignature (TFixed f))) (\<lambda>v.
         Inr (case v of VFixed x \<Rightarrow> fix_nat x | _ \<Rightarrow> 0)))"

definition span_string :: "strty \<Rightarrow> 8 word list \<Rightarrow> nat \<Rightarrow> nat \<Rightarrow> string result" where
  "span_string st messageBody pointer count =
     bindE (span_of messageBody pointer count) (\<lambda>s.
       bindE (UnmarshalDBusType no_junk 0 (TString st) s (GetTypeSignature (TString st))) (\<lambda>v.
         Inr (the_string v)))"

text \<open>\<^verbatim>\<open>signature.GetSignature()[i]\<close>: the null character at the size, undefined behind it.\<close>

definition sig_at :: "string \<Rightarrow> nat \<Rightarrow> char result" where
  "sig_at s i = (if i \<le> length s then Inr (str_at s i) else Inl UndefinedBehaviour)"

definition advance :: "nat \<Rightarrow> walk_state \<Rightarrow> walk_state" where
  "advance k st = st\<lparr> ws_pointer := u32 (ws_pointer st + k) \<rparr>"

definition skip_padding :: "nat \<Rightarrow> walk_state \<Rightarrow> walk_state" where
  "skip_padding al st = st\<lparr> ws_pointer := SkipPadding (ws_pointer st) al \<rparr>"

text \<open>The cases of the inner switch on \<^verbatim>\<open>STRING\<close>, \<^verbatim>\<open>OBJECT_PATH\<close> and \<^verbatim>\<open>SIGNATURE\<close>.\<close>

definition walk_stringlike :: "char \<Rightarrow> 8 word list \<Rightarrow> bool \<Rightarrow> walk_state \<Rightarrow> walk_state result" where
  "walk_stringlike c messageBody allowedToAddArgs st =
     (let pointer = ws_pointer st; argIndex = ws_argIndex st in
      if c = CHR ''s'' then
        bindE (span_number U32 messageBody pointer) (\<lambda>strSize.
          bindE (if allowedToAddArgs
                 then bindE (span_string StdString messageBody pointer (strSize + 4 + 1)) (\<lambda>s.
                   Inr (st\<lparr> ws_stringArgs := map_insert argIndex s (ws_stringArgs st) \<rparr>))
                 else Inr st) (\<lambda>st1. Inr (advance (strSize + 4 + 1) st1)))
      else if c = CHR ''o'' then
        bindE (span_number U32 messageBody pointer) (\<lambda>strSize.
          bindE (if allowedToAddArgs
                 then bindE (span_string StdString messageBody pointer (strSize + 4 + 1)) (\<lambda>s.
                   bindE (make_ObjectPath s) (\<lambda>path.
                     Inr (st\<lparr> ws_objectPathArgs := map_insert argIndex path (ws_objectPathArgs st) \<rparr>)))
                 else Inr st) (\<lambda>st1. Inr (advance (strSize + 4 + 1) st1)))
      else bindE (span_number U8 messageBody pointer) (\<lambda>sigSize. Inr (advance (sigSize + 1 + 1) st)))"

text \<open>The loop that looks for the closing bracket of a dictionary: the characters after index \<open>i\<close>.\<close>

fun close_dict :: "string \<Rightarrow> nat \<Rightarrow> nat \<Rightarrow> nat result" where
  "close_dict [] i bracketCounter = Inl UndefinedBehaviour"
| "close_dict (c # cs) i bracketCounter =
     (if c = CHR 0x7D then (if bracketCounter = 1 then Inr (Suc i) else close_dict cs (Suc i) (bracketCounter - 1))
      else if c = CHR 0x7B then close_dict cs (Suc i) (bracketCounter + 1)
      else close_dict cs (Suc i) bracketCounter)"

text \<open>
  \<^verbatim>\<open>WalkSignature\<close>, from index \<open>i\<close> of the signature, with fuel; \<open>walk_struct\<close> is its loop over the fields of a
  struct, and gives the index it stops at. \<^verbatim>\<open>argIndex\<close> is a \<^verbatim>\<open>uint8_t\<close>.
\<close>

fun WalkSignature :: "nat \<Rightarrow> string \<Rightarrow> 8 word list \<Rightarrow> bool \<Rightarrow> nat \<Rightarrow> walk_state \<Rightarrow> walk_state result"
and walk_struct :: "nat \<Rightarrow> string \<Rightarrow> 8 word list \<Rightarrow> nat \<Rightarrow> walk_state \<Rightarrow> (nat \<times> walk_state) result" where
  "WalkSignature 0 signature messageBody allowedToAddArgs i st = Inl OutOfFuel"
| "WalkSignature (Suc n) signature messageBody allowedToAddArgs i st =
     (if i \<ge> length signature then Inr st else
      let c = signature ! i in
      bindE (GetAlignmentOfSignature c) (\<lambda>al.
      let st0 = skip_padding al st in
      bindE
        (if IsDBusBasicFixedTypeCode c then Inr (i, advance al st0)
         else if IsDBusBasicStringlikeTypeCode c
         then bindE (walk_stringlike c messageBody allowedToAddArgs st0) (\<lambda>st1. Inr (i, st1))
         else if c = CHR ''a'' then
           bindE (sig_at signature (i + 1)) (\<lambda>d.
             if d = CHR 0x7B then Inr (i, st0)
             else bindE (span_number U32 messageBody (ws_pointer st0)) (\<lambda>arrSize.
               bindE (GetAlignmentOfSignature d) (\<lambda>eal.
                 Inr (i + 1, advance arrSize (advance 4 st0\<lparr> ws_pointer :=
                   fst (AddPaddingToSize (ws_pointer (advance 4 st0)) eal) \<rparr>)))))
         else if c = CHR 0x7B then
           bindE (span_number U32 messageBody (ws_pointer st0)) (\<lambda>dictSize.
             bindE (close_dict (drop (i + 1) signature) i 1) (\<lambda>j.
               Inr (j, advance dictSize (skip_padding al (advance 4 st0)))))
         else if c = CHR ''('' then
           bindE (walk_struct n signature messageBody (i + 1) st0) (\<lambda>(j, st1).
             Inr (j + 1, st1\<lparr> ws_argIndex := ws_argIndex st0 \<rparr>))
         else if c = CHR ''v'' then
           bindE (span_number U8 messageBody (ws_pointer st0)) (\<lambda>sigLength.
             bindE (span_string SignatureString messageBody (ws_pointer st0 + 1) sigLength) (\<lambda>varSig.
               bindE (GetAlignmentOfSignature (str_head varSig)) (\<lambda>val.
                 bindE (WalkSignature n varSig messageBody False 0 (skip_padding val (advance (sigLength + 1) st0)))
                   (\<lambda>st1. Inr (i, st1\<lparr> ws_argIndex := ws_argIndex st0 \<rparr>)))))
         else Inl InternalError)
        (\<lambda>(j, st2). WalkSignature n signature messageBody allowedToAddArgs (j + 1)
           (st2\<lparr> ws_argIndex := (ws_argIndex st2 + 1) mod 256 \<rparr>))))"
| "walk_struct 0 signature messageBody i st = Inl OutOfFuel"
| "walk_struct (Suc n) signature messageBody i st =
     bindE (sig_at signature i) (\<lambda>code.
       if code = CHR '')'' then Inr (i, st)
       else bindE (WalkSignature n [code] messageBody False 0 st) (\<lambda>st1.
         bindE (sig_at signature (i + 1)) (\<lambda>_.
           bindE (sig_at signature (i + 2)) (\<lambda>d.
             if d = CHR '')'' then Inr (i + 1, st1)
             else bindE (GetAlignmentOfSignature d) (\<lambda>al.
               walk_struct n signature messageBody (i + 1) (skip_padding al st1))))))"

declare WalkSignature.simps [simp del] walk_struct.simps [simp del]

section \<open>Matching\<close>

text \<open>\<^verbatim>\<open>SplitString\<close>: \<^verbatim>\<open>getline\<close> reads up to a delimiter or the end; empty pieces are removed at the end.\<close>

function getline_pieces :: "string \<Rightarrow> char \<Rightarrow> string list" where
  "getline_pieces s delimiter =
     (if s = [] then []
      else let temp = takeWhile (\<lambda>c. c \<noteq> delimiter) s; rest = dropWhile (\<lambda>c. c \<noteq> delimiter) s in
        if rest = [] then [temp] else temp # [delimiter] # getline_pieces (tl rest) delimiter)"
  by pat_completeness auto
termination
proof (relation "measure (\<lambda>(s, d). length s)", goal_cases)
  case (2 s d x xa)
  then have "0 < length s" "xa \<noteq> []" by auto
  then show ?case
    using 2 length_dropWhile_le [of "\<lambda>c. c \<noteq> d" s] by (simp del: length_greater_0_conv)
qed simp

declare getline_pieces.simps [simp del]

definition SplitString :: "string \<Rightarrow> char \<Rightarrow> string list" where
  "SplitString s delimiter = filter (\<lambda>p. p \<noteq> []) (getline_pieces s delimiter)"

fun IsPathPrefixed :: "string list \<Rightarrow> string list \<Rightarrow> bool" where
  "IsPathPrefixed [] toCheck = True"
| "IsPathPrefixed (r # rule) [] = False"
| "IsPathPrefixed (r # rule) (t # toCheck) = (t = r \<and> IsPathPrefixed rule toCheck)"

text \<open>\<^verbatim>\<open>s.back()\<close> is undefined for an empty string.\<close>

definition str_back_is :: "string \<Rightarrow> char \<Rightarrow> bool result" where
  "str_back_is s c = (if s = [] then Inl UndefinedBehaviour else Inr (last s = c))"

text \<open>The three alternatives of a path argument, evaluated from left to right.\<close>

definition path_arg_matches :: "string \<Rightarrow> string \<Rightarrow> bool result" where
  "path_arg_matches name argObjectPath =
     (if name = argObjectPath then Inr True
      else bindE (str_back_is name (CHR ''/'')) (\<lambda>slash.
        if slash \<and> IsPathPrefixed (SplitString name (CHR ''/'')) (SplitString argObjectPath (CHR ''/''))
        then Inr True
        else bindE (str_back_is argObjectPath (CHR ''/'')) (\<lambda>slash2.
          Inr (slash2 \<and>
            IsPathPrefixed (SplitString argObjectPath (CHR ''/'')) (SplitString name (CHR ''/''))))))"

text \<open>The loops over the arguments; \<open>None\<close> is \<^verbatim>\<open>return false\<close>, \<open>Some matches\<close> goes on.\<close>

fun match_args :: "(nat \<times> string) list \<Rightarrow> ArgInfo list \<Rightarrow> bool \<Rightarrow> bool option" where
  "match_args stringArgs [] matches = Some matches"
| "match_args stringArgs (a # as) matches =
     (if \<not> matches then None
      else case map_of stringArgs (unat (ai_index a)) of
        None \<Rightarrow> None
      | Some s \<Rightarrow> match_args stringArgs as (matches \<and> s = ai_name a))"

fun match_argPaths ::
    "(nat \<times> string) list \<Rightarrow> (nat \<times> ObjectPath) list \<Rightarrow> ArgInfo list \<Rightarrow> bool \<Rightarrow> bool option result" where
  "match_argPaths stringArgs objectPathArgs [] matches = Inr (Some matches)"
| "match_argPaths stringArgs objectPathArgs (a # as) matches =
     (if \<not> matches then Inr None
      else case (case map_of objectPathArgs (unat (ai_index a)) of
          Some p \<Rightarrow> Some (GetPath p) | None \<Rightarrow> map_of stringArgs (unat (ai_index a))) of
        None \<Rightarrow> Inr None
      | Some argObjectPath \<Rightarrow>
          bindE (path_arg_matches (ai_name a) argObjectPath) (\<lambda>b.
            match_argPaths stringArgs objectPathArgs as (matches \<and> b)))"

text \<open>\<^verbatim>\<open>CXX_BUS_CHECK_MATCH\<close> on an optional criterion.\<close>

definition check_match :: "'a option \<Rightarrow> 'a option \<Rightarrow> bool" where
  "check_match expr var = (var = None \<or> expr = var)"

definition contains_sub :: "string \<Rightarrow> string \<Rightarrow> bool" where
  "contains_sub s pat = (find_sub pat s \<noteq> None)"

definition walk_start :: walk_state where
  "walk_start = \<lparr> ws_pointer = 0, ws_argIndex = 0, ws_stringArgs = [], ws_objectPathArgs = [] \<rparr>"

text \<open>The checks behind the walk; an early \<^verbatim>\<open>return false\<close> is \<open>Inr False\<close>.\<close>

definition match_arguments :: "DBusMatchRule \<Rightarrow> ReplyData \<Rightarrow> walk_state \<Rightarrow> bool \<Rightarrow> bool result" where
  "match_arguments r header st matches =
     (case match_args (ws_stringArgs st) (mr_args r) matches of
        None \<Rightarrow> Inr False
      | Some matches1 \<Rightarrow>
          (case (case mr_pathNamespace r of
              None \<Rightarrow> Some matches1
            | Some ns \<Rightarrow> (case rd_objectPath header of
                  None \<Rightarrow> None
                | Some p \<Rightarrow> Some (matches1 \<and> contains_sub (GetPath p) (GetPath ns)))) of
            None \<Rightarrow> Inr False
          | Some matches2 \<Rightarrow>
              bindE (match_argPaths (ws_stringArgs st) (ws_objectPathArgs st) (mr_argPaths r) matches2) (\<lambda>o2.
                case o2 of
                  None \<Rightarrow> Inr False
                | Some matches3 \<Rightarrow>
                    (case mr_argNamespace r of
                       None \<Rightarrow> Inr matches3
                     | Some ns \<Rightarrow> (case map_of (ws_stringArgs st) 0 of
                         None \<Rightarrow> Inr False
                       | Some s \<Rightarrow> Inr (matches3 \<and> starts_with s ns))))))"

definition Matches :: "nat \<Rightarrow> DBusMatchRule \<Rightarrow> IncomingDBusMessage \<Rightarrow> string list \<Rightarrow> bool result" where
  "Matches n r message wellKnownNames =
     (let header = m_header message; sender = rd_sender header in
      if \<not> check_match (Some (rd_messageType header)) (mr_messageType r) then Inr False
      else if \<not> check_match (rd_member header) (mr_member r) then Inr False
      else if \<not> (check_match sender (mr_sender r) \<and> list_all (\<lambda>name. sender = Some name) wellKnownNames) then Inr False
      else if \<not> check_match (rd_interface header) (mr_interface r) then Inr False
      else if \<not> check_match (rd_objectPath header) (mr_path r) then Inr False
      else
        let matches = check_match (rd_destination header) (map_option unique_name (mr_destination r)) in
        bindE (if HasArguments message
               then (case rd_signature header of None \<Rightarrow> Inl UndefinedBehaviour
                 | Some sg \<Rightarrow> WalkSignature n (GetSignature sg) (in_messageBody message) True 0 walk_start)
               else Inr walk_start) (\<lambda>st. match_arguments r header st matches))"

section \<open>Path arguments\<close>

lemma IsPathPrefixed_prefix: "IsPathPrefixed rule toCheck \<longleftrightarrow> prefix rule toCheck"
  by (induction rule toCheck rule: IsPathPrefixed.induct) auto

lemma getline_pieces_delimiter:
  "d \<notin> set t \<Longrightarrow> getline_pieces (t @ d # z) d = t # [d] # getline_pieces z d"
  by (subst getline_pieces.simps) (auto simp: takeWhile_append dropWhile_append takeWhile_eq_all_conv)

lemma getline_pieces_none:
  assumes "d \<notin> set t" and "t \<noteq> []"
  shows "getline_pieces t d = [t]"
proof -
  have "takeWhile (\<lambda>c. c \<noteq> d) t = t" "dropWhile (\<lambda>c. c \<noteq> d) t = []"
    using assms(1) by (auto simp: takeWhile_eq_all_conv dropWhile_eq_Nil_conv)
  then show ?thesis using assms(2) by (subst getline_pieces.simps) (simp only: Let_def if_True if_False simp_thms)
qed

lemma getline_pieces_Nil [simp]: "getline_pieces [] d = []"
  by (simp add: getline_pieces.simps)

text \<open>A string is a piece without the delimiter, or such a piece, the delimiter and the rest.\<close>

lemma split_induct [case_names none delimiter]:
  assumes "\<And>t. d \<notin> set t \<Longrightarrow> P t" and "\<And>t z. d \<notin> set t \<Longrightarrow> P z \<Longrightarrow> P (t @ d # z)"
  shows "P s"
proof (induction s rule: length_induct)
  case (1 s)
  show ?case
  proof (cases "d \<in> set s")
    case True
    then obtain t z where "s = t @ d # z" "d \<notin> set t" using split_list_first by metis
    then show ?thesis using 1 assms(2) by simp
  qed (rule assms(1))
qed

lemma concat_SplitString: "concat (SplitString s d) = s"
proof (induction s rule: split_induct [where d = d])
  case (none t)
  then show ?case by (cases "t = []") (simp_all add: SplitString_def getline_pieces_none)
next
  case (delimiter t z)
  then show ?case by (auto simp: SplitString_def getline_pieces_delimiter)
qed

lemma SplitString_append:
  "SplitString (a @ d # z) d = SplitString (a @ [d]) d @ SplitString z d"
proof (induction a rule: split_induct [where d = d])
  case (none t)
  then show ?case using getline_pieces_delimiter [of d t "[]"] by (simp add: SplitString_def getline_pieces_delimiter)
next
  case (delimiter t y)
  then show ?case
    using getline_pieces_delimiter [of d t "y @ d # z"] getline_pieces_delimiter [of d t "y @ [d]"]
    by (simp add: SplitString_def)
qed

lemma SplitString_prefix:
  assumes "x \<noteq> []" and "last x = d"
  shows "prefix (SplitString x d) (SplitString y d) \<longleftrightarrow> prefix x y"
proof
  assume "prefix (SplitString x d) (SplitString y d)"
  then obtain us where "SplitString y d = SplitString x d @ us" by (auto simp: prefix_def)
  then have "concat (SplitString y d) = concat (SplitString x d) @ concat us" by simp
  then show "prefix x y" by (simp add: concat_SplitString)
next
  assume "prefix x y"
  then obtain z where "y = x @ z" by (auto simp: prefix_def)
  moreover obtain a where "x = a @ [d]" using assms by (metis append_butlast_last_id)
  ultimately show "prefix (SplitString x d) (SplitString y d)" using SplitString_append [of a d z] by simp
qed

text \<open>What the D-Bus specification says of \<^verbatim>\<open>argNpath\<close>: equal, or one ends with a slash and is a prefix
  of the other.\<close>

definition path_arg_spec :: "string \<Rightarrow> string \<Rightarrow> bool" where
  "path_arg_spec name arg \<longleftrightarrow>
     name = arg \<or> last name = CHR ''/'' \<and> prefix name arg \<or> last arg = CHR ''/'' \<and> prefix arg name"

lemma path_argument_refine:
  "name \<noteq> [] \<Longrightarrow> arg \<noteq> [] \<Longrightarrow> path_arg_matches name arg = Inr (path_arg_spec name arg)"
  using SplitString_prefix [of name "CHR ''/''" arg] SplitString_prefix [of arg "CHR ''/''" name]
  by (auto simp: path_arg_matches_def str_back_is_def path_arg_spec_def IsPathPrefixed_prefix)

text \<open>A path argument is matched as the D-Bus specification says, except that comparing two different
  strings of which one is empty reads the last character of an empty string or does not match.\<close>

theorem path_argument_refines:
  assumes "name \<noteq> []" and "arg \<noteq> []"
  shows "path_arg_matches name arg = Inr (path_arg_spec name arg)"
  by (rule path_argument_refine [OF assms])

theorem path_argument_refines_witness:
  "path_arg_matches ''/aa/bb/'' ''/aa/bb/cc'' = Inr (path_arg_spec ''/aa/bb/'' ''/aa/bb/cc'') \<and>
   path_arg_spec ''/aa/bb/'' ''/aa/bb/cc'' \<and> \<not> path_arg_spec ''/aa/bb'' ''/aa/bb/cc''"
  using path_argument_refines [of "''/aa/bb/''" "''/aa/bb/cc''"] by (simp add: path_arg_spec_def)

text \<open>A rule on a path argument that reads an empty string argument is undefined behaviour: the last
  character of the empty string is looked at.\<close>

lemma path_argument_empty:
  assumes "name \<noteq> []"
  shows "path_arg_matches name [] = Inl UndefinedBehaviour"
proof -
  have "SplitString name (CHR ''/'') \<noteq> []"
    using concat_SplitString [of name "CHR ''/''"] assms by auto
  then show ?thesis
    using assms by (simp add: path_arg_matches_def str_back_is_def IsPathPrefixed_prefix SplitString_def [of "[]"])
qed

section \<open>The text of a rule\<close>

text \<open>The criteria of a rule, as keys with values, in the order they are written.\<close>

definition opt_criterion :: "string \<Rightarrow> string option \<Rightarrow> (string \<times> string) list" where
  "opt_criterion key member = (case member of None \<Rightarrow> [] | Some v \<Rightarrow> [(key, v)])"

definition criteria :: "DBusMatchRule \<Rightarrow> (string \<times> string) list" where
  "criteria r =
     opt_criterion ''type'' (map_option (\<lambda>t. MESSAGE_TYPE_STRINGS ! (unat (message_type_code t) - 1)) (mr_messageType r)) @
     opt_criterion ''sender'' (mr_sender r) @
     opt_criterion ''interface'' (map_option interface_name (mr_interface r)) @
     opt_criterion ''member'' (mr_member r) @
     opt_criterion ''path'' (map_option GetPath (mr_path r)) @
     opt_criterion ''path_namespace'' (map_option GetPath (mr_pathNamespace r)) @
     opt_criterion ''destination'' (map_option unique_name (mr_destination r)) @
     map (\<lambda>a. (arg_key a, ai_name a)) (mr_args r) @
     map (\<lambda>a. (arg_key a @ ''path'', ai_name a)) (mr_argPaths r) @
     opt_criterion ''arg0namespace'' (mr_argNamespace r) @
     opt_criterion ''eavesdrop'' (map_option (\<lambda>b. if b then ''true'' else ''false'') (mr_eavesdrop r))"

definition criterion_text :: "string \<times> string \<Rightarrow> string" where
  "criterion_text kv = fst kv @ ''='' @ [CHR 0x27] @ snd kv @ [CHR 0x27]"

definition rule_text :: "(string \<times> string) list \<Rightarrow> string \<Rightarrow> string" where
  "rule_text kvs str = fold (\<lambda>(k, v). ADD_TO_RULE k v) kvs str"

lemma rule_text_simps [simp]:
  "rule_text [] str = str"
  "rule_text (xs @ ys) str = rule_text ys (rule_text xs str)"
  by (simp_all add: rule_text_def)

lemma rule_text_opt: "rule_text (opt_criterion key m) str = ADD_TO_RULE_CHECK_OPTIONAL m key str"
  by (simp add: rule_text_def opt_criterion_def ADD_TO_RULE_CHECK_OPTIONAL_def split: option.splits)

lemma rule_text_map: "rule_text (map (\<lambda>a. (f a, g a)) as) str = fold (\<lambda>a. ADD_TO_RULE (f a) (g a)) as str"
  by (induction as arbitrary: str) (simp_all add: rule_text_def)

lemma rule_text_nonempty:
  "str \<noteq> [] \<Longrightarrow> rule_text kvs str = str @ concat (map (\<lambda>kv. '','' @ criterion_text kv) kvs)"
  by (induction kvs arbitrary: str) (auto simp: rule_text_def ADD_TO_RULE_def criterion_text_def)

lemma rule_text_Cons:
  "rule_text (kv # kvs) [] = criterion_text kv @ concat (map (\<lambda>kv. '','' @ criterion_text kv) kvs)"
proof -
  have "rule_text (kv # kvs) [] = rule_text kvs (criterion_text kv)"
    by (cases kv) (simp add: rule_text_def ADD_TO_RULE_def criterion_text_def)
  then show ?thesis by (simp add: rule_text_nonempty criterion_text_def)
qed

lemma rule_text_Nil_iff: "rule_text kvs [] = [] \<longleftrightarrow> kvs = []"
  by (cases kvs) (simp_all add: rule_text_Cons criterion_text_def)

lemma message_type_string_Inr:
  "message_type_string t = Inr s \<Longrightarrow> s = MESSAGE_TYPE_STRINGS ! (unat (message_type_code t) - 1)"
  by (simp add: message_type_string_def Let_def split: if_splits)

lemma GetRule_text:
  assumes "\<forall>t. mr_messageType r = Some t \<longrightarrow> (\<exists>s. message_type_string t = Inr s)"
  shows "GetRule r = (if criteria r = [] then Inl EmptyDBusMatchRule else Inr (rule_text (criteria r) []))"
proof -
  have type: "(case mr_messageType r of None \<Rightarrow> Inr [] | Some t \<Rightarrow>
         bindE (message_type_string t) (\<lambda>s. Inr (ADD_TO_RULE ''type'' s []))) =
      Inr (rule_text (opt_criterion ''type''
        (map_option (\<lambda>t. MESSAGE_TYPE_STRINGS ! (unat (message_type_code t) - 1)) (mr_messageType r))) [])"
    using assms message_type_string_Inr
    by (auto simp: rule_text_opt ADD_TO_RULE_CHECK_OPTIONAL_def split: option.splits)
  have "rule_text (criteria r) [] = [] \<longleftrightarrow> criteria r = []" by (rule rule_text_Nil_iff)
  then show ?thesis
    unfolding GetRule_def type bindE_simps Let_def
    by (simp add: criteria_def rule_text_opt rule_text_map)
qed

text \<open>A reader of the text: keys up to an equals sign, values between apostrophes, commas between them.\<close>

function parse_rule :: "string \<Rightarrow> (string \<times> string) list option" where
  "parse_rule s =
     (let key = takeWhile (\<lambda>c. c \<noteq> CHR ''='') s in
      case drop (length key) s of
        e # q # r \<Rightarrow>
          if q = CHR 0x27 then
            let val = takeWhile (\<lambda>c. c \<noteq> CHR 0x27) r in
            (case drop (length val) r of
               [] \<Rightarrow> None
             | [q2] \<Rightarrow> Some [(key, val)]
             | q2 # c # r2 \<Rightarrow>
                 if c = CHR '','' then map_option (\<lambda>kvs. (key, val) # kvs) (parse_rule r2) else None)
          else None
      | _ \<Rightarrow> None)"
  by pat_completeness auto
termination
proof (relation "measure length", goal_cases)
  case (2 s key e zs q r val q2 cs c r2)
  then have "length (drop (length key) s) = Suc (Suc (length r))" "length (drop (length val) r) = Suc (Suc (length r2))"
    by (metis length_Cons)+
  then show ?case by simp
qed simp

declare parse_rule.simps [simp del]

lemma takeWhile_neq_append: "d \<notin> set t \<Longrightarrow> takeWhile (\<lambda>c. c \<noteq> d) (t @ d # z) = t"
  by (induction t) auto

lemma parse_criterion:
  assumes "CHR ''='' \<notin> set k" and "CHR 0x27 \<notin> set v"
  shows "parse_rule (criterion_text (k, v)) = Some [(k, v)]"
    and "parse_rule (criterion_text (k, v) @ CHR '','' # r) = map_option (\<lambda>kvs. (k, v) # kvs) (parse_rule r)"
  by (subst parse_rule.simps,
    simp add: criterion_text_def Let_def takeWhile_neq_append [OF assms(1)] takeWhile_neq_append [OF assms(2)])+

lemma parse_rule_text:
  assumes "kvs \<noteq> []" and "\<And>k v. (k, v) \<in> set kvs \<Longrightarrow> CHR ''='' \<notin> set k \<and> CHR 0x27 \<notin> set v"
  shows "parse_rule (rule_text kvs []) = Some kvs"
  using assms
proof (induction kvs)
  case (Cons kv kvs)
  obtain k v where kv: "kv = (k, v)" by (cases kv)
  have ok: "CHR ''='' \<notin> set k" "CHR 0x27 \<notin> set v" using Cons.prems(2) [of k v] kv by simp_all
  show ?case
  proof (cases kvs)
    case Nil
    then show ?thesis using parse_criterion(1) [OF ok] by (simp add: kv rule_text_Cons)
  next
    case (Cons kv2 kvs2)
    have "parse_rule (rule_text kvs []) = Some kvs"
      by (rule Cons.IH) (use Cons.prems(2) Cons in auto)
    moreover have "rule_text (kv # kvs) [] = criterion_text (k, v) @ CHR '','' # rule_text kvs []"
      using Cons by (simp add: kv rule_text_Cons)
    ultimately show ?thesis using parse_criterion(2) [OF ok] by (simp add: kv)
  qed
qed simp

lemma decimal_digits: "c \<in> set (decimal n) \<Longrightarrow> c \<in> char_of ` {48..57::nat}"
proof (induction n rule: decimal.induct)
  case (1 n)
  show ?case
  proof (cases "n < 10")
    case True
    then show ?thesis using 1(2) by (subst (asm) decimal.simps) auto
  next
    case False
    then have "c \<in> set (decimal (n div 10)) \<or> c = char_of (48 + n mod 10)"
      using 1(2) by (subst (asm) decimal.simps) auto
    then show ?thesis using 1(1) [OF False] by auto
  qed
qed

lemma criteria_keys: "(k, v) \<in> set (criteria r) \<Longrightarrow> CHR ''='' \<notin> set k"
proof -
  have "CHR ''='' \<notin> set (decimal n)" for n
  proof
    assume "CHR ''='' \<in> set (decimal n)"
    then obtain m where m: "m \<le> 57" "CHR ''='' = char_of (m :: nat)" using decimal_digits by fastforce
    then have "of_char (CHR ''='') = m" by simp
    then show False using m(1) by simp
  qed
  then show "(k, v) \<in> set (criteria r) \<Longrightarrow> CHR ''='' \<notin> set k"
    by (auto simp: criteria_def opt_criterion_def arg_key_def split: option.splits)
qed

text \<open>C29: Reading back the text of a rule gives the rule's criteria, in order, when no value contains an
  apostrophe; so two such rules with the same text demand the same.\<close>

theorem rule_text_roundtrip:
  assumes "GetRule r = Inr s" and "\<forall>kv \<in> set (criteria r). CHR 0x27 \<notin> set (snd kv)"
  shows "parse_rule s = Some (criteria r)"
proof -
  have "\<forall>t. mr_messageType r = Some t \<longrightarrow> (\<exists>s. message_type_string t = Inr s)"
    using assms(1) by (auto simp: GetRule_def bindE_Inr_iff)
  then have "criteria r \<noteq> []" "s = rule_text (criteria r) []"
    using assms(1) by (simp_all add: GetRule_text split: if_splits)
  then show ?thesis using parse_rule_text criteria_keys assms(2) by fastforce
qed

definition example_rule :: DBusMatchRule where
  "example_rule = (MatchRule_Member ''Changed'' (MatchRule_Interface (MkInterfaceName ''a.b'') MatchRule_Create))
     \<lparr> mr_messageType := Some MT_SIGNAL, mr_args := [\<lparr> ai_name = ''x,y'', ai_index = 12 \<rparr>] \<rparr>"

theorem rule_text_roundtrip_witness:
  "GetRule example_rule = Inr (rule_text (criteria example_rule) []) \<and>
   parse_rule (rule_text (criteria example_rule) []) =
     Some [(''type'', ''signal''), (''interface'', ''a.b''), (''member'', ''Changed''), (''arg12'', ''x,y'')]"
proof -
  have r: "GetRule example_rule = Inr (rule_text (criteria example_rule) [])" by code_simp
  moreover have "criteria example_rule =
      [(''type'', ''signal''), (''interface'', ''a.b''), (''member'', ''Changed''), (''arg12'', ''x,y'')]" by code_simp
  ultimately show ?thesis using rule_text_roundtrip [OF r] by simp
qed

text \<open>Values are not escaped: a member name with apostrophes gives the text of another rule, with one
  more criterion.\<close>

theorem rule_text_injection:
  "let q = [CHR 0x27];
       r1 = MatchRule_Member (''m'' @ q @ '',path='' @ q @ ''/x'') MatchRule_Create;
       r2 = (MatchRule_Member ''m'' MatchRule_Create)\<lparr> mr_path := Some (MkObjectPath ''/x'') \<rparr>
   in GetRule r1 = GetRule r2 \<and> r1 \<noteq> r2"
proof -
  let ?r1 = "MatchRule_Member (''m'' @ [CHR 0x27] @ '',path='' @ [CHR 0x27] @ ''/x'') MatchRule_Create"
  let ?r2 = "(MatchRule_Member ''m'' MatchRule_Create)\<lparr> mr_path := Some (MkObjectPath ''/x'') \<rparr>"
  have "GetRule ?r1 = GetRule ?r2" by code_simp
  moreover have "mr_path ?r1 \<noteq> mr_path ?r2" by (simp add: MatchRule_Member_def MatchRule_Create_def)
  ultimately show ?thesis unfolding Let_def by (metis (no_types))
qed

text \<open>\<^verbatim>\<open>GetRule\<close> refuses a rule exactly when it has no criterion (for a message type of the four).\<close>

theorem empty_rule_refused:
  assumes "\<forall>t. mr_messageType r = Some t \<longrightarrow> t \<in> {MT_METHOD_CALL, MT_METHOD_RETURN, MT_ERROR, MT_SIGNAL}"
  shows "(GetRule r = Inl EmptyDBusMatchRule \<longleftrightarrow> r = MatchRule_Create) \<and>
    ((\<exists>s. GetRule r = Inr s) \<longleftrightarrow> r \<noteq> MatchRule_Create)"
proof -
  have "\<forall>t. mr_messageType r = Some t \<longrightarrow> (\<exists>s. message_type_string t = Inr s)"
    using assms by (auto simp: message_type_string_def)
  note gr = GetRule_text [OF this]
  have "criteria r = [] \<longleftrightarrow> r = MatchRule_Create"
    by (cases r) (auto simp: criteria_def opt_criterion_def MatchRule_Create_def split: option.splits)
  then show ?thesis by (simp add: gr)
qed

theorem empty_rule_refused_witness:
  "(GetRule MatchRule_Create = Inl EmptyDBusMatchRule \<longleftrightarrow> MatchRule_Create = MatchRule_Create) \<and>
   ((\<exists>s. GetRule MatchRule_Create = Inr s) \<longleftrightarrow> MatchRule_Create \<noteq> MatchRule_Create)"
  by (rule empty_rule_refused) (simp add: MatchRule_Create_def)

section \<open>What the builder guarantees\<close>

text \<open>The rules a program can build.\<close>

inductive built :: "DBusMatchRule \<Rightarrow> bool" where
  create: "built MatchRule_Create"
| type: "built r \<Longrightarrow> MatchRule_Type t r = Inr r' \<Longrightarrow> built r'"
| sender: "built r \<Longrightarrow> built (MatchRule_Sender n r)"
| interface: "built r \<Longrightarrow> built (MatchRule_Interface i r)"
| member: "built r \<Longrightarrow> built (MatchRule_Member m r)"
| path: "built r \<Longrightarrow> MatchRule_Path p r = Inr r' \<Longrightarrow> built r'"
| pathNamespace: "built r \<Longrightarrow> MatchRule_PathNamespace p r = Inr r' \<Longrightarrow> built r'"
| destination: "built r \<Longrightarrow> built (MatchRule_Destination d r)"
| argument: "built r \<Longrightarrow> MatchRule_Argument k m r = Inr r' \<Longrightarrow> built r'"
| argumentPath: "built r \<Longrightarrow> MatchRule_ArgumentPath k m r = Inr r' \<Longrightarrow> built r'"
| argumentNamespace: "built r \<Longrightarrow> built (MatchRule_ArgumentNamespace a r)"
| eavesdrop: "built r \<Longrightarrow> built (MatchRule_EavesDrop e r)"

definition rule_inv :: "DBusMatchRule \<Rightarrow> bool" where
  "rule_inv r \<longleftrightarrow>
     (mr_path r = None \<or> mr_pathNamespace r = None) \<and>
     (\<forall>a \<in> set (mr_args r @ mr_argPaths r). ai_index a \<le> 63) \<and>
     mr_messageType r \<notin> {Some MT_INVALID, Some MT_NONE, Some MT_OPTIONAL}"

lemmas builder_defs = MatchRule_Create_def MatchRule_Type_def MatchRule_Sender_def MatchRule_Interface_def
  MatchRule_Member_def MatchRule_Path_def MatchRule_PathNamespace_def MatchRule_Destination_def
  MatchRule_Argument_def MatchRule_ArgumentPath_def MatchRule_ArgumentNamespace_def MatchRule_EavesDrop_def

text \<open>C30: However a rule is built, it does not combine a path with a path namespace, its argument indices
  are at most 63, and its type, when it has one, is not one of the enumerators \<^verbatim>\<open>INVALID\<close>, \<^verbatim>\<open>NONE\<close> and \<^verbatim>\<open>OPTIONAL\<close>, which
  are no types of messages. A number that is no enumerator is not refused.\<close>

theorem built_rules_valid:
  assumes "built r"
  shows "rule_inv r"
  using assms
  by induction (auto simp: rule_inv_def builder_defs split: if_splits DBusMessageType.splits)

theorem built_rules_valid_witness:
  "rule_inv (MatchRule_Member ''m'' (MatchRule_Create\<lparr> mr_path := Some (MkObjectPath ''/x'') \<rparr>))"
proof (intro built_rules_valid built.member)
  show "built (MatchRule_Create\<lparr> mr_path := Some (MkObjectPath ''/x'') \<rparr>)"
    by (rule built.path [OF built.create, where p = "MkObjectPath ''/x''"]) (simp add: builder_defs)
qed

section \<open>Walking over simple arguments\<close>

text \<open>Arguments the walk handles: basic values, and arrays whose element signature is one character.\<close>

fun walk_simple :: "cty \<Rightarrow> bool" where
  "walk_simple (TFixed f) = True"
| "walk_simple (TString s) = True"
| "walk_simple (TArr N t) = one_char t"
| "walk_simple _ = False"

fun string_arg :: "nat \<Rightarrow> dval \<Rightarrow> (nat \<times> string) list" where
  "string_arg i (VString st s) = (if st = StdString \<or> st = InterfaceString then [(i, s)] else [])"
| "string_arg i _ = []"

fun path_arg :: "nat \<Rightarrow> dval \<Rightarrow> (nat \<times> ObjectPath) list" where
  "path_arg i (VString st s) = (if st = ObjectPathString then [(i, MkObjectPath s)] else [])"
| "path_arg i _ = []"

fun indexed_args :: "(nat \<Rightarrow> dval \<Rightarrow> (nat \<times> 'a) list) \<Rightarrow> nat \<Rightarrow> dval list \<Rightarrow> (nat \<times> 'a) list" where
  "indexed_args f i [] = []"
| "indexed_args f i (v # vs) = f i v @ indexed_args f (i + 1) vs"

lemma span_of_holds: "holds buf p w \<Longrightarrow> length w = k \<Longrightarrow> span_of buf p k = Inr w"
  using holdsD [of buf p w] by (auto simp: span_of_def)

lemma holds_self: "length w < 67108864 \<Longrightarrow> holds w 0 w"
  by (simp add: holds_def)

lemma check_signature_self: "check_signature (GetTypeSignature T) (GetTypeSignature T) = Inr ()"
  using signature_type_codes [of T] signature_balanced [of T]
  by (simp add: check_signature_def AreDBusTypeCodeBracketsEven_def balanced_def)

lemma span_number_holds:
  assumes "holds buf p (wire_fixed x)"
  shows "span_number (fix_type x) buf p = Inr (fix_nat x)"
proof -
  have "holds (wire_fixed x) 0 (wire_fixed x)"
    using holdsD(1,2) [OF assms] by (intro holds_self) simp
  then have "UnmarshalDBusTypeImpl no_junk 0 (TFixed (fix_type x)) (wire_fixed x) 0 = Inr (VFixed x, wire_size (fix_type x))"
    using unmarshal_fixed [of "wire_fixed x" 0 x] by simp
  then show ?thesis
    by (simp add: span_number_def span_of_holds [OF assms] UnmarshalDBusType_def UnmarshalDBusType_at_def check_signature_self
        del: GetTypeSignature.simps UnmarshalDBusTypeImpl.simps)
qed

lemma span_length_holds: "holds buf p (le_bytes 4 k) \<Longrightarrow> k < 4294967296 \<Longrightarrow> span_number U32 buf p = Inr k"
  using span_number_holds [of buf p "FU32 (word_of_nat k)"] by (simp add: wire_fixed_U32 unat_of_nat)

lemma span_byte_holds: "holds buf p (le_bytes 1 k) \<Longrightarrow> k < 256 \<Longrightarrow> span_number U8 buf p = Inr k"
  using span_number_holds [of buf p "FU8 (word_of_nat k)"] by (simp add: wire_fixed_U8 unat_of_nat del: le_bytes.simps)

lemma span_string_holds:
  assumes h: "holds buf p (string_body st s)" and st: "st \<noteq> SignatureString"
  shows "span_string StdString buf p (length s + 4 + 1) = Inr s"
proof -
  have l: "length (string_body st s) = length s + 4 + 1" using st by (simp add: length_string_body)
  have "holds (string_body st s) 0 (string_body st s)"
    using holdsD(1,2) [OF h] by (intro holds_self) simp
  then have "UnmarshalDBusTypeImpl no_junk 0 (TString StdString) (string_body st s) 0 =
      Inr (VString StdString s, length (string_body st s))"
    using unmarshal_string [of "string_body st s" 0 st s StdString] st by (simp add: valid_string_def)
  then show ?thesis
    unfolding span_string_def span_of_holds [OF h l]
    by (simp add: UnmarshalDBusType_def UnmarshalDBusType_at_def check_signature_self
        del: GetTypeSignature.simps UnmarshalDBusTypeImpl.simps)
qed

text \<open>What one simple argument does to the state of the walk.\<close>

definition walk_effect :: "8 word list \<Rightarrow> dval \<Rightarrow> walk_state \<Rightarrow> walk_state" where
  "walk_effect w v st =
     \<lparr> ws_pointer = ws_pointer st + padn (GA (type_of v)) (ws_pointer st) + length w,
       ws_argIndex = (ws_argIndex st + 1) mod 256,
       ws_stringArgs = ws_stringArgs st @ string_arg (ws_argIndex st) v,
       ws_objectPathArgs = ws_objectPathArgs st @ path_arg (ws_argIndex st) v \<rparr>"

definition fresh_index :: "walk_state \<Rightarrow> bool" where
  "fresh_index st \<longleftrightarrow> map_of (ws_stringArgs st) (ws_argIndex st) = None \<and>
     map_of (ws_objectPathArgs st) (ws_argIndex st) = None"

lemma walk_codes_more [simp]:
  "IsDBusBasicStringlikeTypeCode CHR ''s''" "CHR ''a'' \<noteq> CHR 0x7B"
  by (simp_all add: type_code_preds)

lemma walk_fixed_arg:
  assumes h: "holds buf (ws_pointer st) (zeros (padn (wire_size (fix_type x)) (ws_pointer st)) @ wire_fixed x)"
    and i: "i < length sg" "sg ! i = hd (GetTypeSignature (TFixed (fix_type x)))"
  shows "WalkSignature (Suc n) sg buf True i st = WalkSignature n sg buf True (i + 1) (walk_effect (wire_fixed x) (VFixed x) st)"
proof -
  obtain c where c: "GetTypeSignature (TFixed (fix_type x)) = [c]" "IsDBusBasicFixedTypeCode c"
    "GetAlignmentOfSignature c = Inr (wire_size (fix_type x))"
    using fixed_code by blast
  have "ws_pointer st + padn (wire_size (fix_type x)) (ws_pointer st) + wire_size (fix_type x) < 67108864"
    using holdsD(1,2) [OF h] by simp
  then show ?thesis
    using i c SkipPadding_holds [OF h]
    by (cases st) (simp add: WalkSignature.simps(2) Let_def advance_def skip_padding_def walk_effect_def)
qed

lemma walk_string_arg:
  assumes h: "holds buf (ws_pointer st) (zeros (padn (GA (TString t)) (ws_pointer st)) @ string_body t s)"
    and i: "i < length sg" "sg ! i = hd (GetTypeSignature (TString t))" and f: "fresh_index st"
    and v: "valid_string t s" and l: "t = SignatureString \<longrightarrow> length s < 256"
  shows "WalkSignature (Suc n) sg buf True i st = WalkSignature n sg buf True (i + 1) (walk_effect (string_body t s) (VString t s) st)"
proof -
  let ?q = "ws_pointer st + padn (GA (TString t)) (ws_pointer st)"
  let ?n = "if t = SignatureString then 1 else 4 :: nat"
  have hq: "holds buf ?q (string_body t s)" using h by (simp add: holds_append)
  then have h1: "holds buf ?q (le_bytes ?n (length s))" by (simp only: string_body_def holds_append)
  have b: "?q + length (string_body t s) \<le> length buf" "length buf < 67108864" using holdsD(1,2) [OF hq] .
  have sk: "SkipPadding (ws_pointer st) (GA (TString t)) = ?q" by (rule SkipPadding_holds [OF h])
  show ?thesis
  proof (cases "t = SignatureString")
    case True
    then have "span_number U8 buf ?q = Inr (length s)"
      using span_byte_holds [of buf ?q "length s"] h1 l by (simp del: le_bytes.simps)
    then show ?thesis
      using i sk b True
      by (cases st) (simp add: WalkSignature.simps(2) Let_def advance_def skip_padding_def walk_effect_def
          walk_stringlike_def length_string_body)
  next
    case False
    have "span_number U32 buf ?q = Inr (length s)"
      using span_length_holds [of buf ?q "length s"] h1 b False by (simp add: length_string_body del: le_bytes.simps)
    moreover have "span_string StdString buf ?q (length s + 4 + 1) = Inr s"
      by (rule span_string_holds [OF hq False])
    moreover have "t = ObjectPathString \<Longrightarrow> make_ObjectPath s = Inr (MkObjectPath s)"
      using v by (simp add: valid_string_def make_ObjectPath_def)
    ultimately show ?thesis
      using i sk b False f
      by (cases st; cases t) (simp_all add: WalkSignature.simps(2) Let_def advance_def skip_padding_def walk_effect_def
          walk_stringlike_def length_string_body map_insert_def fresh_index_def)
  qed
qed

lemma walk_array_arg:
  assumes h: "holds buf (ws_pointer st) (zeros (padn 4 (ws_pointer st)) @
      body GA (VArr N t vs) (ws_pointer st + padn 4 (ws_pointer st)))"
    and t: "one_char t" and i: "i + 1 < length sg" "sg ! i = CHR ''a''" "[sg ! (i + 1)] = GetTypeSignature t"
  shows "WalkSignature (Suc n) sg buf True i st = WalkSignature n sg buf True (i + 2)
    (walk_effect (body GA (VArr N t vs) (ws_pointer st + padn 4 (ws_pointer st))) (VArr N t vs) st)"
proof -
  let ?q = "ws_pointer st + padn 4 (ws_pointer st)"
  let ?k = "padn (GA t) (?q + 4)"
  let ?es = "wires GA (\<lambda>_. GA t) vs (?q + 4 + ?k)"
  have w: "body GA (VArr N t vs) ?q = le_bytes 4 (length ?es) @ zeros ?k @ ?es" by (simp add: Let_def)
  have h1: "holds buf ?q (le_bytes 4 (length ?es))" "holds buf (?q + 4) (zeros ?k @ ?es)"
    using h unfolding w by (simp_all add: holds_append add.assoc)
  have b: "?q + 4 + ?k + length ?es \<le> length buf" "length buf < 67108864"
    using holdsD(1,2) [OF h1(2)] by simp_all
  have l: "span_number U32 buf ?q = Inr (length ?es)" by (rule span_length_holds [OF h1(1)]) (use b in simp)
  have sk: "SkipPadding (ws_pointer st) 4 = ?q" by (rule SkipPadding_holds [OF h])
  have ap: "fst (AddPaddingToSize (?q + 4) (GA t)) = ?q + 4 + ?k"
    using b by (subst AddPaddingToSize_padn) simp_all
  obtain c where c: "GetTypeSignature t = [c]" "GetAlignmentOfSignature c = Inr (GA t)" "c \<noteq> CHR 0x7B"
    using one_char_code [OF t] by blast
  have s: "sig_at sg (i + 1) = Inr c" using i c(1) by (simp add: sig_at_def str_at_def)
  have u: "u32 (?q + 4) = ?q + 4" "u32 (?q + 4 + ?k + length ?es) = ?q + 4 + ?k + length ?es" using b by simp_all
  have len: "length (body GA (VArr N t vs) ?q) = 4 + ?k + length ?es" by (simp only: w length_append length_le_bytes length_zeros add.assoc)
  have e: "walk_effect (body GA (VArr N t vs) ?q) (VArr N t vs) st = st
      \<lparr> ws_pointer := ?q + 4 + ?k + length ?es, ws_argIndex := (ws_argIndex st + 1) mod 256 \<rparr>"
    unfolding walk_effect_def len by (cases st) simp
  show ?thesis
    unfolding e using i c(2,3) sk l s ap u
    by (simp add: WalkSignature.simps(2) Let_def advance_def skip_padding_def)
qed

text \<open>A simple argument that occupies position \<open>i\<close> of the signature.\<close>

definition arg_ok :: "dval \<Rightarrow> bool" where
  "arg_ok v \<longleftrightarrow> wt v \<and> walk_simple (type_of v) \<and>
     (case v of VString SignatureString s \<Rightarrow> length s < 256 | _ \<Rightarrow> True)"

lemma walk_arg:
  assumes ok: "arg_ok v" and f: "fresh_index st"
    and h: "holds buf (ws_pointer st) (zeros (padn (GA (type_of v)) (ws_pointer st)) @
      body GA v (ws_pointer st + padn (GA (type_of v)) (ws_pointer st)))"
  shows "WalkSignature (Suc n) (pre @ GetTypeSignature (type_of v) @ post) buf True (length pre) st =
    WalkSignature n (pre @ GetTypeSignature (type_of v) @ post) buf True (length (pre @ GetTypeSignature (type_of v)))
      (walk_effect (body GA v (ws_pointer st + padn (GA (type_of v)) (ws_pointer st))) v st)"
proof (cases v)
  case (VFixed x)
  obtain c where c: "GetTypeSignature (TFixed (fix_type x)) = [c]" using fixed_code by blast
  show ?thesis
    using walk_fixed_arg [of buf st x "length pre" "pre @ [c] @ post" n] h c VFixed by (simp add: nth_append)
next
  case (VString t s)
  obtain c where c: "GetTypeSignature (TString t) = [c]" using string_code by blast
  have "t = SignatureString \<longrightarrow> length s < 256" "valid_string t s" using ok VString by (auto simp: arg_ok_def)
  then show ?thesis
    using walk_string_arg [of buf st t s "length pre" "pre @ [c] @ post" n] h c f VString
    by (simp add: nth_append del: GetAlignmentOfDBusType.simps GetTypeSignature.simps)
next
  case (VArr N t vs)
  have t: "one_char t" using ok VArr by (simp add: arg_ok_def)
  obtain c where c: "GetTypeSignature t = [c]" using one_char_code [OF t] by blast
  show ?thesis
    using walk_array_arg [OF _ t, of buf st N vs "length pre" "pre @ [CHR ''a'', c] @ post" n] h c VArr
    by (simp add: nth_append del: body.simps)
qed (use ok in \<open>simp_all add: arg_ok_def\<close>)

definition below_index :: "walk_state \<Rightarrow> bool" where
  "below_index st \<longleftrightarrow> (\<forall>k \<in> fst ` set (ws_stringArgs st) \<union> fst ` set (ws_objectPathArgs st). k < ws_argIndex st)"

lemma below_fresh: "below_index st \<Longrightarrow> fresh_index st"
  by (auto simp: below_index_def fresh_index_def map_of_eq_None_iff)

lemma below_walk_effect:
  "below_index st \<Longrightarrow> ws_argIndex st + 1 < 256 \<Longrightarrow> below_index (walk_effect w v st)"
  by (cases v) (auto simp: below_index_def walk_effect_def less_Suc_eq split: if_splits)

definition walk_result :: "dval list \<Rightarrow> walk_state \<Rightarrow> walk_state" where
  "walk_result vs st =
     \<lparr> ws_pointer = ws_pointer st + length (wires GA GA vs (ws_pointer st)), ws_argIndex = ws_argIndex st + length vs,
       ws_stringArgs = ws_stringArgs st @ indexed_args string_arg (ws_argIndex st) vs,
       ws_objectPathArgs = ws_objectPathArgs st @ indexed_args path_arg (ws_argIndex st) vs \<rparr>"

lemma walk_args:
  assumes "\<forall>v \<in> set vs. arg_ok v" and "holds buf (ws_pointer st) (wires GA GA vs (ws_pointer st))"
    and "below_index st" and "ws_argIndex st + length vs < 256"
  shows "WalkSignature (length vs + n) (pre @ BuildMultipleCompleteTypesSignature (map type_of vs) @ post) buf True (length pre) st =
    WalkSignature n (pre @ BuildMultipleCompleteTypesSignature (map type_of vs) @ post) buf True
      (length (pre @ BuildMultipleCompleteTypesSignature (map type_of vs))) (walk_result vs st)"
  using assms
proof (induction vs arbitrary: st pre)
  case Nil
  then show ?case by (cases st) (simp add: BuildMultipleCompleteTypesSignature_def walk_result_def)
next
  case (Cons v vs)
  let ?p = "ws_pointer st" and ?k = "padn (GA (type_of v)) (ws_pointer st)"
  let ?w = "body GA v (?p + ?k)"
  let ?st = "walk_effect ?w v st"
  let ?sig = "BuildMultipleCompleteTypesSignature (map type_of vs)"
  have sg: "BuildMultipleCompleteTypesSignature (map type_of (v # vs)) = GetTypeSignature (type_of v) @ ?sig"
    by (simp add: BuildMultipleCompleteTypesSignature_def)
  have w: "wires GA GA (v # vs) ?p = (zeros ?k @ ?w) @ wires GA GA vs (?p + ?k + length ?w)"
    by (simp add: Let_def)
  have h: "holds buf ?p (zeros ?k @ ?w)" "holds buf (?p + ?k + length ?w) (wires GA GA vs (?p + ?k + length ?w))"
    using Cons.prems(2) unfolding w by (simp_all only: holds_append length_append length_zeros add.assoc)
  have st: "ws_pointer ?st = ?p + ?k + length ?w" "ws_argIndex ?st = ws_argIndex st + 1"
    using Cons.prems(4) by (simp_all add: walk_effect_def)
  have "WalkSignature (length vs + n) ((pre @ GetTypeSignature (type_of v)) @ ?sig @ post) buf True
      (length (pre @ GetTypeSignature (type_of v))) ?st =
    WalkSignature n ((pre @ GetTypeSignature (type_of v)) @ ?sig @ post) buf True
      (length ((pre @ GetTypeSignature (type_of v)) @ ?sig)) (walk_result vs ?st)"
  proof (rule Cons.IH)
    show "holds buf (ws_pointer ?st) (wires GA GA vs (ws_pointer ?st))" unfolding st(1) by (rule h(2))
    show "below_index ?st" by (rule below_walk_effect) (use Cons.prems in simp_all)
    show "ws_argIndex ?st + length vs < 256" unfolding st(2) using Cons.prems(4) by simp
  qed (use Cons.prems in simp)
  moreover have "walk_result vs ?st = walk_result (v # vs) st"
    unfolding walk_result_def st w by (simp add: walk_effect_def add.assoc)
  moreover have "WalkSignature (Suc (length vs + n)) (pre @ GetTypeSignature (type_of v) @ ?sig @ post) buf True (length pre) st =
      WalkSignature (length vs + n) (pre @ GetTypeSignature (type_of v) @ ?sig @ post) buf True
        (length (pre @ GetTypeSignature (type_of v))) ?st"
    by (rule walk_arg [OF _ below_fresh [OF Cons.prems(3)] h(1)]) (use Cons.prems(1) in simp)
  ultimately show ?case unfolding sg by simp
qed

lemma walk_simple_args:
  assumes "\<forall>v \<in> set vs. arg_ok v" and "length (wires GA GA vs 0) < 67108864" and "length vs < 256" and "length vs < n"
  shows "WalkSignature n (BuildMultipleCompleteTypesSignature (map type_of vs)) (wires GA GA vs 0) True 0 walk_start =
    Inr (walk_result vs walk_start)"
proof -
  obtain n' where n: "n = length vs + Suc n'" using assms(4) by (metis add_Suc_right less_imp_Suc_add)
  have "holds (wires GA GA vs 0) (ws_pointer walk_start) (wires GA GA vs (ws_pointer walk_start))"
    using assms(2) by (simp add: walk_start_def holds_self)
  moreover have "below_index walk_start" by (simp add: below_index_def walk_start_def)
  moreover have "ws_argIndex walk_start + length vs < 256" using assms(3) by (simp add: walk_start_def)
  ultimately show ?thesis
    using walk_args [OF assms(1), of "wires GA GA vs 0" walk_start "Suc n'" "[]" "[]"]
    by (simp add: n WalkSignature.simps(2))
qed

text \<open>For a body of basic arguments and arrays of one-character elements, the walk ends at the end of
  the body and has collected exactly the string arguments and the object paths, under their positions.\<close>

theorem walk_collects:
  assumes "\<forall>v \<in> set vs. arg_ok v" and "length (wires GA GA vs 0) < 67108864" and "length vs < 256" and "length vs < n"
  shows "WalkSignature n (BuildMultipleCompleteTypesSignature (map type_of vs)) (wires GA GA vs 0) True 0 walk_start =
    Inr \<lparr> ws_pointer = length (wires GA GA vs 0), ws_argIndex = length vs,
      ws_stringArgs = indexed_args string_arg 0 vs, ws_objectPathArgs = indexed_args path_arg 0 vs \<rparr>"
  using walk_simple_args [OF assms] by (simp add: walk_result_def walk_start_def)

definition example_args :: "dval list" where
  "example_args = [VString StdString ''one'', VArr None (TFixed U16) [VFixed (FU16 7)], VString ObjectPathString ''/p'',
     VFixed (FU64 1), VString StdString ''two'']"

lemma example_args_ok: "\<forall>v \<in> set example_args. arg_ok v"
proof -
  have "ValidateDBusObjectPath ''/p'' = None" by code_simp
  then show ?thesis by (simp add: example_args_def arg_ok_def valid_string_def)
qed

lemma example_args_length: "length (wires GA GA example_args 0) = 40"
  by code_simp

theorem walk_collects_witness:
  "WalkSignature 9 (BuildMultipleCompleteTypesSignature (map type_of example_args)) (wires GA GA example_args 0) True 0 walk_start =
   Inr \<lparr> ws_pointer = 40, ws_argIndex = 5, ws_stringArgs = [(0, ''one''), (4, ''two'')],
     ws_objectPathArgs = [(2, MkObjectPath ''/p'')] \<rparr>"
proof -
  have "length example_args = 5" by (simp add: example_args_def)
  moreover have "indexed_args string_arg 0 example_args = [(0, ''one''), (4, ''two'')]"
    "indexed_args path_arg 0 example_args = [(2, MkObjectPath ''/p'')]"
    by (simp_all add: example_args_def)
  ultimately show ?thesis
    using walk_collects [OF example_args_ok, of 9] example_args_length by simp
qed

section \<open>What a rule matches\<close>

definition arg_string :: "dval list \<Rightarrow> nat \<Rightarrow> string option" where
  "arg_string vs k = (if k < length vs then map_of (string_arg k (vs ! k)) k else None)"

definition arg_path :: "dval list \<Rightarrow> nat \<Rightarrow> ObjectPath option" where
  "arg_path vs k = (if k < length vs then map_of (path_arg k (vs ! k)) k else None)"

definition arg_text :: "dval list \<Rightarrow> nat \<Rightarrow> string option" where
  "arg_text vs k = (case arg_path vs k of Some p \<Rightarrow> Some (GetPath p) | None \<Rightarrow> arg_string vs k)"

lemma map_of_indexed_args:
  assumes "\<And>i v k. k \<noteq> i \<Longrightarrow> map_of (f i v) k = None"
  shows "map_of (indexed_args f i vs) k = (if i \<le> k \<and> k < i + length vs then map_of (f k (vs ! (k - i))) k else None)"
proof (induction vs arbitrary: i)
  case (Cons v vs)
  show ?case
  proof (cases "k = i")
    case True
    then show ?thesis using Cons.IH [of "i + 1"] by (simp add: map_add_def split: option.splits)
  next
    case False
    consider "k < i" | j where "k = Suc (i + j)" using False by (metis less_imp_Suc_add linorder_neqE_nat)
    then show ?thesis
      using Cons.IH [of "i + 1"] assms [of k i v] False
      by cases (auto simp: map_add_def split: option.splits)
  qed
qed auto

lemma map_of_string_args: "map_of (indexed_args string_arg 0 vs) k = arg_string vs k"
proof -
  have "k \<noteq> i \<Longrightarrow> map_of (string_arg i v) k = None" for i v and k by (cases v) auto
  from map_of_indexed_args [of string_arg, OF this] show ?thesis by (simp add: arg_string_def)
qed

lemma map_of_path_args: "map_of (indexed_args path_arg 0 vs) k = arg_path vs k"
proof -
  have "k \<noteq> i \<Longrightarrow> map_of (path_arg i v) k = None" for i v and k by (cases v) auto
  from map_of_indexed_args [of path_arg, OF this] show ?thesis by (simp add: arg_path_def)
qed

lemma starts_with_prefix: "starts_with s p \<longleftrightarrow> prefix p s"
  by (auto simp: starts_with_def prefix_def intro: append_take_drop_id [symmetric]) (metis append_take_drop_id)

lemma contains_sub_sublist: "contains_sub s pat \<longleftrightarrow> sublist pat s"
  by (induction s) (auto simp: contains_sub_def starts_with_prefix sublist_Cons_right)

text \<open>What the code looks at in a message with the arguments \<open>vs\<close>, when the cache has \<open>names\<close> for its sender.\<close>

definition header_accepted :: "DBusMatchRule \<Rightarrow> ReplyData \<Rightarrow> string list \<Rightarrow> bool" where
  "header_accepted r h names \<longleftrightarrow>
     check_match (Some (rd_messageType h)) (mr_messageType r) \<and> check_match (rd_member h) (mr_member r) \<and>
     check_match (rd_sender h) (mr_sender r) \<and> (\<forall>name \<in> set names. rd_sender h = Some name) \<and>
     check_match (rd_interface h) (mr_interface r) \<and> check_match (rd_objectPath h) (mr_path r)"

definition args_accepted :: "DBusMatchRule \<Rightarrow> ReplyData \<Rightarrow> dval list \<Rightarrow> bool" where
  "args_accepted r h vs \<longleftrightarrow>
     check_match (rd_destination h) (map_option unique_name (mr_destination r)) \<and>
     (\<forall>a \<in> set (mr_args r). arg_string vs (unat (ai_index a)) = Some (ai_name a)) \<and>
     (\<forall>ns. mr_pathNamespace r = Some ns \<longrightarrow> (\<exists>p. rd_objectPath h = Some p \<and> sublist (GetPath ns) (GetPath p))) \<and>
     (\<forall>a \<in> set (mr_argPaths r). \<exists>s. arg_text vs (unat (ai_index a)) = Some s \<and> path_arg_spec (ai_name a) s) \<and>
     (\<forall>ns. mr_argNamespace r = Some ns \<longrightarrow> (\<exists>s. arg_string vs 0 = Some s \<and> prefix ns s))"

lemma match_args_result:
  "\<exists>o1. match_args m as b = o1 \<and> (o1 = Some True \<longleftrightarrow> b \<and> (\<forall>a \<in> set as. map_of m (unat (ai_index a)) = Some (ai_name a)))"
  by (induction m as b rule: match_args.induct) (auto split: option.splits)

lemma match_argPaths_result:
  assumes "\<And>a. a \<in> set as \<Longrightarrow> ai_name a \<noteq> [] \<and> arg_text vs (unat (ai_index a)) \<noteq> Some []"
  shows "\<exists>o1. match_argPaths (indexed_args string_arg 0 vs) (indexed_args path_arg 0 vs) as b = Inr o1 \<and>
    (o1 = Some True \<longleftrightarrow> b \<and> (\<forall>a \<in> set as. \<exists>s. arg_text vs (unat (ai_index a)) = Some s \<and> path_arg_spec (ai_name a) s))"
  using assms
proof (induction as arbitrary: b)
  case (Cons a as)
  let ?k = "unat (ai_index a)"
  have a: "ai_name a \<noteq> []" "arg_text vs ?k \<noteq> Some []" using Cons.prems [of a] by simp_all
  have t: "(case map_of (indexed_args path_arg 0 vs) ?k of Some p \<Rightarrow> Some (GetPath p)
      | None \<Rightarrow> map_of (indexed_args string_arg 0 vs) ?k) = arg_text vs ?k"
    by (simp only: map_of_path_args map_of_string_args arg_text_def)
  have IH: "\<exists>o1. match_argPaths (indexed_args string_arg 0 vs) (indexed_args path_arg 0 vs) as c = Inr o1 \<and>
      (o1 = Some True \<longleftrightarrow> c \<and> (\<forall>a \<in> set as. \<exists>s. arg_text vs (unat (ai_index a)) = Some s \<and> path_arg_spec (ai_name a) s))" for c
    by (rule Cons.IH) (use Cons.prems in simp)
  show ?case
  proof (cases "arg_text vs ?k")
    case None
    then show ?thesis unfolding match_argPaths.simps t by simp
  next
    case (Some s)
    then have "path_arg_matches (ai_name a) s = Inr (path_arg_spec (ai_name a) s)"
      using a by (intro path_argument_refine) simp_all
    then show ?thesis using IH [of "b \<and> path_arg_spec (ai_name a) s"] Some
      unfolding match_argPaths.simps t by auto
  qed
qed simp

lemma body_arg_nonempty: "arg_ok v \<Longrightarrow> body GA v p \<noteq> []"
  using length_wire_fixed wire_size_pos
  by (cases v) (auto simp: arg_ok_def string_body_def Let_def simp flip: length_greater_0_conv)

lemma match_arguments_result:
  assumes st: "ws_stringArgs st = indexed_args string_arg 0 vs" "ws_objectPathArgs st = indexed_args path_arg 0 vs"
    and paths: "\<And>a. a \<in> set (mr_argPaths r) \<Longrightarrow> ai_name a \<noteq> [] \<and> arg_text vs (unat (ai_index a)) \<noteq> Some []"
  shows "match_arguments r h st (check_match (rd_destination h) (map_option unique_name (mr_destination r))) =
    Inr (args_accepted r h vs)"
proof -
  let ?dest = "check_match (rd_destination h) (map_option unique_name (mr_destination r))"
  let ?args = "\<forall>a \<in> set (mr_args r). arg_string vs (unat (ai_index a)) = Some (ai_name a)"
  let ?paths = "\<forall>a \<in> set (mr_argPaths r). \<exists>s. arg_text vs (unat (ai_index a)) = Some s \<and> path_arg_spec (ai_name a) s"
  let ?ns = "\<forall>ns. mr_argNamespace r = Some ns \<longrightarrow> (\<exists>s. arg_string vs 0 = Some s \<and> prefix ns s)"
  have tail: "bindE (match_argPaths (ws_stringArgs st) (ws_objectPathArgs st) (mr_argPaths r) b) (\<lambda>o2.
      case o2 of None \<Rightarrow> Inr False
      | Some matches3 \<Rightarrow> (case mr_argNamespace r of None \<Rightarrow> Inr matches3
         | Some ns \<Rightarrow> (case map_of (ws_stringArgs st) 0 of None \<Rightarrow> Inr False
            | Some s \<Rightarrow> Inr (matches3 \<and> starts_with s ns)))) = Inr (b \<and> ?paths \<and> ?ns)" for b
  proof -
    obtain o2 where o2: "match_argPaths (ws_stringArgs st) (ws_objectPathArgs st) (mr_argPaths r) b = Inr o2"
      "o2 = Some True \<longleftrightarrow> b \<and> ?paths"
      unfolding st using match_argPaths_result [of "mr_argPaths r" vs b] paths by blast
    have z: "map_of (ws_stringArgs st) 0 = arg_string vs 0" by (simp only: st map_of_string_args)
    show ?thesis
      unfolding o2(1) bindE_simps z starts_with_prefix
      using o2(2) by (cases "mr_argNamespace r"; cases "arg_string vs 0") (auto split: option.splits)
  qed
  obtain o1 where o1: "match_args (ws_stringArgs st) (mr_args r) ?dest = o1" "o1 = Some True \<longleftrightarrow> ?dest \<and> ?args"
    unfolding st using match_args_result [of "indexed_args string_arg 0 vs" "mr_args r" ?dest]
    by (auto simp: map_of_string_args)
  show ?thesis
    unfolding match_arguments_def o1(1) tail contains_sub_sublist args_accepted_def
    using o1(2) by (auto split: option.splits)
qed

lemma matches_spec:
  assumes vs: "\<forall>v \<in> set vs. arg_ok v" "length (wires GA GA vs 0) < 67108864" "length vs < 256" "length vs < n"
    and msg: "in_messageBody message = wires GA GA vs 0" "m_header message = h"
      "rd_signature h = Some (MkSignature (BuildMultipleCompleteTypesSignature (map type_of vs)))"
    and paths: "\<forall>a \<in> set (mr_argPaths r). ai_name a \<noteq> [] \<and> arg_text vs (unat (ai_index a)) \<noteq> Some []"
  shows "Matches n r message names = Inr (header_accepted r h names \<and> args_accepted r h vs)"
proof -
  have walk: "\<exists>st. (if HasArguments message
      then (case rd_signature h of None \<Rightarrow> Inl UndefinedBehaviour
        | Some sg \<Rightarrow> WalkSignature n (GetSignature sg) (in_messageBody message) True 0 walk_start)
      else Inr walk_start) = Inr st \<and> ws_stringArgs st = indexed_args string_arg 0 vs \<and>
      ws_objectPathArgs st = indexed_args path_arg 0 vs"
  proof (cases "vs = []")
    case True
    then show ?thesis by (simp add: HasArguments_def msg walk_start_def)
  next
    case False
    then have "wires GA GA vs 0 \<noteq> []" using vs(1) body_arg_nonempty by (intro wires_nonempty) auto
    then show ?thesis
      using walk_simple_args [OF vs] by (simp add: HasArguments_def msg walk_result_def walk_start_def)
  qed
  then obtain st where st: "(if HasArguments message
      then (case rd_signature h of None \<Rightarrow> Inl UndefinedBehaviour
        | Some sg \<Rightarrow> WalkSignature n (GetSignature sg) (in_messageBody message) True 0 walk_start)
      else Inr walk_start) = Inr st" "ws_stringArgs st = indexed_args string_arg 0 vs"
    "ws_objectPathArgs st = indexed_args path_arg 0 vs" by blast
  show ?thesis
    using match_arguments_result [OF st(2,3), of r h] paths
    by (simp add: Matches_def Let_def msg(2) st(1) header_accepted_def list_all_iff)
qed

text \<open>
  What the criteria of a rule mean, after the comments of \<^verbatim>\<open>DBusMatchRule.h\<close> and the D-Bus specification: the sender may be
  named by its unique name or by a well-known name it owns; a path namespace is the path or is followed by further
  components of it, and likewise a namespace of names. The destination is the one the header reports.
\<close>

definition path_under :: "string \<Rightarrow> string \<Rightarrow> bool" where
  "path_under ns p \<longleftrightarrow> p = ns \<or> prefix (if ns = ''/'' then ns else ns @ ''/'') p"

definition name_under :: "string \<Rightarrow> string \<Rightarrow> bool" where
  "name_under ns s \<longleftrightarrow> s = ns \<or> prefix (ns @ ''.'') s"

definition criteria_hold :: "DBusMatchRule \<Rightarrow> ReplyData \<Rightarrow> string list \<Rightarrow> dval list \<Rightarrow> bool" where
  "criteria_hold r h names vs \<longleftrightarrow>
     (\<forall>t. mr_messageType r = Some t \<longrightarrow> rd_messageType h = t) \<and>
     (\<forall>m. mr_member r = Some m \<longrightarrow> rd_member h = Some m) \<and>
     (\<forall>s. mr_sender r = Some s \<longrightarrow> rd_sender h = Some s \<or> s \<in> set names) \<and>
     (\<forall>i. mr_interface r = Some i \<longrightarrow> rd_interface h = Some i) \<and>
     (\<forall>p. mr_path r = Some p \<longrightarrow> rd_objectPath h = Some p) \<and>
     (\<forall>d. mr_destination r = Some d \<longrightarrow> rd_destination h = Some (unique_name d)) \<and>
     (\<forall>ns. mr_pathNamespace r = Some ns \<longrightarrow> (\<exists>p. rd_objectPath h = Some p \<and> path_under (GetPath ns) (GetPath p))) \<and>
     (\<forall>a \<in> set (mr_args r). arg_string vs (unat (ai_index a)) = Some (ai_name a)) \<and>
     (\<forall>a \<in> set (mr_argPaths r). \<exists>s. arg_text vs (unat (ai_index a)) = Some s \<and> path_arg_spec (ai_name a) s) \<and>
     (\<forall>ns. mr_argNamespace r = Some ns \<longrightarrow> (\<exists>s. arg_string vs 0 = Some s \<and> name_under ns s))"

text \<open>The code looks for the namespaces of a rule anywhere in the path and at the start of the argument; this is right when they
  occur there as whole components only.\<close>

definition namespaces_apart :: "DBusMatchRule \<Rightarrow> ReplyData \<Rightarrow> dval list \<Rightarrow> bool" where
  "namespaces_apart r h vs \<longleftrightarrow>
     (\<forall>ns p. mr_pathNamespace r = Some ns \<longrightarrow> rd_objectPath h = Some p \<longrightarrow> sublist (GetPath ns) (GetPath p) \<longrightarrow>
       path_under (GetPath ns) (GetPath p)) \<and>
     (\<forall>ns s. mr_argNamespace r = Some ns \<longrightarrow> arg_string vs 0 = Some s \<longrightarrow> prefix ns s \<longrightarrow> name_under ns s)"

lemma path_under_sublist: "path_under ns p \<Longrightarrow> sublist ns p"
  by (auto simp: path_under_def prefix_def sublist_def split: if_splits) (metis append.left_neutral append.right_neutral)

lemma name_under_prefix: "name_under ns s \<Longrightarrow> prefix ns s"
  by (auto simp: name_under_def prefix_def)

lemma check_match_iff: "check_match res var \<longleftrightarrow> (\<forall>x. var = Some x \<longrightarrow> res = Some x)"
  by (cases var) (auto simp: check_match_def)

lemma criteria_accepted:
  assumes "criteria_hold r h names vs" and "\<forall>name \<in> set names. rd_sender h = Some name"
  shows "header_accepted r h names \<and> args_accepted r h vs"
proof
  note c = assms(1) [unfolded criteria_hold_def]
  show "header_accepted r h names"
    using c assms(2) unfolding header_accepted_def check_match_iff by auto
  show "args_accepted r h vs"
    using c path_under_sublist name_under_prefix unfolding args_accepted_def check_match_iff by auto
qed

lemma accepted_criteria:
  assumes "header_accepted r h names" and "args_accepted r h vs" and "namespaces_apart r h vs"
  shows "criteria_hold r h names vs"
proof -
  have apart: "path_under (GetPath ns) (GetPath p)"
    if "mr_pathNamespace r = Some ns" "rd_objectPath h = Some p" "sublist (GetPath ns) (GetPath p)" for ns p
    using assms(3) that unfolding namespaces_apart_def by blast
  have apart': "name_under ns s" if "mr_argNamespace r = Some ns" "arg_string vs 0 = Some s" "prefix ns s" for ns s
    using assms(3) that unfolding namespaces_apart_def by blast
  note a = assms(1) [unfolded header_accepted_def check_match_iff] assms(2) [unfolded args_accepted_def check_match_iff]
  show ?thesis
    unfolding criteria_hold_def using a apart apart' by (intro conjI) auto
qed


definition example_header :: ReplyData where
  "example_header = \<lparr> rd_serial = 9, rd_replySerial = None, rd_messageType = MT_SIGNAL,
     rd_objectPath = Some (MkObjectPath ''/a/b''), rd_interface = Some (MkInterfaceName ''a.b''),
     rd_member = Some ''Changed'', rd_errorName = None,
     rd_signature = Some (MkSignature (BuildMultipleCompleteTypesSignature (map type_of example_args))),
     rd_sender = Some '':1.5'', rd_destination = Some '':1.5'', rd_messageLength = 40, rd_headerFieldLength = 0 \<rparr>"

definition example_incoming :: IncomingDBusMessage where
  "example_incoming = \<lparr> m_header = example_header, in_messageBody = wires GA GA example_args 0 \<rparr>"

definition example_criteria :: DBusMatchRule where
  "example_criteria = (MatchRule_Member ''Changed'' MatchRule_Create)
     \<lparr> mr_messageType := Some MT_SIGNAL, mr_pathNamespace := Some (MkObjectPath ''/a''),
       mr_args := [\<lparr> ai_name = ''two'', ai_index = 4 \<rparr>], mr_argPaths := [\<lparr> ai_name = ''/'', ai_index = 2 \<rparr>],
       mr_argNamespace := Some ''one'' \<rparr>"

lemma example_fulfilled: "criteria_hold example_criteria example_header ['':1.5''] example_args"
proof -
  have "path_under ''/a'' ''/a/b''" "name_under ''one'' ''one''" by (simp_all add: path_under_def name_under_def)
  then show ?thesis
    by (simp add: criteria_hold_def example_criteria_def example_header_def
        MatchRule_Member_def MatchRule_Create_def arg_string_def arg_text_def arg_path_def example_args_def path_arg_spec_def)
qed


text \<open>Where the code departs from the criteria: the namespace \<^verbatim>\<open>/foo\<close> is found in the path \<^verbatim>\<open>/a/foo\<close>, and the namespace \<^verbatim>\<open>o\<close>
  in the argument \<^verbatim>\<open>one\<close>.\<close>

theorem namespace_anywhere:
  "let h = example_header\<lparr> rd_objectPath := Some (MkObjectPath ''/a/foo'') \<rparr>;
       message = \<lparr> m_header = h, in_messageBody = wires GA GA example_args 0 \<rparr>;
       r1 = MatchRule_Create\<lparr> mr_pathNamespace := Some (MkObjectPath ''/foo'') \<rparr>;
       r2 = MatchRule_Create\<lparr> mr_argNamespace := Some ''o'' \<rparr>
   in Matches 9 r1 message [] = Inr True \<and> \<not> criteria_hold r1 h [] example_args \<and>
      Matches 9 r2 message [] = Inr True \<and> \<not> criteria_hold r2 h [] example_args"
proof -
  let ?h = "example_header\<lparr> rd_objectPath := Some (MkObjectPath ''/a/foo'') \<rparr>"
  let ?m = "\<lparr> m_header = ?h, in_messageBody = wires GA GA example_args 0 \<rparr>"
  let ?r1 = "MatchRule_Create\<lparr> mr_pathNamespace := Some (MkObjectPath ''/foo'') \<rparr>"
  let ?r2 = "MatchRule_Create\<lparr> mr_argNamespace := Some ''o'' \<rparr>"
  have "Matches 9 ?r1 ?m [] = Inr True" "Matches 9 ?r2 ?m [] = Inr True" by code_simp+
  moreover have "\<not> criteria_hold ?r1 ?h [] example_args"
    by (simp add: criteria_hold_def path_under_def)
  moreover have "\<not> criteria_hold ?r2 ?h [] example_args"
    by (simp add: criteria_hold_def MatchRule_Create_def name_under_def arg_string_def example_args_def)
  ultimately show ?thesis by (simp add: Let_def)
qed

text \<open>A rule is not matched by a signal whose sender is known under another name: the names of the cache are
  demanded all at once, while a message carries one sender.\<close>

lemma other_name_no_match:
  "name \<in> set names \<Longrightarrow> rd_sender (m_header message) \<noteq> Some name \<Longrightarrow> Matches n r message names = Inr False"
  by (auto simp: Matches_def Let_def list_all_iff)

section \<open>Arguments the walk does not handle\<close>

lemma signature_head_large: "40 \<le> (of_char (hd (GetTypeSignature t)) :: nat)"
  by (cases t rule: GetTypeSignature.cases) simp_all

lemma misread_signature:
  assumes "l \<le> of_char c" and "l = length (c # cs)" and "l < 256"
  shows "UnmarshalDBusType no_junk 0 (TString SignatureString) (bytes_of_string (c # cs)) ''g'' = Inl DBusMalformedInputError"
proof -
  let ?buf = "bytes_of_string (c # cs)"
  have c: "(of_char c :: nat) < 256" by (metis of_char_mod_256 mod_less_divisor zero_less_numeral)
  have cs: "length cs < 256" using assms(2,3) by simp
  have "holds ?buf 0 (le_bytes 1 (of_char c))"
    using cs c by (simp add: holds_def byte_of_char_def)
  then have "unmarshal_length U8 ?buf 0 = Inr (of_char c, 1)"
    using unmarshal_length_U8 [of ?buf 0 "of_char c"] c by simp
  moreover have "usub64 (length ?buf) 1 = l - 1" using assms(2,3) by simp
  ultimately have "UnmarshalDBusBasicStringlikeType SignatureString ?buf 0 = Inl DBusMalformedInputError"
    using assms(1) le_trans [OF diff_le_self assms(1)] by (simp add: UnmarshalDBusBasicStringlikeType_def del: bytes_of_string_simps)
  then show ?thesis
    using check_signature_self [of "TString SignatureString"] by (simp add: UnmarshalDBusType_def UnmarshalDBusType_at_def)
qed

lemma walk_variant_arg:
  assumes v: "wt v" "content v = Some c" "length (GetTypeSignature (type_of c)) \<le> 40"
    and h: "holds buf (ws_pointer st) (body GA v (ws_pointer st))" and i: "i < length sg" "sg ! i = CHR ''v''"
  shows "WalkSignature (Suc n) sg buf allowed i st = Inl DBusMalformedInputError"
proof -
  let ?p = "ws_pointer st" and ?s = "GetTypeSignature (type_of c)"
  obtain a as where s: "?s = a # as" using signature_nonempty [of "type_of c"] by (cases ?s) auto
  have "40 \<le> (of_char a :: nat)" using signature_head_large [of "type_of c"] s by simp
  then have m: "UnmarshalDBusType no_junk 0 (TString SignatureString) (bytes_of_string ?s) ''g'' = Inl DBusMalformedInputError"
    using v(3) unfolding s by (intro misread_signature [of "length ?s"]) (simp_all add: s)
  have hs: "holds buf ?p (string_body SignatureString ?s)"
    using h unfolding body_variant [OF v(2,1)] by (simp add: Let_def holds_append)
  then have "holds buf ?p (le_bytes 1 (length ?s))" and hb: "holds buf (?p + 1) (bytes_of_string ?s)"
    by (simp_all add: string_body_def holds_append del: le_bytes.simps)
  then have l: "span_number U8 buf ?p = Inr (length ?s)" using v(3) by (intro span_byte_holds) simp_all
  have "span_string SignatureString buf (?p + 1) (length ?s) = Inl DBusMalformedInputError"
    using span_of_holds [OF hb] m by (simp add: span_string_def)
  moreover have "skip_padding 1 st = st" by (cases st) (simp add: skip_padding_def SkipPadding_def)
  moreover have "IsDBusBasicStringlikeTypeCode CHR ''v'' = False" by simp
  ultimately show ?thesis using i l by (simp add: WalkSignature.simps(2) Let_def)
qed

text \<open>No rule matches a signal whose first argument is a variant with a content signature of up to 40
  characters: the walk takes the first character of the signature for its length and throws, also for
  rules without argument criteria.\<close>

theorem variant_argument_unmatchable:
  assumes "wt v" and "content v = Some c" and "length (GetTypeSignature (type_of c)) \<le> 40"
    and "in_messageBody message = body GA v 0 @ tail" and "length (in_messageBody message) < 67108864"
    and "rd_signature (m_header message) = Some (MkSignature (CHR ''v'' # sg))"
    and "header_accepted r (m_header message) names"
  shows "Matches (Suc n) r message names = Inl DBusMalformedInputError"
proof -
  have "holds (in_messageBody message) (ws_pointer walk_start) (body GA v (ws_pointer walk_start))"
    using holds_middle [of "[]" 0 "body GA v 0" tail] assms(4,5) by (simp add: walk_start_def)
  then have "WalkSignature (Suc n) (CHR ''v'' # sg) (in_messageBody message) True 0 walk_start = Inl DBusMalformedInputError"
    using assms(1-3) by (intro walk_variant_arg) simp_all
  moreover have "HasArguments message"
    using assms(4) by (simp add: HasArguments_def body_variant [OF assms(2,1)] Let_def string_body_def)
  ultimately show ?thesis
    using assms(6,7) by (simp add: Matches_def Let_def header_accepted_def list_all_iff)
qed

theorem variant_argument_unmatchable_witness:
  "Matches 1 MatchRule_Create
     \<lparr> m_header = example_header\<lparr> rd_signature := Some (MkSignature ''v'') \<rparr>,
       in_messageBody = body GA (Variant_Create (VFixed (FU32 5))) 0 @ [] \<rparr> [] = Inl DBusMalformedInputError"
proof -
  have "Matches (Suc 0) MatchRule_Create
     \<lparr> m_header = example_header\<lparr> rd_signature := Some (MkSignature ''v'') \<rparr>,
       in_messageBody = body GA (Variant_Create (VFixed (FU32 5))) 0 @ [] \<rparr> [] = Inl DBusMalformedInputError"
  proof (rule variant_argument_unmatchable)
    show "wt (Variant_Create (VFixed (FU32 5)))" by (rule wt_Variant_Create) simp_all
    show "content (Variant_Create (VFixed (FU32 5))) = Some (VFixed (FU32 5))"
      by (simp add: Variant_Create_def SMALL_BUFFER_SIZE_def mem_size_def)
    have "length (body GA (Variant_Create (VFixed (FU32 5))) 0 @ []) = 8" by code_simp
    then show "length (in_messageBody \<lparr> m_header = example_header\<lparr> rd_signature := Some (MkSignature ''v'') \<rparr>,
        in_messageBody = body GA (Variant_Create (VFixed (FU32 5))) 0 @ [] \<rparr>) < 67108864" by simp
  qed (simp_all add: header_accepted_def check_match_def MatchRule_Create_def)
  then show ?thesis by simp
qed

text \<open>The walk passes over all but the last field of a struct, so a string behind a struct is misread: a
  rule on the second argument, \<^verbatim>\<open>c\<close>, is matched against the struct's second field, \<^verbatim>\<open>b\<close>.\<close>

theorem struct_argument_misread:
  "let vs = [VTuple [VString StdString ''a'', VString StdString ''b''], VString StdString ''c''];
       message = \<lparr> m_header = example_header\<lparr> rd_signature :=
           Some (MkSignature (BuildMultipleCompleteTypesSignature (map type_of vs))) \<rparr>,
         in_messageBody = wires GA GA vs 0 \<rparr>
   in Matches 9 (MatchRule_Create\<lparr> mr_args := [\<lparr> ai_name = ''c'', ai_index = 1 \<rparr>] \<rparr>) message [] = Inr False \<and>
      Matches 9 (MatchRule_Create\<lparr> mr_args := [\<lparr> ai_name = ''b'', ai_index = 1 \<rparr>] \<rparr>) message [] = Inr True"
  unfolding Let_def by (intro conjI; code_simp)

text \<open>An argument that is a dictionary is counted twice, so the string behind it has index 2, and a struct
  with one field at the end of the signature makes the walk throw.\<close>

theorem container_arguments_misread:
  "let vs = [VMap (TFixed U8) (TFixed U8) [(VFixed (FU8 1), VFixed (FU8 2))], VString StdString ''c''];
       message = \<lparr> m_header = example_header\<lparr> rd_signature :=
           Some (MkSignature (BuildMultipleCompleteTypesSignature (map type_of vs))) \<rparr>,
         in_messageBody = wires GA GA vs 0 \<rparr>;
       us = [VTuple [VString StdString ''a'']];
       message2 = \<lparr> m_header = example_header\<lparr> rd_signature :=
           Some (MkSignature (BuildMultipleCompleteTypesSignature (map type_of us))) \<rparr>,
         in_messageBody = wires GA GA us 0 \<rparr>
   in Matches 9 (MatchRule_Create\<lparr> mr_args := [\<lparr> ai_name = ''c'', ai_index = 1 \<rparr>] \<rparr>) message [] = Inr False \<and>
      Matches 9 (MatchRule_Create\<lparr> mr_args := [\<lparr> ai_name = ''c'', ai_index = 2 \<rparr>] \<rparr>) message [] = Inr True \<and>
      Matches 9 MatchRule_Create message2 [] = Inl RuntimeError"
  unfolding Let_def by (intro conjI; code_simp)

end
