(* ===== verification/NameCache.thy ===== *)
theory NameCache
  imports MatchRule
begin

text \<open>
  The cache of well-known names: \<^verbatim>\<open>src/src/DBusNameCache.h\<close> and \<^verbatim>\<open>src/src/DBusNameCache.txx\<close>. It follows the
  daemon's \<^verbatim>\<open>NameOwnerChanged\<close> signals, so that a signal's sender, which is a unique name, can be recognised
  under its well-known names. The interface is the locale \<open>owner_table\<close>; the cache interprets it.
\<close>

section \<open>The cache\<close>

text \<open>\<^verbatim>\<open>std::unordered_map<std::string, std::set<std::string>>\<close>; a \<^verbatim>\<open>std::set\<close> is its sorted list of elements.\<close>

type_synonym name_cache = "string \<rightharpoonup> string list"

definition NameCache_empty :: name_cache where
  "NameCache_empty = Map.empty"

definition forget_name :: "string \<Rightarrow> string \<Rightarrow> name_cache \<Rightarrow> name_cache" where
  "forget_name wellKnownName oldUniqueName cache =
     (if oldUniqueName \<noteq> [] then
        (case cache oldUniqueName of
           None \<Rightarrow> cache
         | Some names \<Rightarrow>
             let names1 = (if wellKnownName \<in> set names then remove1 wellKnownName names else names) in
             if names1 = [] then cache(oldUniqueName := None) else cache(oldUniqueName \<mapsto> names1))
      else cache)"

definition learn_name :: "string \<Rightarrow> string \<Rightarrow> name_cache \<Rightarrow> name_cache" where
  "learn_name wellKnownName uniqueName cache =
     (if uniqueName \<noteq> [] then
        cache(uniqueName \<mapsto> insort_insert wellKnownName (case cache uniqueName of None \<Rightarrow> [] | Some names \<Rightarrow> names))
      else cache)"

definition owner_changed :: "string \<Rightarrow> string \<Rightarrow> string \<Rightarrow> name_cache \<Rightarrow> name_cache" where
  "owner_changed wellKnownName oldUniqueName uniqueName cache =
     learn_name wellKnownName uniqueName (forget_name wellKnownName oldUniqueName cache)"

text \<open>The signal's three strings are unmarshalled first; an exception leaves the cache as it is.\<close>

definition OnNameOwnerChanged ::
    "(nat \<Rightarrow> nat \<Rightarrow> 8 word) \<Rightarrow> nat \<Rightarrow> IncomingDBusMessage \<Rightarrow> name_cache \<Rightarrow> name_cache result" where
  "OnNameOwnerChanged junk n message cache =
     bindE (IncomingDBusMessage_GetMultiple junk n [TString StdString, TString StdString, TString StdString] message)
       (\<lambda>parameters. Inr (owner_changed (the_string (parameters ! 0)) (the_string (parameters ! 1))
          (the_string (parameters ! 2)) cache))"

definition GetWellKnownNames :: "string \<Rightarrow> name_cache \<Rightarrow> string list" where
  "GetWellKnownNames uniqueName cache =
     uniqueName # (case cache uniqueName of None \<Rightarrow> [] | Some names \<Rightarrow> names)"

text \<open>The rule \<^verbatim>\<open>SubscribeToNameChanges\<close> adds.\<close>

definition name_change_rule :: "DBusMatchRule result" where
  "name_change_rule =
     bindE (make_DBusWellKnownName ''org.freedesktop.DBus'') (\<lambda>n.
       bindE (make_ObjectPath ''/org/freedesktop/DBus'') (\<lambda>p.
         bindE (MatchRule_Path p (MatchRule_Sender (Inl n) MatchRule_Create)) (\<lambda>r.
           bindE (make_DBusInterfaceName ''org.freedesktop.DBus'') (\<lambda>i.
             Inr (MatchRule_Member ''NameOwnerChanged'' (MatchRule_Interface i r))))))"

section \<open>Invariant\<close>

definition cached_names :: "name_cache \<Rightarrow> string \<Rightarrow> string set" where
  "cached_names cache u = (case cache u of None \<Rightarrow> {} | Some names \<Rightarrow> set names)"

definition cache_inv :: "name_cache \<Rightarrow> bool" where
  "cache_inv cache \<longleftrightarrow> (\<forall>u names. cache u = Some names \<longrightarrow> names \<noteq> [] \<and> sorted names \<and> distinct names)"

lemma cache_inv_empty: "cache_inv NameCache_empty"
  by (simp add: cache_inv_def NameCache_empty_def)

lemma cache_inv_forget: "cache_inv cache \<Longrightarrow> cache_inv (forget_name w u cache)"
  by (auto simp: cache_inv_def forget_name_def Let_def sorted_remove1 distinct_remove1 split: option.splits if_splits)

lemma cache_inv_learn: "cache_inv cache \<Longrightarrow> cache_inv (learn_name w u cache)"
  by (auto simp: cache_inv_def learn_name_def insort_insert_key_def sorted_insort distinct_insort split: option.splits)

lemma cache_inv_changed: "cache_inv cache \<Longrightarrow> cache_inv (owner_changed w old new cache)"
  by (simp add: owner_changed_def cache_inv_forget cache_inv_learn)

lemma remove1_empty: "distinct xs \<Longrightarrow> remove1 w xs = [] \<Longrightarrow> set xs - {w} = {}"
  by (metis list.set(1) set_remove1_eq)

lemma cached_forget:
  assumes "cache_inv cache"
  shows "cached_names (forget_name w old cache) u =
     (if u = old \<and> old \<noteq> [] then cached_names cache u - {w} else cached_names cache u)"
proof (cases "cache old")
  case (Some names)
  then have "distinct names" using assms by (simp add: cache_inv_def)
  then show ?thesis
    using Some remove1_empty [of names w]
    by (auto simp: cached_names_def forget_name_def Let_def set_remove1_eq)
qed (auto simp: cached_names_def forget_name_def)

lemma cached_learn:
  "cached_names (learn_name w new cache) u =
     (if u = new \<and> new \<noteq> [] then insert w (cached_names cache u) else cached_names cache u)"
  by (auto simp: cached_names_def learn_name_def set_insort_insert split: option.splits)

section \<open>The interface\<close>

text \<open>A table of names: \<open>change w old new\<close> records that \<open>w\<close> passes from \<open>old\<close> to \<open>new\<close>, where the empty string is
  nobody.\<close>

locale owner_table =
  fixes inv :: "'s \<Rightarrow> bool" and start :: 's
    and change :: "string \<Rightarrow> string \<Rightarrow> string \<Rightarrow> 's \<Rightarrow> 's" and names :: "'s \<Rightarrow> string \<Rightarrow> string set"
  assumes inv_start: "inv start" and inv_change: "inv s \<Longrightarrow> inv (change w old new s)"
    and names_start: "names start u = {}"
    and names_change: "inv s \<Longrightarrow> names (change w old new s) u =
      (if u = new \<and> new \<noteq> [] then insert w else id)
        (if u = old \<and> old \<noteq> [] then names s u - {w} else names s u)"
begin

text \<open>The daemon announces a list of changes, each name with its new owner; \<open>owner\<close> is who owned what before.\<close>

definition announce :: "(string \<Rightarrow> string) \<Rightarrow> 's \<Rightarrow> (string \<times> string) list \<Rightarrow> (string \<Rightarrow> string) \<times> 's" where
  "announce owner s changes = fold (\<lambda>(w, new) (owner, s). (owner(w := new), change w (owner w) new s)) changes (owner, s)"

lemma announce_simps [simp]:
  "announce owner s [] = (owner, s)"
  "announce owner s ((w, new) # changes) = announce (owner(w := new)) (change w (owner w) new s) changes"
  by (simp_all add: announce_def)

lemma announce_inv: "inv s \<Longrightarrow> inv (snd (announce owner s changes))"
  by (induction changes arbitrary: owner s) (auto simp: inv_change)

lemma announce_names:
  assumes "inv s" and "\<And>u. u \<noteq> [] \<Longrightarrow> names s u = {w \<in> known. owner w = u}"
  shows "u \<noteq> [] \<Longrightarrow> names (snd (announce owner s changes)) u =
    {w \<in> known \<union> fst ` set changes. fst (announce owner s changes) w = u}"
  using assms
proof (induction changes arbitrary: owner s known)
  case (Cons x changes)
  obtain w new where x: "x = (w, new)" by (cases x)
  have "names (change w (owner w) new s) u = {v \<in> insert w known. (owner(w := new)) v = u}" if "u \<noteq> []" for u
    using Cons.prems(3) [OF that] that by (auto simp: names_change [OF Cons.prems(2)])
  then show ?case
    using Cons.IH [OF Cons.prems(1) inv_change [OF Cons.prems(2)], of w "owner w" new "insert w known" "owner(w := new)"]
    by (simp add: x Un_insert_left del: fun_upd_apply)
qed simp

lemma names_after: "u \<noteq> [] \<Longrightarrow> names (snd (announce owner start changes)) u =
    {w \<in> fst ` set changes. fst (announce owner start changes) w = u}"
  using announce_names [OF inv_start, of "{}" owner u changes] by (simp add: names_start)

end

interpretation cache: owner_table cache_inv NameCache_empty owner_changed cached_names
proof
  show "cached_names (owner_changed w old new s) u =
      (if u = new \<and> new \<noteq> [] then insert w else id)
        (if u = old \<and> old \<noteq> [] then cached_names s u - {w} else cached_names s u)" if "cache_inv s" for s w old new u
    by (simp add: owner_changed_def cached_learn cached_forget [OF that])
  show "cached_names NameCache_empty u = {}" for u
    by (simp add: cached_names_def NameCache_empty_def)
qed (fact cache_inv_empty cache_inv_changed)+

section \<open>What the cache knows\<close>

text \<open>The bus announces changes of ownership: each name with its new owner, the empty string for nobody. The
  signals carry the owner before, which \<open>owner\<close> says.\<close>

fun owners :: "(string \<Rightarrow> string) \<Rightarrow> (string \<times> string) list \<Rightarrow> string \<Rightarrow> string" where
  "owners owner [] = owner"
| "owners owner ((w, new) # changes) = owners (owner(w := new)) changes"

fun hear :: "(string \<Rightarrow> string) \<Rightarrow> (string \<times> string) list \<Rightarrow> name_cache \<Rightarrow> name_cache" where
  "hear owner [] cache = cache"
| "hear owner ((w, new) # changes) cache = hear (owner(w := new)) changes (owner_changed w (owner w) new cache)"

lemma announce_hear: "cache.announce owner cache changes = (owners owner changes, hear owner changes cache)"
  by (induction owner changes cache rule: hear.induct) (simp_all del: fun_upd_apply)

lemma cache_inv_hear: "cache_inv cache \<Longrightarrow> cache_inv (hear owner changes cache)"
  using cache.announce_inv [of cache owner changes] by (simp add: announce_hear)

lemma cached_sorted:
  assumes "cache_inv cache"
  shows "(case cache u of None \<Rightarrow> [] | Some names \<Rightarrow> names) = sorted_list_of_set (cached_names cache u)"
proof (cases "cache u")
  case (Some names)
  then have "sorted names" "distinct names" using assms by (auto simp: cache_inv_def)
  then have "sorted_list_of_set (set names) = names" by (rule sorted_list_of_set.idem_if_sorted_distinct)
  then show ?thesis using Some by (simp add: cached_names_def)
qed (simp add: cached_names_def)

text \<open>C9: After any sequence of ownership changes, in whatever order names pass between connections, the
  cache gives for a connection its unique name followed by exactly the names it owns now among those that
  changed, in order and without duplicates.\<close>

theorem cache_tracks_owners:
  assumes "u \<noteq> []"
  shows "GetWellKnownNames u (hear owner changes NameCache_empty) =
    u # sorted_list_of_set {w \<in> fst ` set changes. owners owner changes w = u}"
  using cache.names_after [OF assms, of owner changes] cached_sorted [OF cache_inv_hear [OF cache_inv_empty], of owner changes u]
  by (simp add: GetWellKnownNames_def announce_hear)

theorem cache_tracks_owners_witness:
  "GetWellKnownNames '':1.5'' (hear (\<lambda>_. []) [(''org.b'', '':1.5''), (''org.a'', '':1.4''), (''org.a'', '':1.5''), (''org.b'', [])]
     NameCache_empty) = ['':1.5'', ''org.a'']"
proof -
  have "{w \<in> fst ` set [(''org.b'', '':1.5''), (''org.a'', '':1.4''), (''org.a'', '':1.5''), (''org.b'', [])].
      owners (\<lambda>_. []) [(''org.b'', '':1.5''), (''org.a'', '':1.4''), (''org.a'', '':1.5''), (''org.b'', [])] w = '':1.5''} = {''org.a''}"
    by auto
  then show ?thesis
    using cache_tracks_owners [of "'':1.5''" "\<lambda>_. []"
        "[(''org.b'', '':1.5''), (''org.a'', '':1.4''), (''org.a'', '':1.5''), (''org.b'', [])]"] by simp
qed

section \<open>The signal on the wire\<close>

definition change_values :: "string \<Rightarrow> string \<Rightarrow> string \<Rightarrow> dval list" where
  "change_values wellKnownName old new = [VString StdString wellKnownName, VString StdString old, VString StdString new]"

definition change_signal :: "ReplyData \<Rightarrow> string \<Rightarrow> string \<Rightarrow> string \<Rightarrow> IncomingDBusMessage" where
  "change_signal header wellKnownName old new =
     \<lparr> m_header = header\<lparr> rd_signature := Some (MkSignature ''sss'') \<rparr>,
       in_messageBody = wires GA GA (change_values wellKnownName old new) 0 \<rparr>"

lemma std_strings_read:
  assumes "\<forall>s \<in> set ss. plain s" and "length (wires GA GA (map (VString StdString) ss) 0) < 67108864"
    and "length (wires GA GA (map (VString StdString) ss) 0) < n"
    and "check_signature sg (concat (replicate (length ss) ''s'')) = Inr ()"
  shows "UnmarshalMultipleCompleteTypes junk n (replicate (length ss) (TString StdString))
      (wires GA GA (map (VString StdString) ss) 0) sg = Inr (map (VString StdString) ss)"
proof -
  let ?vs = "map (VString StdString) ss" and ?Ts = "replicate (length ss) (TString StdString)"
  have ts: "?Ts = map type_of ?vs" by (simp add: list_eq_iff_nth_eq)
  have "\<exists>us. UnmarshalDBusBasicMultipleCompleteTypes junk n ?Ts (wires GA GA ?vs 0) 0 = Inr (us, length (wires GA GA ?vs 0)) \<and>
      list_all2 received ?vs us \<and> map type_of us = ?Ts"
  proof (rule multiple_read [OF _ _ assms(3)])
    show "list_all2 accepts ?Ts ?vs" using assms(1) by (auto simp: list_all2_conv_all_nth plain_def valid_string_def)
    show "wt v" if "v \<in> set ?vs" for v using that assms(1) by (auto simp: plain_def valid_string_def)
    show "holds (wires GA GA ?vs 0) 0 (wires GA GA ?vs 0)" using assms(2) by (simp add: holds_def)
  qed
  then obtain us where us: "UnmarshalDBusBasicMultipleCompleteTypes junk n ?Ts (wires GA GA ?vs 0) 0 = Inr (us, length (wires GA GA ?vs 0))"
      "list_all2 received ?vs us" "map type_of us = ?Ts"
    by blast
  have "us = ?vs"
    by (rule received_same_list [OF us(2)]) (use us(3) ts assms(1) in \<open>auto simp: plain_def valid_string_def\<close>)
  moreover have "BuildMultipleCompleteTypesSignature ?Ts = concat (replicate (length ss) ''s'')"
    by (simp add: BuildMultipleCompleteTypesSignature_def map_replicate)
  ultimately show ?thesis using us(1) assms(4) by (simp add: UnmarshalMultipleCompleteTypes_def)
qed

text \<open>Hearing the daemon's signal, with its three strings marshalled in its body, updates the cache with
  these names.\<close>

theorem name_signal_heard:
  assumes "plain w" and "plain old" and "plain new"
    and "length (wires GA GA (change_values w old new) 0) < 67108864"
    and "length (wires GA GA (change_values w old new) 0) < n"
  shows "OnNameOwnerChanged junk n (change_signal header w old new) cache = Inr (owner_changed w old new cache)"
proof -
  have "check_signature ''sss'' (concat (replicate 3 ''s'')) = Inr ()" by code_simp
  then show ?thesis
    using std_strings_read [of "[w, old, new]" n "''sss''" junk] assms
    by (simp add: OnNameOwnerChanged_def IncomingDBusMessage_GetMultiple_def change_signal_def change_values_def
        numeral_3_eq_3 del: wires.simps(2))
qed

theorem name_signal_heard_witness:
  "OnNameOwnerChanged no_junk 50 (change_signal example_header ''org.a'' [] '':1.5'') NameCache_empty =
     Inr (owner_changed ''org.a'' [] '':1.5'' NameCache_empty)"
  by (rule name_signal_heard) (simp_all add: plain_def change_values_def, code_simp+)

end
