(* ===== verification/Connection.thy ===== *)
theory Connection
  imports NameCache
begin

text \<open>
  The state of a connection and its reply channels: \<^verbatim>\<open>struct ChannelInfo\<close> and \<^verbatim>\<open>struct InternalState\<close> of
  \<^verbatim>\<open>src/src/DBusConnection.h\<close>, and from \<^verbatim>\<open>src/src/DBusConnection.txx\<close> the constructor, \<^verbatim>\<open>SendMessageInternal\<close>
  and the reply branch of \<^verbatim>\<open>HandleReadMessage\<close>, for the single-threaded connection. A coroutine is cut at its
  \<^verbatim>\<open>co_await\<close>s: what runs between two of them is one function on the state. The channels are Boost.Asio's and
  are parameters: \<open>channel_ops\<close> holds their operations, and \<open>fifo_channel\<close> is the documented behaviour the
  properties rely on, a queue. User callbacks are identifiers of a type of their own.
\<close>

section \<open>State\<close>

record 'c channel_ops =
  new_channel :: 'c
  async_send :: "IncomingDBusMessage \<Rightarrow> 'c \<Rightarrow> 'c"
  async_receive :: "'c \<Rightarrow> (IncomingDBusMessage \<times> 'c) option"

text \<open>\<open>pend\<close> gives the messages sent and not yet received; receiving from a channel without any waits.\<close>

definition fifo_channel :: "'c channel_ops \<Rightarrow> ('c \<Rightarrow> IncomingDBusMessage list) \<Rightarrow> bool" where
  "fifo_channel ops pend \<longleftrightarrow> pend (new_channel ops) = [] \<and>
     (\<forall>m c. pend (async_send ops m c) = pend c @ [m]) \<and>
     (\<forall>c. case pend c of [] \<Rightarrow> async_receive ops c = None
        | m # ms \<Rightarrow> (\<exists>c'. async_receive ops c = Some (m, c') \<and> pend c' = ms))"

datatype MessageHandled = YES | NO

text \<open>A callback of a match rule is the user's or the one the name cache registers.\<close>

datatype 'h callback = User 'h | NameCacheCallback

record 'h MatchRuleInfo =
  mri_rule :: DBusMatchRule
  mri_callback :: "'h callback list"
  mri_executeOnUserContext :: bool

record 'c ChannelInfo =
  ci_channel :: 'c
  ci_serial :: "32 word"
  ci_ready :: bool

record ('c, 'h) InternalState =
  st_replyChannels :: "'c ChannelInfo list"
  st_fallbackReplyChannels :: "32 word \<rightharpoonup> 'c"
  st_onIncomingSignal :: "'h list"
  st_messageFilters :: "32 word \<rightharpoonup> 'h"
  st_messageFilterID :: "32 word"
  st_connectionReady :: bool
  st_nrOfWaiters :: int
  st_socketOpen :: bool
  st_uniqueConnection :: "DBusUniqueConnectionName option"
  st_wellKnownNames :: "DBusWellKnownName list"
  st_serial :: "32 word"
  st_matchRules :: "'h MatchRuleInfo list"
  st_nameCache :: name_cache
  st_objectPathHandlers :: "string \<rightharpoonup> 'h list"
  st_shouldQuit :: bool

definition CXXBUS_MAX_CONCURRENT_MESSAGES :: nat where
  "CXXBUS_MAX_CONCURRENT_MESSAGES = 56"

definition new_connection :: "'c channel_ops \<Rightarrow> DBusWellKnownName option \<Rightarrow> ('c, 'h) InternalState" where
  "new_connection ops wellKnownName =
     \<lparr> st_replyChannels = replicate CXXBUS_MAX_CONCURRENT_MESSAGES
         \<lparr> ci_channel = new_channel ops, ci_serial = 0, ci_ready = True \<rparr>,
       st_fallbackReplyChannels = Map.empty, st_onIncomingSignal = [], st_messageFilters = Map.empty,
       st_messageFilterID = 0, st_connectionReady = False, st_nrOfWaiters = 0, st_socketOpen = False,
       st_uniqueConnection = None,
       st_wellKnownNames = (case wellKnownName of None \<Rightarrow> [] | Some name \<Rightarrow> [name]),
       st_serial = 1, st_matchRules = [], st_nameCache = NameCache_empty, st_objectPathHandlers = Map.empty,
       st_shouldQuit = False \<rparr>"

section \<open>Sending a message and receiving its reply\<close>

definition slot_of :: "32 word \<Rightarrow> nat" where
  "slot_of serial = unat serial mod CXXBUS_MAX_CONCURRENT_MESSAGES"

text \<open>What the coroutine keeps while it waits.\<close>

record ticket =
  tk_serial :: "32 word"
  tk_expectsReply :: bool
  tk_newChannelUsed :: bool

text \<open>Up to the write: the serial is taken and the channel reserved, then the message is serialised. When
  the map already holds a channel under the serial, the new one is destroyed and the coroutine goes on with a
  dangling pointer to it.\<close>

definition reserve_channel :: "'c channel_ops \<Rightarrow> 32 word \<Rightarrow> ('c, 'h) InternalState \<Rightarrow> ('c, 'h) InternalState" where
  "reserve_channel ops serial st =
     (let i = slot_of serial; channInfo = st_replyChannels st ! i in
      if \<not> ci_ready channInfo
      then (if st_fallbackReplyChannels st serial \<noteq> None then st
            else st\<lparr> st_fallbackReplyChannels := (st_fallbackReplyChannels st)(serial \<mapsto> new_channel ops) \<rparr>)
      else st\<lparr> st_replyChannels := (st_replyChannels st)[i := channInfo\<lparr> ci_ready := False, ci_serial := serial \<rparr>] \<rparr>)"

definition SendMessageInternal_begin ::
    "'c channel_ops \<Rightarrow> DBusMessage \<Rightarrow> ('c, 'h) InternalState \<Rightarrow> ('c, 'h) InternalState \<times> (8 word list \<times> ticket) result" where
  "SendMessageInternal_begin ops message st =
     (let expectsReply = ExpectsReply message;
          serial = st_serial st;
          st1 = st\<lparr> st_serial := serial + 1 \<rparr>;
          newChannelUsed = (expectsReply \<and> \<not> ci_ready (st_replyChannels st ! slot_of serial));
          st2 = (if expectsReply then reserve_channel ops serial st1 else st1)
      in (st2,
          if newChannelUsed \<and> st_fallbackReplyChannels st serial \<noteq> None then Inl UndefinedBehaviour
          else bindE (Serialize message serial) (\<lambda>bytes. Inr (bytes,
            \<lparr> tk_serial = serial, tk_expectsReply = expectsReply, tk_newChannelUsed = newChannelUsed \<rparr>))))"

text \<open>An \<^verbatim>\<open>ERROR\<close> reply is thrown as a \<^verbatim>\<open>DBusError\<close>.\<close>

definition reply_result ::
    "(nat \<Rightarrow> nat \<Rightarrow> 8 word) \<Rightarrow> nat \<Rightarrow> IncomingDBusMessage \<Rightarrow> IncomingDBusMessage option result" where
  "reply_result junk n reply =
     (if rd_messageType (m_header reply) = MT_ERROR
      then bindE (if HasArguments reply \<and> rd_signature (m_header reply) = Some (MkSignature ''s'')
                  then bindE (IncomingDBusMessage_Get junk n (TString StdString) reply) (\<lambda>v. Inr (the_string v))
                  else Inr ''No error message was provided by the remote'') (\<lambda>message.
             Inl (DBusError (case rd_errorName (m_header reply) of None \<Rightarrow> ''Missing'' | Some name \<Rightarrow> name) message))
      else Inr (Some reply))"

text \<open>After the write: \<open>None\<close> while the coroutine waits for its channel.\<close>

definition release_channel :: "'c channel_ops \<Rightarrow> ticket \<Rightarrow> ('c, 'h) InternalState \<Rightarrow> (('c, 'h) InternalState \<times> IncomingDBusMessage) option" where
  "release_channel ops t st =
     (if tk_newChannelUsed t
      then (case st_fallbackReplyChannels st (tk_serial t) of
              None \<Rightarrow> None
            | Some c \<Rightarrow> (case async_receive ops c of
                None \<Rightarrow> None
              | Some (reply, _) \<Rightarrow> Some (st\<lparr> st_fallbackReplyChannels := (st_fallbackReplyChannels st)(tk_serial t := None) \<rparr>, reply)))
      else let i = slot_of (tk_serial t); channInfo = st_replyChannels st ! i in
           (case async_receive ops (ci_channel channInfo) of
              None \<Rightarrow> None
            | Some (reply, c) \<Rightarrow> Some (st\<lparr> st_replyChannels :=
                (st_replyChannels st)[i := channInfo\<lparr> ci_channel := c, ci_ready := True \<rparr>] \<rparr>, reply)))"

definition SendMessageInternal_finish ::
    "(nat \<Rightarrow> nat \<Rightarrow> 8 word) \<Rightarrow> nat \<Rightarrow> 'c channel_ops \<Rightarrow> ticket \<Rightarrow> ('c, 'h) InternalState \<Rightarrow>
     (('c, 'h) InternalState \<times> IncomingDBusMessage option result) option" where
  "SendMessageInternal_finish junk n ops t st =
     (if \<not> tk_expectsReply t then Some (st, Inr None)
      else map_option (\<lambda>(st', reply). (st', reply_result junk n reply)) (release_channel ops t st))"

text \<open>The branch of \<^verbatim>\<open>HandleReadMessage\<close> for a message with a reply serial.\<close>

definition HandleReply :: "'c channel_ops \<Rightarrow> IncomingDBusMessage \<Rightarrow> 32 word \<Rightarrow> ('c, 'h) InternalState \<Rightarrow> ('c, 'h) InternalState result" where
  "HandleReply ops message replySerial st =
     (let i = slot_of replySerial; channInfo = st_replyChannels st ! i in
      if ci_serial channInfo = replySerial \<and> \<not> ci_ready channInfo
      then Inr (st\<lparr> st_replyChannels := (st_replyChannels st)[i := channInfo
                  \<lparr> ci_channel := async_send ops message (ci_channel channInfo) \<rparr>] \<rparr>)
      else (case st_fallbackReplyChannels st replySerial of
              Some c \<Rightarrow> Inr (st\<lparr> st_fallbackReplyChannels :=
                (st_fallbackReplyChannels st)(replySerial \<mapsto> async_send ops message c) \<rparr>)
            | None \<Rightarrow> Inl InternalError))"

section \<open>The calls that are waiting\<close>

text \<open>What the slots and the map stand for: for each serial in use, the replies that have arrived. The array of
  slots is only a cache for this map.\<close>

definition active :: "('c, 'h) InternalState \<Rightarrow> 32 word \<Rightarrow> bool" where
  "active st s \<longleftrightarrow> ci_serial (st_replyChannels st ! slot_of s) = s \<and> \<not> ci_ready (st_replyChannels st ! slot_of s)"

definition calls :: "('c \<Rightarrow> IncomingDBusMessage list) \<Rightarrow> ('c, 'h) InternalState \<Rightarrow> 32 word \<rightharpoonup> IncomingDBusMessage list" where
  "calls pend st s =
     (if active st s then Some (pend (ci_channel (st_replyChannels st ! slot_of s)))
      else map_option pend (st_fallbackReplyChannels st s))"

definition reply_inv :: "('c \<Rightarrow> IncomingDBusMessage list) \<Rightarrow> ('c, 'h) InternalState \<Rightarrow> bool" where
  "reply_inv pend st \<longleftrightarrow>
     length (st_replyChannels st) = CXXBUS_MAX_CONCURRENT_MESSAGES \<and>
     (\<forall>i < CXXBUS_MAX_CONCURRENT_MESSAGES. let c = st_replyChannels st ! i in
        if ci_ready c then pend (ci_channel c) = [] else slot_of (ci_serial c) = i) \<and>
     (\<forall>s. st_fallbackReplyChannels st s \<noteq> None \<longrightarrow> \<not> active st s)"

text \<open>A ticket names the channel under its serial.\<close>

definition ticket_ok :: "('c, 'h) InternalState \<Rightarrow> ticket \<Rightarrow> bool" where
  "ticket_ok st t \<longleftrightarrow> tk_expectsReply t \<and>
     (if tk_newChannelUsed t then st_fallbackReplyChannels st (tk_serial t) \<noteq> None else active st (tk_serial t))"

lemma slot_less [simp]: "slot_of s < CXXBUS_MAX_CONCURRENT_MESSAGES"
  by (simp add: slot_of_def CXXBUS_MAX_CONCURRENT_MESSAGES_def)

lemma calls_state_cong:
  "st_replyChannels st' = st_replyChannels st \<Longrightarrow> st_fallbackReplyChannels st' = st_fallbackReplyChannels st \<Longrightarrow>
   calls pend st' = calls pend st \<and> active st' = active st \<and> reply_inv pend st' = reply_inv pend st \<and>
   ticket_ok st' = ticket_ok st"
  by (intro conjI ext) (simp_all add: calls_def active_def reply_inv_def ticket_ok_def)

lemma reply_inv_new: "fifo_channel ops pend \<Longrightarrow> reply_inv pend (new_connection ops name)"
  by (simp add: reply_inv_def new_connection_def fifo_channel_def active_def)

lemma calls_new: "calls pend (new_connection ops name) = Map.empty"
  by (rule ext) (simp add: calls_def active_def new_connection_def)

lemma reply_inv_length: "reply_inv pend st \<Longrightarrow> slot_of s < length (st_replyChannels st)"
  by (simp add: reply_inv_def)

lemma reply_inv_ready: "reply_inv pend st \<Longrightarrow> ci_ready (st_replyChannels st ! slot_of s) \<Longrightarrow>
    pend (ci_channel (st_replyChannels st ! slot_of s)) = []"
  using slot_less [of s] by (auto simp: reply_inv_def Let_def)

lemma reply_inv_fallback: "reply_inv pend st \<Longrightarrow> st_fallbackReplyChannels st s \<noteq> None \<Longrightarrow> \<not> active st s"
  by (auto simp: reply_inv_def)

text \<open>Writing one slot: what an update of it must keep for the invariant.\<close>

definition set_slot :: "nat \<Rightarrow> 'c ChannelInfo \<Rightarrow> ('c, 'h) InternalState \<Rightarrow> ('c, 'h) InternalState" where
  "set_slot i c st = st\<lparr> st_replyChannels := (st_replyChannels st)[i := c] \<rparr>"

definition set_fallback :: "32 word \<Rightarrow> 'c option \<Rightarrow> ('c, 'h) InternalState \<Rightarrow> ('c, 'h) InternalState" where
  "set_fallback s c st = st\<lparr> st_fallbackReplyChannels := (st_fallbackReplyChannels st)(s := c) \<rparr>"

lemma active_fallback: "reply_inv pend st \<Longrightarrow> active st s \<Longrightarrow> st_fallbackReplyChannels st s = None"
  using reply_inv_fallback by blast

lemma active_set_slot:
  assumes "reply_inv pend st"
  shows "active (set_slot (slot_of s) c st) s' \<longleftrightarrow>
    (if slot_of s' = slot_of s then ci_serial c = s' \<and> \<not> ci_ready c else active st s')"
  using reply_inv_length [OF assms, of s] by (auto simp: active_def set_slot_def)

lemma active_set_fallback [simp]: "active (set_fallback s c st) s' = active st s'"
  by (simp add: active_def set_fallback_def)

lemma reply_inv_set_slot:
  assumes i: "reply_inv pend st"
    and "if ci_ready c then pend (ci_channel c) = [] else ci_serial c = s \<and> st_fallbackReplyChannels st s = None"
  shows "reply_inv pend (set_slot (slot_of s) c st)"
proof -
  have "\<not> active (set_slot (slot_of s) c st) s'" if "st_fallbackReplyChannels st s' \<noteq> None" for s'
    using reply_inv_fallback [OF i that] that assms(2) by (auto simp: active_set_slot [OF i] split: if_splits)
  moreover have "let d = (st_replyChannels st)[slot_of s := c] ! j in
      if ci_ready d then pend (ci_channel d) = [] else slot_of (ci_serial d) = j"
    if "j < CXXBUS_MAX_CONCURRENT_MESSAGES" for j
    using i that assms(2) by (cases "j = slot_of s") (auto simp: reply_inv_def Let_def split: if_splits)
  ultimately show ?thesis using i by (simp add: reply_inv_def set_slot_def)
qed

lemma reply_inv_set_fallback:
  assumes "reply_inv pend st" and "c \<noteq> None \<longrightarrow> \<not> active st s"
  shows "reply_inv pend (set_fallback s c st)"
proof -
  have "\<not> active st s'" if "((st_fallbackReplyChannels st)(s := c)) s' \<noteq> None" for s'
    using that assms reply_inv_fallback [OF assms(1), of s'] by (auto split: if_splits)
  then show ?thesis
    using assms(1) active_set_fallback [of s c st] by (simp add: reply_inv_def set_fallback_def)
qed

lemma calls_set_slot:
  assumes i: "reply_inv pend st" and "\<not> ci_ready c \<longrightarrow> ci_serial c = s"
    and "active st s \<or> ci_ready (st_replyChannels st ! slot_of s)"
    and "ci_ready c \<longrightarrow> st_fallbackReplyChannels st s = None"
  shows "calls pend (set_slot (slot_of s) c st) =
    (calls pend st)(s := if ci_ready c then None else Some (pend (ci_channel c)))"
proof
  fix s'
  have "st_fallbackReplyChannels (set_slot (slot_of s) c st) s' = st_fallbackReplyChannels st s'"
      "st_replyChannels (set_slot (slot_of s) c st) ! slot_of s' =
       (if slot_of s' = slot_of s then c else st_replyChannels st ! slot_of s')"
    using reply_inv_length [OF i, of s] by (auto simp: set_slot_def)
  moreover have "slot_of s' = slot_of s \<Longrightarrow> s' \<noteq> s \<Longrightarrow> \<not> active st s'"
    using assms(3) by (auto simp: active_def)
  ultimately show "calls pend (set_slot (slot_of s) c st) s' =
      ((calls pend st)(s := if ci_ready c then None else Some (pend (ci_channel c)))) s'"
    using assms(2,4) by (cases "s' = s") (auto simp: calls_def active_set_slot [OF i])
qed

lemma calls_set_fallback:
  assumes "\<not> active st s"
  shows "calls pend (set_fallback s c st) = (calls pend st)(s := map_option pend c)"
  using assms by (intro ext) (simp add: calls_def, simp add: set_fallback_def)

lemma calls_None: "calls pend st s = None \<longleftrightarrow> \<not> active st s \<and> st_fallbackReplyChannels st s = None"
  by (simp add: calls_def)

lemma fifo_new: "fifo_channel ops pend \<Longrightarrow> pend (new_channel ops) = []"
  unfolding fifo_channel_def by (erule conjunct1)

lemma fifo_send: "fifo_channel ops pend \<Longrightarrow> pend (async_send ops m c) = pend c @ [m]"
  unfolding fifo_channel_def by (drule conjunct2, drule conjunct1, drule spec, erule spec)

lemma fifo_receive:
  "fifo_channel ops pend \<Longrightarrow> case pend c of [] \<Rightarrow> async_receive ops c = None
     | m # ms \<Rightarrow> (\<exists>c'. async_receive ops c = Some (m, c') \<and> pend c' = ms)"
  unfolding fifo_channel_def by (drule conjunct2, drule conjunct2, erule spec)

lemma fifo_receive_Nil: "fifo_channel ops pend \<Longrightarrow> pend c = [] \<Longrightarrow> async_receive ops c = None"
  using fifo_receive [of ops pend c] by simp

lemma fifo_receive_Cons:
  "fifo_channel ops pend \<Longrightarrow> pend c = m # ms \<Longrightarrow> \<exists>c'. async_receive ops c = Some (m, c') \<and> pend c' = ms"
  using fifo_receive [of ops pend c] by simp

lemma reserve_channel_refines:
  assumes f: "fifo_channel ops pend" and i: "reply_inv pend st" and "calls pend st s = None"
  shows "reply_inv pend (reserve_channel ops s st) \<and>
    calls pend (reserve_channel ops s st) = (calls pend st)(s \<mapsto> []) \<and>
    ticket_ok (reserve_channel ops s st) \<lparr> tk_serial = s, tk_expectsReply = True,
      tk_newChannelUsed = (\<not> ci_ready (st_replyChannels st ! slot_of s)) \<rparr>"
proof (cases "ci_ready (st_replyChannels st ! slot_of s)")
  case True
  let ?c = "(st_replyChannels st ! slot_of s)\<lparr> ci_ready := False, ci_serial := s \<rparr>"
  have "reserve_channel ops s st = set_slot (slot_of s) ?c st"
    using True by (simp add: reserve_channel_def set_slot_def Let_def)
  moreover have "reply_inv pend (set_slot (slot_of s) ?c st)"
    using assms(3) by (intro reply_inv_set_slot [OF i]) (simp add: calls_None)
  moreover have "calls pend (set_slot (slot_of s) ?c st) = (calls pend st)(s \<mapsto> [])"
    using calls_set_slot [OF i, of ?c s] True reply_inv_ready [OF i True] by simp
  moreover have "active (set_slot (slot_of s) ?c st) s"
    by (simp only: active_set_slot [OF i]) simp
  ultimately show ?thesis using True by (simp add: ticket_ok_def)
next
  case False
  have n: "\<not> active st s" "st_fallbackReplyChannels st s = None" using assms(3) by (simp_all add: calls_None)
  have "reserve_channel ops s st = set_fallback s (Some (new_channel ops)) st"
    using False n by (simp add: reserve_channel_def set_fallback_def Let_def)
  moreover have "reply_inv pend (set_fallback s (Some (new_channel ops)) st)"
    using n by (intro reply_inv_set_fallback [OF i]) simp
  moreover have "calls pend (set_fallback s (Some (new_channel ops)) st) = (calls pend st)(s \<mapsto> [])"
    using calls_set_fallback [OF n(1), of pend] fifo_new [OF f] by simp
  ultimately show ?thesis using False by (simp add: ticket_ok_def set_fallback_def)
qed

lemma HandleReply_refines:
  assumes f: "fifo_channel ops pend" and i: "reply_inv pend st"
  shows "case calls pend st s of
      None \<Rightarrow> HandleReply ops m s st = Inl InternalError
    | Some ms \<Rightarrow> (\<exists>st'. HandleReply ops m s st = Inr st' \<and> reply_inv pend st' \<and>
        calls pend st' = (calls pend st)(s \<mapsto> ms @ [m]) \<and> ticket_ok st' = ticket_ok st \<and>
        st_serial st' = st_serial st)"
proof (cases "active st s")
  case True
  let ?old = "st_replyChannels st ! slot_of s"
  let ?c = "?old\<lparr> ci_channel := async_send ops m (ci_channel ?old) \<rparr>"
  have h: "HandleReply ops m s st = Inr (set_slot (slot_of s) ?c st)"
    using True by (simp add: HandleReply_def active_def set_slot_def Let_def)
  have a: "active (set_slot (slot_of s) ?c st) = active st"
    by (rule ext, simp only: active_set_slot [OF i]) (auto simp: active_def)
  have "st_fallbackReplyChannels st s = None" by (rule active_fallback [OF i True])
  then show ?thesis
    using True h a reply_inv_set_slot [OF i, of ?c s] calls_set_slot [OF i, of ?c s]
    by (auto simp: active_def calls_def [of pend st] fifo_send [OF f] ticket_ok_def fun_eq_iff set_slot_def)
next
  case False
  then have h: "HandleReply ops m s st = (case st_fallbackReplyChannels st s of
      Some c \<Rightarrow> Inr (set_fallback s (Some (async_send ops m c)) st) | None \<Rightarrow> Inl InternalError)"
    by (auto simp: HandleReply_def active_def set_fallback_def Let_def split: option.split)
  show ?thesis
  proof (cases "st_fallbackReplyChannels st s")
    case None
    then show ?thesis using False h by (simp add: calls_def)
  next
    case (Some c)
    then show ?thesis
      using False h reply_inv_set_fallback [OF i, of "Some (async_send ops m c)" s]
        calls_set_fallback [OF False, of pend "Some (async_send ops m c)"]
      by (auto simp: calls_def [of pend st] fifo_send [OF f] ticket_ok_def fun_eq_iff set_fallback_def active_def)
  qed
qed

lemma release_channel_refines:
  assumes f: "fifo_channel ops pend" and i: "reply_inv pend st" and t: "ticket_ok st t"
  shows "case the (calls pend st (tk_serial t)) of
      [] \<Rightarrow> release_channel ops t st = None
    | m # ms \<Rightarrow> (\<exists>st'. release_channel ops t st = Some (st', m) \<and> st_serial st' = st_serial st \<and>
        (ms = [] \<longrightarrow> reply_inv pend st' \<and> calls pend st' = (calls pend st)(tk_serial t := None) \<and>
          (\<forall>t'. tk_serial t' \<noteq> tk_serial t \<longrightarrow> ticket_ok st t' \<longrightarrow> ticket_ok st' t')))"
proof (cases "tk_newChannelUsed t")
  case True
  then obtain c where c: "st_fallbackReplyChannels st (tk_serial t) = Some c"
    using t by (auto simp: ticket_ok_def)
  then have n: "\<not> active st (tk_serial t)" using reply_inv_fallback [OF i] by auto
  have r: "release_channel ops t st = (case async_receive ops c of None \<Rightarrow> None
      | Some (reply, _) \<Rightarrow> Some (set_fallback (tk_serial t) None st, reply))"
    using True c by (simp add: release_channel_def set_fallback_def split: option.split prod.split)
  show ?thesis
  proof (cases "pend c")
    case Nil
    then show ?thesis using n c r by (simp add: calls_def fifo_receive_Nil [OF f])
  next
    case (Cons m ms)
    then obtain c' where "async_receive ops c = Some (m, c')" using fifo_receive_Cons [OF f] by blast
    then show ?thesis
      using Cons n c r reply_inv_set_fallback [OF i, of None "tk_serial t"] calls_set_fallback [OF n, of pend None]
      by (auto simp: calls_def [of pend st] ticket_ok_def set_fallback_def active_def)
  qed
next
  case False
  let ?s = "tk_serial t" and ?old = "st_replyChannels st ! slot_of (tk_serial t)"
  have a: "active st ?s" using t False by (auto simp: ticket_ok_def)
  have r: "release_channel ops t st = (case async_receive ops (ci_channel ?old) of None \<Rightarrow> None
      | Some (reply, c) \<Rightarrow> Some (set_slot (slot_of ?s) (?old\<lparr> ci_channel := c, ci_ready := True \<rparr>) st, reply))"
    using False by (simp add: release_channel_def set_slot_def Let_def split: option.split prod.split)
  have n: "st_fallbackReplyChannels st ?s = None" by (rule active_fallback [OF i a])
  show ?thesis
  proof (cases "pend (ci_channel ?old)")
    case Nil
    then show ?thesis using a r by (simp add: calls_def fifo_receive_Nil [OF f])
  next
    case (Cons m ms)
    then obtain c where c: "async_receive ops (ci_channel ?old) = Some (m, c)" "pend c = ms"
      using fifo_receive_Cons [OF f] by blast
    let ?c = "?old\<lparr> ci_channel := c, ci_ready := True \<rparr>"
    have "ticket_ok (set_slot (slot_of ?s) ?c st) t'" if "tk_serial t' \<noteq> ?s" "ticket_ok st t'" for t'
    proof -
      have "slot_of (tk_serial t') \<noteq> slot_of ?s" if "active st (tk_serial t')"
        using that a \<open>tk_serial t' \<noteq> ?s\<close> by (auto simp: active_def)
      then have "active (set_slot (slot_of ?s) ?c st) (tk_serial t')" if "active st (tk_serial t')"
        using that by (simp add: active_set_slot [OF i])
      then show ?thesis using that(2) by (auto simp: ticket_ok_def set_slot_def)
    qed
    then show ?thesis
      using Cons a r c n reply_inv_set_slot [OF i, of ?c ?s] calls_set_slot [OF i, of ?c ?s]
      by (auto simp: calls_def [of pend st] set_slot_def)
  qed
qed

end
