(* ===== verification/Exchange.thy ===== *)
theory Exchange
  imports Connection
begin

text \<open>
  Calls and their replies: any number of coroutines are in \<^verbatim>\<open>SendMessageInternal\<close> while the read loop hands
  over replies, in every order of their steps. The bus is the environment; it answers each call once. The
  first part relates the slots and the map of \<^verbatim>\<open>src/src/DBusConnection.txx\<close> to the one map of waiting calls,
  the second proves that every call gets its own reply, the third says what happens outside these limits.
\<close>

section \<open>One step at a time\<close>

lemma ticket_ok_calls: "ticket_ok st t \<Longrightarrow> calls pend st (tk_serial t) \<noteq> None"
  by (auto simp: ticket_ok_def calls_def split: if_splits)

lemma reserve_channel_serial [simp]: "st_serial (reserve_channel ops s st) = st_serial st"
  by (simp add: reserve_channel_def Let_def)

lemma reserve_keeps_tickets:
  assumes i: "reply_inv pend st" and n: "calls pend st s = None" and t: "ticket_ok st t"
  shows "ticket_ok (reserve_channel ops s st) t"
proof (cases "ci_ready (st_replyChannels st ! slot_of s)")
  case True
  let ?c = "(st_replyChannels st ! slot_of s)\<lparr> ci_ready := False, ci_serial := s \<rparr>"
  have "reserve_channel ops s st = set_slot (slot_of s) ?c st"
    using True by (simp add: reserve_channel_def set_slot_def Let_def)
  moreover have "active (set_slot (slot_of s) ?c st) (tk_serial t)" if "active st (tk_serial t)"
  proof -
    have "slot_of (tk_serial t) \<noteq> slot_of s" using that True by (auto simp: active_def)
    then show ?thesis using that by (simp add: active_set_slot [OF i])
  qed
  ultimately show ?thesis using t by (auto simp: ticket_ok_def set_slot_def)
next
  case False
  have "reserve_channel ops s st = set_fallback s (Some (new_channel ops)) st"
    using False n by (simp add: reserve_channel_def set_fallback_def Let_def calls_None)
  moreover have "st_fallbackReplyChannels (set_fallback s (Some c) st) s' \<noteq> None \<longleftrightarrow>
      s' = s \<or> st_fallbackReplyChannels st s' \<noteq> None" for c s'
    by (simp add: set_fallback_def)
  ultimately show ?thesis using t by (auto simp: ticket_ok_def split: if_splits)
qed

lemma begin_refines:
  assumes f: "fifo_channel ops pend" and i: "reply_inv pend st" and n: "calls pend st (st_serial st) = None"
  shows "let (st', r) = SendMessageInternal_begin ops message st in
    st_serial st' = st_serial st + 1 \<and> reply_inv pend st' \<and>
    calls pend st' = (if ExpectsReply message then (calls pend st)(st_serial st \<mapsto> []) else calls pend st) \<and>
    (\<forall>t. ticket_ok st t \<longrightarrow> ticket_ok st' t) \<and>
    (case r of Inl e \<Rightarrow> Serialize message (st_serial st) = Inl e
     | Inr (bytes, t) \<Rightarrow> Serialize message (st_serial st) = Inr bytes \<and> tk_serial t = st_serial st \<and>
         tk_expectsReply t = ExpectsReply message \<and> (ExpectsReply message \<longrightarrow> ticket_ok st' t))"
proof -
  let ?s = "st_serial st"
  let ?st1 = "st\<lparr> st_serial := ?s + 1 \<rparr>"
  have e: "calls pend ?st1 = calls pend st" "reply_inv pend ?st1" "ticket_ok ?st1 = ticket_ok st"
      "calls pend ?st1 ?s = None" "st_fallbackReplyChannels st ?s = None"
    using calls_state_cong [of ?st1 st pend] i n by (simp_all add: calls_None)
  note r = reserve_channel_refines [OF f e(2,4)]
  show ?thesis
    using r e reserve_keeps_tickets [OF e(2,4), of _ ops]
    by (cases "Serialize message ?s") (auto simp: SendMessageInternal_begin_def Let_def)
qed

section \<open>Every interleaving\<close>

text \<open>The connection with the coroutines that wait (\<open>ex_tickets\<close>), the serials the bus has seen and not
  answered, its answers, and what the coroutines have got.\<close>

record ('c, 'h) exchange =
  ex_state :: "('c, 'h) InternalState"
  ex_tickets :: "ticket list"
  ex_unanswered :: "32 word list"
  ex_answers :: "32 word \<rightharpoonup> IncomingDBusMessage"
  ex_results :: "(32 word \<times> IncomingDBusMessage option result) list"

definition exchange_start :: "'c channel_ops \<Rightarrow> DBusWellKnownName option \<Rightarrow> ('c, 'h) exchange" where
  "exchange_start ops name =
     \<lparr> ex_state = new_connection ops name, ex_tickets = [], ex_unanswered = [], ex_answers = Map.empty, ex_results = [] \<rparr>"

text \<open>The serial counter starts at 1 and wraps around to 0; the relation stops sending there.\<close>

inductive exchange_step ::
    "(nat \<Rightarrow> nat \<Rightarrow> 8 word) \<Rightarrow> nat \<Rightarrow> 'c channel_ops \<Rightarrow> ('c, 'h) exchange \<Rightarrow> ('c, 'h) exchange \<Rightarrow> bool"
  for junk n ops where
  send: "st_serial (ex_state x) \<noteq> 0 \<Longrightarrow> ExpectsReply message \<Longrightarrow>
    SendMessageInternal_begin ops message (ex_state x) = (st', Inr (bytes, t)) \<Longrightarrow>
    exchange_step junk n ops x (x\<lparr> ex_state := st', ex_tickets := ex_tickets x @ [t],
      ex_unanswered := ex_unanswered x @ [tk_serial t] \<rparr>)"
| send_no_reply: "st_serial (ex_state x) \<noteq> 0 \<Longrightarrow> \<not> ExpectsReply message \<Longrightarrow>
    SendMessageInternal_begin ops message (ex_state x) = (st', r) \<Longrightarrow>
    exchange_step junk n ops x (x\<lparr> ex_state := st' \<rparr>)"
| send_fails: "st_serial (ex_state x) \<noteq> 0 \<Longrightarrow> ExpectsReply message \<Longrightarrow>
    SendMessageInternal_begin ops message (ex_state x) = (st', Inl e) \<Longrightarrow>
    exchange_step junk n ops x (x\<lparr> ex_state := st' \<rparr>)"
| answer: "s \<in> set (ex_unanswered x) \<Longrightarrow> rd_replySerial (m_header message) = Some s \<Longrightarrow>
    HandleReply ops message s (ex_state x) = Inr st' \<Longrightarrow>
    exchange_step junk n ops x (x\<lparr> ex_state := st', ex_unanswered := remove1 s (ex_unanswered x),
      ex_answers := (ex_answers x)(s \<mapsto> message) \<rparr>)"
| collect: "t \<in> set (ex_tickets x) \<Longrightarrow>
    SendMessageInternal_finish junk n ops t (ex_state x) = Some (st', r) \<Longrightarrow>
    exchange_step junk n ops x (x\<lparr> ex_state := st', ex_tickets := remove1 t (ex_tickets x),
      ex_results := ex_results x @ [(tk_serial t, r)] \<rparr>)"

inductive reachable ::
    "(nat \<Rightarrow> nat \<Rightarrow> 8 word) \<Rightarrow> nat \<Rightarrow> 'c channel_ops \<Rightarrow> DBusWellKnownName option \<Rightarrow> ('c, 'h) exchange \<Rightarrow> bool"
  for junk n ops name where
  start: "reachable junk n ops name (exchange_start ops name)"
| step: "reachable junk n ops name x \<Longrightarrow> exchange_step junk n ops x y \<Longrightarrow> reachable junk n ops name y"

text \<open>The invariant: the table holds, for each waiting call, its answer or nothing yet.\<close>

definition fresh_after :: "('c, 'h) InternalState \<Rightarrow> 32 word \<Rightarrow> bool" where
  "fresh_after st s \<longleftrightarrow> s \<noteq> 0 \<and> (st_serial st = 0 \<or> s < st_serial st)"

definition exchange_inv ::
    "(nat \<Rightarrow> nat \<Rightarrow> 8 word) \<Rightarrow> nat \<Rightarrow> ('c \<Rightarrow> IncomingDBusMessage list) \<Rightarrow> ('c, 'h) exchange \<Rightarrow> bool" where
  "exchange_inv junk n pend x \<longleftrightarrow>
     reply_inv pend (ex_state x) \<and>
     (\<forall>t \<in> set (ex_tickets x). ticket_ok (ex_state x) t \<and>
        calls pend (ex_state x) (tk_serial t) =
          Some (case ex_answers x (tk_serial t) of None \<Rightarrow> [] | Some m \<Rightarrow> [m])) \<and>
     distinct (map tk_serial (ex_tickets x) @ map fst (ex_results x)) \<and>
     distinct (ex_unanswered x) \<and>
     set (ex_unanswered x) = {s \<in> tk_serial ` set (ex_tickets x). ex_answers x s = None} \<and>
     (\<forall>s. calls pend (ex_state x) s \<noteq> None \<or> ex_answers x s \<noteq> None \<longrightarrow> fresh_after (ex_state x) s) \<and>
     (\<forall>(s, r) \<in> set (ex_results x). \<exists>m. ex_answers x s = Some m \<and> r = reply_result junk n m) \<and>
     (\<forall>s m. ex_answers x s = Some m \<longrightarrow> rd_replySerial (m_header m) = Some s)"

lemma fresh_after_begin:
  assumes "fresh_after st s \<or> s = st_serial st" and "st_serial st \<noteq> 0" and "st_serial st' = st_serial st + 1"
  shows "fresh_after st' s"
proof -
  have "st_serial st + 1 = 0 \<or> st_serial st < st_serial st + 1"
    by (cases "1 + st_serial st = 0") (simp_all add: word_less_nat_alt unatSuc add.commute)
  then show ?thesis using assms by (auto simp: fresh_after_def intro: order.strict_trans)
qed

lemma not_fresh_self: "st_serial st \<noteq> 0 \<Longrightarrow> \<not> fresh_after st (st_serial st)"
  by (simp add: fresh_after_def)

lemma exchange_inv_start: "fifo_channel ops pend \<Longrightarrow> exchange_inv junk n pend (exchange_start ops name)"
  by (simp add: exchange_inv_def exchange_start_def reply_inv_new calls_new)

lemma exchange_invD:
  assumes "exchange_inv junk n pend x"
  shows "reply_inv pend (ex_state x)"
    and "t \<in> set (ex_tickets x) \<Longrightarrow> ticket_ok (ex_state x) t"
    and "t \<in> set (ex_tickets x) \<Longrightarrow> calls pend (ex_state x) (tk_serial t) =
          Some (case ex_answers x (tk_serial t) of None \<Rightarrow> [] | Some m \<Rightarrow> [m])"
    and "distinct (map tk_serial (ex_tickets x) @ map fst (ex_results x))"
    and "distinct (ex_unanswered x)"
    and "set (ex_unanswered x) = {s \<in> tk_serial ` set (ex_tickets x). ex_answers x s = None}"
    and "calls pend (ex_state x) s \<noteq> None \<or> ex_answers x s \<noteq> None \<Longrightarrow> fresh_after (ex_state x) s"
    and "(s, r) \<in> set (ex_results x) \<Longrightarrow> \<exists>m. ex_answers x s = Some m \<and> r = reply_result junk n m"
    and "ex_answers x s = Some m \<Longrightarrow> rd_replySerial (m_header m) = Some s"
  using assms by (auto simp: exchange_inv_def)

lemma exchange_invI:
  assumes "reply_inv pend (ex_state x)"
    and "\<And>t. t \<in> set (ex_tickets x) \<Longrightarrow> ticket_ok (ex_state x) t"
    and "\<And>t. t \<in> set (ex_tickets x) \<Longrightarrow> calls pend (ex_state x) (tk_serial t) =
          Some (case ex_answers x (tk_serial t) of None \<Rightarrow> [] | Some m \<Rightarrow> [m])"
    and "distinct (map tk_serial (ex_tickets x) @ map fst (ex_results x))"
    and "distinct (ex_unanswered x)"
    and "set (ex_unanswered x) = {s \<in> tk_serial ` set (ex_tickets x). ex_answers x s = None}"
    and "\<And>s. calls pend (ex_state x) s \<noteq> None \<or> ex_answers x s \<noteq> None \<Longrightarrow> fresh_after (ex_state x) s"
    and "\<And>s r. (s, r) \<in> set (ex_results x) \<Longrightarrow> \<exists>m. ex_answers x s = Some m \<and> r = reply_result junk n m"
    and "\<And>s m. ex_answers x s = Some m \<Longrightarrow> rd_replySerial (m_header m) = Some s"
  shows "exchange_inv junk n pend x"
  using assms by (auto simp: exchange_inv_def)

lemma begin_facts:
  assumes "fifo_channel ops pend" and "exchange_inv junk n pend x" and "st_serial (ex_state x) \<noteq> 0"
    and "SendMessageInternal_begin ops message (ex_state x) = (st', r)"
  shows "st_serial st' = st_serial (ex_state x) + 1" and "reply_inv pend st'"
    and "calls pend st' = (if ExpectsReply message then (calls pend (ex_state x))(st_serial (ex_state x) \<mapsto> [])
      else calls pend (ex_state x))"
    and "ticket_ok (ex_state x) t \<Longrightarrow> ticket_ok st' t"
    and "r = Inr (bytes, t) \<Longrightarrow> tk_serial t = st_serial (ex_state x) \<and> (ExpectsReply message \<longrightarrow> ticket_ok st' t)"
    and "calls pend (ex_state x) (st_serial (ex_state x)) = None"
    and "ex_answers x (st_serial (ex_state x)) = None"
    and "st_serial (ex_state x) \<notin> set (map tk_serial (ex_tickets x) @ map fst (ex_results x))"
    and "calls pend st' s \<noteq> None \<or> ex_answers x s \<noteq> None \<Longrightarrow> fresh_after st' s"
proof -
  note inv = exchange_invD [OF assms(2)]
  show n: "calls pend (ex_state x) (st_serial (ex_state x)) = None" "ex_answers x (st_serial (ex_state x)) = None"
    using inv(7) not_fresh_self [OF assms(3)] by blast+
  note b = begin_refines [OF assms(1) inv(1) n(1), of message]
  show b1: "st_serial st' = st_serial (ex_state x) + 1" and "reply_inv pend st'"
    and c: "calls pend st' = (if ExpectsReply message then (calls pend (ex_state x))(st_serial (ex_state x) \<mapsto> [])
      else calls pend (ex_state x))"
    and "ticket_ok (ex_state x) t \<Longrightarrow> ticket_ok st' t"
    and "r = Inr (bytes, t) \<Longrightarrow> tk_serial t = st_serial (ex_state x) \<and> (ExpectsReply message \<longrightarrow> ticket_ok st' t)"
    using b assms(4) by auto
  show "st_serial (ex_state x) \<notin> set (map tk_serial (ex_tickets x) @ map fst (ex_results x))"
    using inv(3) inv(8) n by fastforce
  show "fresh_after st' s" if "calls pend st' s \<noteq> None \<or> ex_answers x s \<noteq> None"
    using that inv(7) [of s] c by (intro fresh_after_begin [OF _ assms(3) b1]) (auto split: if_splits)
qed

lemma exchange_inv_send:
  assumes f: "fifo_channel ops pend" and i: "exchange_inv junk n pend x" and s: "st_serial (ex_state x) \<noteq> 0"
    and e: "ExpectsReply message" and b: "SendMessageInternal_begin ops message (ex_state x) = (st', Inr (bytes, t))"
  shows "exchange_inv junk n pend (x\<lparr> ex_state := st', ex_tickets := ex_tickets x @ [t],
    ex_unanswered := ex_unanswered x @ [tk_serial t] \<rparr>)"
proof -
  note inv = exchange_invD [OF i] and bf = begin_facts [OF f i s b]
  have t: "tk_serial t = st_serial (ex_state x)" "ticket_ok st' t" using bf(5) [OF refl] e by simp_all
  have "st_serial (ex_state x) \<notin> tk_serial ` set (ex_tickets x)" using bf(8) by simp
  then have "calls pend st' (tk_serial u) = calls pend (ex_state x) (tk_serial u)" if "u \<in> set (ex_tickets x)" for u
    using that by (simp add: bf(3)) (metis image_eqI)
  then show ?thesis
    using bf(2,4,7,8,9) inv(2,3,4,5,6,8,9) t e
    by (auto simp: exchange_inv_def bf(3))
qed

lemma exchange_inv_no_ticket:
  assumes f: "fifo_channel ops pend" and i: "exchange_inv junk n pend x" and s: "st_serial (ex_state x) \<noteq> 0"
    and b: "SendMessageInternal_begin ops message (ex_state x) = (st', r)"
  shows "exchange_inv junk n pend (x\<lparr> ex_state := st' \<rparr>)"
proof -
  note inv = exchange_invD [OF i] and bf = begin_facts [OF f i s b]
  have "calls pend st' (tk_serial u) = calls pend (ex_state x) (tk_serial u)" if "u \<in> set (ex_tickets x)" for u
    using that bf(8) by (simp add: bf(3)) (metis image_eqI)
  then show ?thesis
    using bf(2,4,9) inv(2,3,4,5,6,8,9) by (auto simp: exchange_inv_def)
qed

lemma exchange_inv_answer:
  assumes f: "fifo_channel ops pend" and i: "exchange_inv junk n pend x" and s: "s \<in> set (ex_unanswered x)"
    and m: "rd_replySerial (m_header message) = Some s"
  shows "\<exists>st'. HandleReply ops message s (ex_state x) = Inr st' \<and>
    exchange_inv junk n pend (x\<lparr> ex_state := st', ex_unanswered := remove1 s (ex_unanswered x),
      ex_answers := (ex_answers x)(s \<mapsto> message) \<rparr>)"
proof -
  note inv = exchange_invD [OF i]
  obtain t where t: "t \<in> set (ex_tickets x)" "tk_serial t = s" and a: "ex_answers x s = None"
    using s inv(6) by auto
  have c: "calls pend (ex_state x) s = Some []" using inv(3) [OF t(1)] t(2) a by simp
  obtain st' where h: "HandleReply ops message s (ex_state x) = Inr st'" "reply_inv pend st'"
      "calls pend st' = (calls pend (ex_state x))(s \<mapsto> [message])" "ticket_ok st' = ticket_ok (ex_state x)"
      "st_serial st' = st_serial (ex_state x)"
    using HandleReply_refines [OF f inv(1), where s = s and m = message] c by auto
  have r: "s \<notin> fst ` set (ex_results x)" using inv(8) a by fastforce
  let ?y = "x\<lparr> ex_state := st', ex_unanswered := remove1 s (ex_unanswered x),
      ex_answers := (ex_answers x)(s \<mapsto> message) \<rparr>"
  have "exchange_inv junk n pend ?y"
  proof (rule exchange_invI)
    fix u
    assume u: "u \<in> set (ex_tickets ?y)"
    show "calls pend (ex_state ?y) (tk_serial u) =
          Some (case ex_answers ?y (tk_serial u) of None \<Rightarrow> [] | Some m \<Rightarrow> [m])"
      using inv(3) [of u] u by (simp add: h(3))
  next
    show "set (ex_unanswered ?y) = {v \<in> tk_serial ` set (ex_tickets ?y). ex_answers ?y v = None}"
      using inv(5,6) by auto
  next
    fix v
    assume "calls pend (ex_state ?y) v \<noteq> None \<or> ex_answers ?y v \<noteq> None"
    then show "fresh_after (ex_state ?y) v"
      using inv(7) [of v] c by (auto simp: fresh_after_def h(3,5) split: if_splits)
  next
    fix v r'
    assume "(v, r') \<in> set (ex_results ?y)"
    then show "\<exists>m. ex_answers ?y v = Some m \<and> r' = reply_result junk n m" using inv(8) [of v r'] r by force
  qed (use h(2,4) inv(2,4,5,9) m in \<open>auto split: if_splits\<close>)
  then show ?thesis using h(1) by blast
qed

lemma exchange_inv_collect:
  assumes f: "fifo_channel ops pend" and i: "exchange_inv junk n pend x" and t: "t \<in> set (ex_tickets x)"
  shows "case ex_answers x (tk_serial t) of
      None \<Rightarrow> SendMessageInternal_finish junk n ops t (ex_state x) = None
    | Some m \<Rightarrow> (\<exists>st'. SendMessageInternal_finish junk n ops t (ex_state x) = Some (st', reply_result junk n m) \<and>
        exchange_inv junk n pend (x\<lparr> ex_state := st', ex_tickets := remove1 t (ex_tickets x),
          ex_results := ex_results x @ [(tk_serial t, reply_result junk n m)] \<rparr>))"
proof -
  note inv = exchange_invD [OF i]
  have ok: "ticket_ok (ex_state x) t" by (rule inv(2) [OF t])
  then have e: "tk_expectsReply t" by (simp add: ticket_ok_def)
  note r = release_channel_refines [OF f inv(1) ok]
  show ?thesis
  proof (cases "ex_answers x (tk_serial t)")
    case None
    then show ?thesis using r inv(3) [OF t] e by (simp add: SendMessageInternal_finish_def)
  next
    case (Some m)
    then obtain st' where st': "release_channel ops t (ex_state x) = Some (st', m)" "st_serial st' = st_serial (ex_state x)"
        "reply_inv pend st'" "calls pend st' = (calls pend (ex_state x))(tk_serial t := None)"
        "\<And>t'. tk_serial t' \<noteq> tk_serial t \<Longrightarrow> ticket_ok (ex_state x) t' \<Longrightarrow> ticket_ok st' t'"
      using r inv(3) [OF t] by auto
    have d: "distinct (map tk_serial (ex_tickets x))" "distinct (ex_tickets x)"
      using inv(4) by (simp_all add: distinct_map)
    then have other: "tk_serial u \<noteq> tk_serial t" if "u \<in> set (remove1 t (ex_tickets x))" for u
      using that t by (auto simp: distinct_map inj_on_def)
    have s: "set (remove1 t (ex_tickets x)) = set (ex_tickets x) - {t}" using d by simp
    have "tk_serial ` set (remove1 t (ex_tickets x)) \<subseteq> tk_serial ` set (ex_tickets x) - {tk_serial t}"
      using s other by auto
    moreover have "distinct (map tk_serial (remove1 t (ex_tickets x)))"
      using d unfolding distinct_map by (meson distinct_remove1 inj_on_subset set_remove1_subset)
    moreover have "tk_serial t \<in> tk_serial ` set (ex_tickets x)" using t by simp
    ultimately have ds: "distinct (map tk_serial (remove1 t (ex_tickets x)) @
        map fst (ex_results x @ [(tk_serial t, reply_result junk n m)]))"
      using inv(4) by auto
    let ?y = "x\<lparr> ex_state := st', ex_tickets := remove1 t (ex_tickets x),
      ex_results := ex_results x @ [(tk_serial t, reply_result junk n m)] \<rparr>"
    have "exchange_inv junk n pend ?y"
    proof (rule exchange_invI)
      fix u
      assume u: "u \<in> set (ex_tickets ?y)"
      then have ux: "u \<in> set (ex_tickets x)" and ne: "tk_serial u \<noteq> tk_serial t" using s other by auto
      show "ticket_ok (ex_state ?y) u" using st'(5) [OF ne] inv(2) [OF ux] by simp
      show "calls pend (ex_state ?y) (tk_serial u) =
          Some (case ex_answers ?y (tk_serial u) of None \<Rightarrow> [] | Some m \<Rightarrow> [m])"
        using inv(3) [OF ux] ne by (simp add: st'(4))
    next
      show "set (ex_unanswered ?y) = {s \<in> tk_serial ` set (ex_tickets ?y). ex_answers ?y s = None}"
        using inv(6) s Some by auto
    next
      fix v
      assume "calls pend (ex_state ?y) v \<noteq> None \<or> ex_answers ?y v \<noteq> None"
      then show "fresh_after (ex_state ?y) v"
        using inv(7) [of v] by (auto simp: fresh_after_def st'(2,4) split: if_splits)
    next
      fix v r
      assume "(v, r) \<in> set (ex_results ?y)"
      then show "\<exists>m. ex_answers ?y v = Some m \<and> r = reply_result junk n m" using inv(8) [of v r] Some by auto
    qed (use ds st'(3) inv(5,9) in simp_all)
    then show ?thesis using Some e st'(1) by (simp add: SendMessageInternal_finish_def)
  qed
qed

lemma exchange_inv_step:
  "fifo_channel ops pend \<Longrightarrow> exchange_inv junk n pend x \<Longrightarrow> exchange_step junk n ops x y \<Longrightarrow> exchange_inv junk n pend y"
  by (erule exchange_step.cases)
    (auto intro: exchange_inv_send exchange_inv_no_ticket dest: exchange_inv_answer exchange_inv_collect split: option.splits)

lemma exchange_inv_reachable:
  "reachable junk n ops name x \<Longrightarrow> fifo_channel ops pend \<Longrightarrow> exchange_inv junk n pend x"
  by (induction rule: reachable.induct) (auto intro: exchange_inv_start exchange_inv_step)

section \<open>Properties of the calls\<close>

text \<open>C4: The reply table of 56 slots and a fallback map implements one map from the serials of the waiting calls
  to the replies that have come: reserving a channel adds the serial, a reply is appended under its serial or
  refused when there is no such call, and collecting the only reply removes the call.\<close>

theorem reply_table_refines:
  assumes f: "fifo_channel ops pend" and i: "reply_inv pend st"
  shows "(ExpectsReply message \<longrightarrow> calls pend st (st_serial st) = None \<longrightarrow>
      calls pend (fst (SendMessageInternal_begin ops message st)) = (calls pend st)(st_serial st \<mapsto> [])) \<and>
    (case calls pend st s of
       None \<Rightarrow> HandleReply ops m s st = Inl InternalError
     | Some ms \<Rightarrow> (\<exists>st'. HandleReply ops m s st = Inr st' \<and> calls pend st' = (calls pend st)(s \<mapsto> ms @ [m]))) \<and>
    (ticket_ok st t \<longrightarrow> (case the (calls pend st (tk_serial t)) of
       [] \<Rightarrow> SendMessageInternal_finish junk n ops t st = None
     | [reply] \<Rightarrow> (\<exists>st'. SendMessageInternal_finish junk n ops t st = Some (st', reply_result junk n reply) \<and>
         calls pend st' = (calls pend st)(tk_serial t := None))
     | _ \<Rightarrow> SendMessageInternal_finish junk n ops t st \<noteq> None))"
proof (intro conjI impI)
  show "calls pend (fst (SendMessageInternal_begin ops message st)) = (calls pend st)(st_serial st \<mapsto> [])"
    if "ExpectsReply message" "calls pend st (st_serial st) = None"
    using begin_refines [OF f i that(2), of message] that(1) by (auto simp: split_beta)
  show "case calls pend st s of
       None \<Rightarrow> HandleReply ops m s st = Inl InternalError
     | Some ms \<Rightarrow> (\<exists>st'. HandleReply ops m s st = Inr st' \<and> calls pend st' = (calls pend st)(s \<mapsto> ms @ [m]))"
    using HandleReply_refines [OF f i, where s = s and m = m] by (auto split: option.splits)
  show "case the (calls pend st (tk_serial t)) of
       [] \<Rightarrow> SendMessageInternal_finish junk n ops t st = None
     | [reply] \<Rightarrow> (\<exists>st'. SendMessageInternal_finish junk n ops t st = Some (st', reply_result junk n reply) \<and>
         calls pend st' = (calls pend st)(tk_serial t := None))
     | _ \<Rightarrow> SendMessageInternal_finish junk n ops t st \<noteq> None" if t: "ticket_ok st t"
    using release_channel_refines [OF f i t] t
    by (auto simp: SendMessageInternal_finish_def ticket_ok_def split: list.splits)
qed

text \<open>The list of pending messages is a channel.\<close>

definition list_channel :: "IncomingDBusMessage list channel_ops" where
  "list_channel = \<lparr> new_channel = [], async_send = (\<lambda>m c. c @ [m]),
     async_receive = (\<lambda>c. case c of [] \<Rightarrow> None | m # ms \<Rightarrow> Some (m, ms)) \<rparr>"

lemma fifo_list_channel: "fifo_channel list_channel (\<lambda>c. c)"
  by (simp add: fifo_channel_def list_channel_def split: list.split)

definition example_call :: DBusMessage where
  "example_call = DBusMessage_Method ''Hi'' (MkObjectPath ''/'')"

definition example_reply :: "32 word \<Rightarrow> IncomingDBusMessage" where
  "example_reply s = \<lparr> m_header = received_header (DBusMessage_Reply (sent_message example_call s)) 9, in_messageBody = [] \<rparr>"

lemma example_reply_serial: "rd_replySerial (m_header (example_reply s)) = Some s"
  by (simp add: example_reply_def received_header_def DBusMessage_Reply_def new_DBusMessage_def sent_message_def Let_def)

lemma example_reply_result: "reply_result junk n (example_reply s) = Inr (Some (example_reply s))"
  by (simp add: reply_result_def example_reply_def received_header_def DBusMessage_Reply_def new_DBusMessage_def)

lemma example_call_ok: "message_ok example_call \<and> message_small example_call \<and> ExpectsReply example_call \<and>
    length (message_bytes example_call 1) = 48"
  by code_simp

lemma example_call_serialized: "Serialize example_call s = Inr (message_bytes example_call s)"
  using example_call_ok by (intro serialize_message) (simp_all add: message_small_def)

theorem reply_table_refines_witness:
  "HandleReply list_channel (example_reply 3) 3 (new_connection list_channel None :: (_, unit) InternalState) = Inl InternalError"
proof -
  let ?st = "new_connection list_channel None :: (IncomingDBusMessage list, unit) InternalState"
  have "reply_inv (\<lambda>c. c) ?st" by (rule reply_inv_new [OF fifo_list_channel])
  from reply_table_refines [OF fifo_list_channel this, where message = example_call and s = 3 and m = "example_reply 3"
      and junk = no_junk and n = 9 and t = "\<lparr> tk_serial = 3, tk_expectsReply = True, tk_newChannelUsed = False \<rparr>"]
  show ?thesis by (simp add: calls_new)
qed

text \<open>One call from start to end, for the witnesses.\<close>

lemma example_exchange_sent:
  "\<exists>x :: (IncomingDBusMessage list, unit) exchange. reachable junk n list_channel None x \<and>
     ex_unanswered x = [1] \<and> (\<exists>t. ex_tickets x = [t] \<and> tk_serial t = 1) \<and> ex_results x = [] \<and> ex_answers x = Map.empty"
proof -
  let ?x = "exchange_start list_channel None :: (IncomingDBusMessage list, unit) exchange"
  obtain st' t where b: "SendMessageInternal_begin list_channel example_call (ex_state ?x) =
      (st', Inr (message_bytes example_call 1, t))" "tk_serial t = 1"
    using example_call_ok
    by (simp add: SendMessageInternal_begin_def example_call_serialized exchange_start_def new_connection_def
        slot_of_def CXXBUS_MAX_CONCURRENT_MESSAGES_def Let_def)
  have "exchange_step junk n list_channel ?x (?x\<lparr> ex_state := st', ex_tickets := ex_tickets ?x @ [t],
      ex_unanswered := ex_unanswered ?x @ [tk_serial t] \<rparr>)"
    using example_call_ok by (intro exchange_step.send [OF _ _ b(1)]) (simp_all add: exchange_start_def new_connection_def)
  then have "reachable junk n list_channel None (?x\<lparr> ex_state := st', ex_tickets := ex_tickets ?x @ [t],
      ex_unanswered := ex_unanswered ?x @ [tk_serial t] \<rparr>)"
    by (rule reachable.step [OF reachable.start])
  then show ?thesis by - (rule exI, rule conjI, assumption, simp add: exchange_start_def b(2))
qed

lemma example_exchange:
  "\<exists>x :: (IncomingDBusMessage list, unit) exchange. reachable junk n list_channel None x \<and>
     ex_results x = [(1, Inr (Some (example_reply 1)))]"
proof -
  obtain x :: "(IncomingDBusMessage list, unit) exchange" and t where x: "reachable junk n list_channel None x"
      "ex_unanswered x = [1]" "ex_tickets x = [t]" "tk_serial t = 1" "ex_results x = []"
    using example_exchange_sent by blast
  note i = exchange_inv_reachable [OF x(1) fifo_list_channel]
  have u: "1 \<in> set (ex_unanswered x)" using x(2) by simp
  obtain st1 where a: "HandleReply list_channel (example_reply 1) 1 (ex_state x) = Inr st1"
    using exchange_inv_answer [OF fifo_list_channel i u example_reply_serial] by blast
  let ?y = "x\<lparr> ex_state := st1, ex_unanswered := remove1 1 (ex_unanswered x), ex_answers := (ex_answers x)(1 \<mapsto> example_reply 1) \<rparr>"
  have y: "reachable junk n list_channel None ?y"
    by (rule reachable.step [OF x(1) exchange_step.answer [OF u example_reply_serial a]])
  have t: "t \<in> set (ex_tickets ?y)" using x(3) by simp
  obtain st2 where "SendMessageInternal_finish junk n list_channel t (ex_state ?y) = Some (st2, reply_result junk n (example_reply 1))"
    using exchange_inv_collect [OF fifo_list_channel exchange_inv_reachable [OF y fifo_list_channel] t] x(4) by auto
  from reachable.step [OF y exchange_step.collect [OF t this]] show ?thesis
    by - (rule exI, rule conjI, assumption, simp add: x(4,5) example_reply_result)
qed

lemma filter_other: "s \<notin> fst ` set xs \<Longrightarrow> filter (\<lambda>sr. fst sr = s) xs = []"
  by (induction xs) auto

text \<open>C10: However the calls, replies and returns interleave, a call returns at most once, and what it returns or
  throws is determined by the bus's answer to its own serial, as long as the bus answers a call once and the
  serial has not wrapped around; the number of calls in flight is not limited.\<close>

theorem replies_routed:
  assumes "fifo_channel ops pend" and "reachable junk n ops name x" and "(s, r) \<in> set (ex_results x)"
  shows "\<exists>m. ex_answers x s = Some m \<and> rd_replySerial (m_header m) = Some s \<and> r = reply_result junk n m \<and>
    filter (\<lambda>sr. fst sr = s) (ex_results x) = [(s, r)]"
proof -
  note inv = exchange_invD [OF exchange_inv_reachable [OF assms(2,1)]]
  obtain m where m: "ex_answers x s = Some m" "r = reply_result junk n m" using inv(8) [OF assms(3)] by blast
  obtain as bs where "ex_results x = as @ (s, r) # bs" using assms(3) by (meson split_list)
  then have "filter (\<lambda>sr. fst sr = s) (ex_results x) = [(s, r)]"
    using inv(4) by (simp add: filter_other)
  then show ?thesis using m inv(9) by blast
qed

theorem replies_routed_witness:
  "\<exists>(x :: (IncomingDBusMessage list, unit) exchange) m. ex_answers x 1 = Some m \<and> rd_replySerial (m_header m) = Some 1 \<and>
     Inr (Some (example_reply 1)) = reply_result no_junk 9 m"
proof -
  obtain x :: "(IncomingDBusMessage list, unit) exchange" where x: "reachable no_junk 9 list_channel None x"
      "ex_results x = [(1, Inr (Some (example_reply 1)))]"
    using example_exchange by blast
  have "(1, Inr (Some (example_reply 1))) \<in> set (ex_results x)" using x(2) by simp
  from replies_routed [OF fifo_list_channel x(1) this] show ?thesis by blast
qed

text \<open>C14: A waiting call is never stuck: its answer, when it has come, can be collected now, and until then the
  bus's answer will be accepted by the read loop, without an internal error, and end the call.\<close>

theorem calls_progress:
  assumes f: "fifo_channel ops pend" and x: "reachable junk n ops name x" and t: "t \<in> set (ex_tickets x)"
  shows "case ex_answers x (tk_serial t) of
      Some m \<Rightarrow> (\<exists>y. exchange_step junk n ops x y \<and> ex_results y = ex_results x @ [(tk_serial t, reply_result junk n m)])
    | None \<Rightarrow> (\<forall>m. rd_replySerial (m_header m) = Some (tk_serial t) \<longrightarrow>
        (\<exists>y z. exchange_step junk n ops x y \<and> exchange_step junk n ops y z \<and>
          ex_results z = ex_results x @ [(tk_serial t, reply_result junk n m)]))"
proof -
  note i = exchange_inv_reachable [OF x f]
  have now: "\<exists>z. exchange_step junk n ops y z \<and> ex_results z = ex_results y @ [(tk_serial t, reply_result junk n m)]"
    if y: "exchange_inv junk n pend y" "ex_answers y (tk_serial t) = Some m" and ty: "t \<in> set (ex_tickets y)" for y m
  proof -
    obtain st' where "SendMessageInternal_finish junk n ops t (ex_state y) = Some (st', reply_result junk n m)"
      using exchange_inv_collect [OF f y(1) ty] y(2) by auto
    from exchange_step.collect [OF ty this] show ?thesis by - (rule exI, rule conjI, assumption, simp)
  qed
  show ?thesis
  proof (cases "ex_answers x (tk_serial t)")
    case None
    have "\<exists>y z. exchange_step junk n ops x y \<and> exchange_step junk n ops y z \<and>
          ex_results z = ex_results x @ [(tk_serial t, reply_result junk n m)]"
      if m: "rd_replySerial (m_header m) = Some (tk_serial t)" for m
    proof -
      have u: "tk_serial t \<in> set (ex_unanswered x)" using exchange_invD(6) [OF i] t None by simp
      obtain st' where h: "HandleReply ops m (tk_serial t) (ex_state x) = Inr st'"
        and j: "exchange_inv junk n pend (x\<lparr> ex_state := st', ex_unanswered := remove1 (tk_serial t) (ex_unanswered x),
          ex_answers := (ex_answers x)(tk_serial t \<mapsto> m) \<rparr>)"
        using exchange_inv_answer [OF f i u m] by blast
      from now [OF j, of m] exchange_step.answer [OF u m h] show ?thesis using t by (auto intro!: exI conjI)
    qed
    then show ?thesis using None by simp
  next
    case (Some m)
    then show ?thesis using now [OF i Some t] by simp
  qed
qed

theorem calls_progress_witness:
  "\<exists>x y z :: (IncomingDBusMessage list, unit) exchange. ex_results x = [] \<and> exchange_step no_junk 9 list_channel x y \<and>
     exchange_step no_junk 9 list_channel y z \<and> ex_results z = [(1, Inr (Some (example_reply 1)))]"
proof -
  obtain x :: "(IncomingDBusMessage list, unit) exchange" and t where x: "reachable no_junk 9 list_channel None x"
      "ex_tickets x = [t]" "tk_serial t = 1" "ex_results x = []" "ex_answers x = Map.empty"
    using example_exchange_sent by blast
  have "t \<in> set (ex_tickets x)" using x(2) by simp
  from calls_progress [OF fifo_list_channel x(1) this] have "\<exists>y z. exchange_step no_junk 9 list_channel x y \<and>
      exchange_step no_junk 9 list_channel y z \<and> ex_results z = [(1, reply_result no_junk 9 (example_reply 1))]"
    using x(3,4,5) example_reply_serial [of 1] by simp
  then show ?thesis using x(4) example_reply_result by metis
qed

section \<open>Outside the limits\<close>

text \<open>Two replies to one call mislead a later one: when both arrive before the caller runs, the second stays
  in the slot's channel, and the next call that uses the slot returns it at once, before anything was
  answered.\<close>

theorem duplicate_reply_misdelivered:
  assumes f: "fifo_channel ops pend" and i: "reply_inv pend st"
    and t: "ticket_ok st t" "\<not> tk_newChannelUsed t" and c: "calls pend st (tk_serial t) = Some [m, m']"
    and s: "slot_of (st_serial st) = slot_of (tk_serial t)"
    and later: "ExpectsReply message" "Serialize message (st_serial st) = Inr bytes"
  shows "\<exists>st1 st2 st3 t'. SendMessageInternal_finish junk n ops t st = Some (st1, reply_result junk n m) \<and>
    SendMessageInternal_begin ops message st1 = (st2, Inr (bytes, t')) \<and> tk_serial t' = st_serial st \<and>
    SendMessageInternal_finish junk n ops t' st2 = Some (st3, reply_result junk n m')"
proof -
  let ?i = "slot_of (tk_serial t)"
  let ?old = "st_replyChannels st ! ?i"
  have l: "?i < length (st_replyChannels st)" by (rule reply_inv_length [OF i])
  have e: "tk_expectsReply t" "active st (tk_serial t)" using t by (auto simp: ticket_ok_def)
  then have "pend (ci_channel ?old) = [m, m']" using c by (simp add: calls_def)
  then obtain d where d: "async_receive ops (ci_channel ?old) = Some (m, d)" "pend d = [m']"
    using fifo_receive_Cons [OF f] by blast
  obtain d' where d': "async_receive ops d = Some (m', d')" using fifo_receive_Cons [OF f d(2)] by blast
  show ?thesis
    using e t(2) d(1) d' s later l
    by (simp add: SendMessageInternal_finish_def release_channel_def SendMessageInternal_begin_def
        reserve_channel_def Let_def)
qed

definition two_replies :: "(IncomingDBusMessage list, unit) InternalState" where
  "two_replies = (new_connection list_channel None)
     \<lparr> st_serial := 57, st_replyChannels := (st_replyChannels (new_connection list_channel None :: (_, unit) InternalState))
       [1 := \<lparr> ci_channel = [example_reply 1, example_reply 1], ci_serial = 1, ci_ready = False \<rparr>] \<rparr>"

theorem duplicate_reply_misdelivered_witness:
  "\<exists>st1 st2 st3 t'. SendMessageInternal_begin list_channel example_call st1 = (st2, Inr (message_bytes example_call 57, t')) \<and>
    SendMessageInternal_finish no_junk 9 list_channel t' st2 =
      Some (st3 :: (IncomingDBusMessage list, unit) InternalState, Inr (Some (example_reply 1)))"
proof -
  have "slot_of 1 = 1" "slot_of 57 = 1" by (simp_all add: slot_of_def CXXBUS_MAX_CONCURRENT_MESSAGES_def)
  moreover have "reply_inv (\<lambda>c. c) two_replies"
    using \<open>slot_of 1 = 1\<close>
    by (auto simp: reply_inv_def two_replies_def new_connection_def list_channel_def CXXBUS_MAX_CONCURRENT_MESSAGES_def
        nth_list_update Let_def)
  moreover have "ticket_ok two_replies \<lparr> tk_serial = 1, tk_expectsReply = True, tk_newChannelUsed = False \<rparr>"
    "calls (\<lambda>c. c) two_replies 1 = Some [example_reply 1, example_reply 1]"
    using \<open>slot_of 1 = 1\<close>
    by (simp_all add: ticket_ok_def calls_def active_def two_replies_def new_connection_def CXXBUS_MAX_CONCURRENT_MESSAGES_def)
  ultimately show ?thesis
    using duplicate_reply_misdelivered [OF fifo_list_channel, of two_replies
        "\<lparr> tk_serial = 1, tk_expectsReply = True, tk_newChannelUsed = False \<rparr>" "example_reply 1" "example_reply 1"
        example_call "message_bytes example_call 57" no_junk 9]
      example_call_ok example_call_serialized [of 57]
    by (simp add: two_replies_def example_reply_result) blast
qed

text \<open>An active slot is one for which a ticket could exist.\<close>

abbreviation slot_ticket :: "32 word \<Rightarrow> ticket" where
  "slot_ticket s \<equiv> \<lparr> tk_serial = s, tk_expectsReply = True, tk_newChannelUsed = False \<rparr>"

lemma active_ticket: "active st s = ticket_ok st (slot_ticket s)"
  by (simp add: ticket_ok_def)

lemma collect_keeps:
  assumes f: "fifo_channel ops pend" and i: "exchange_inv junk n pend x" and t: "t \<in> set (ex_tickets x)"
    and c: "SendMessageInternal_finish junk n ops t (ex_state x) = Some (st', r)"
    and u: "ticket_ok (ex_state x) u" "tk_serial u \<noteq> tk_serial t"
  shows "ticket_ok st' u"
proof -
  note inv = exchange_invD [OF i]
  have ok: "ticket_ok (ex_state x) t" by (rule inv(2) [OF t])
  then have e: "tk_expectsReply t" by (simp add: ticket_ok_def)
  show ?thesis
  proof (cases "ex_answers x (tk_serial t)")
    case None
    then show ?thesis using release_channel_refines [OF f inv(1) ok] inv(3) [OF t] e c
      by (simp add: SendMessageInternal_finish_def)
  next
    case (Some m)
    then show ?thesis using release_channel_refines [OF f inv(1) ok] inv(3) [OF t] e c u
      by (auto simp: SendMessageInternal_finish_def)
  qed
qed

lemma leaked_step:
  assumes f: "fifo_channel ops pend" and i: "exchange_inv junk n pend y"
    and l: "active (ex_state y) s" "s \<notin> tk_serial ` set (ex_tickets y)" and step: "exchange_step junk n ops y z"
  shows "active (ex_state z) s \<and> s \<notin> tk_serial ` set (ex_tickets z)"
proof -
  have k: "ticket_ok (ex_state y) (slot_ticket s)" using l(1) by (simp add: active_ticket)
  have "calls pend (ex_state y) s \<noteq> None" using l(1) by (simp add: calls_def)
  then have new: "s \<noteq> st_serial (ex_state y)" if "st_serial (ex_state y) \<noteq> 0"
    using exchange_invD(7) [OF i] not_fresh_self [OF that] by blast
  from step show ?thesis
  proof cases
    case (send message st' bytes t)
    then show ?thesis
      using begin_facts(4) [OF f i send(2,4) k] begin_facts(5) [OF f i send(2,4) refl] new l(2) by (auto simp: active_ticket)
  next
    case (send_no_reply message st' r')
    then show ?thesis using begin_facts(4) [OF f i send_no_reply(2,4) k] l(2) by (simp add: active_ticket)
  next
    case (send_fails message st' e)
    then show ?thesis using begin_facts(4) [OF f i send_fails(2,4) k] l(2) by (simp add: active_ticket)
  next
    case (answer s' message st')
    then have "calls pend (ex_state y) s' \<noteq> None" using exchange_invD(3,6) [OF i] by auto
    then have "ticket_ok st' = ticket_ok (ex_state y)"
      using HandleReply_refines [OF f exchange_invD(1) [OF i], where s = s' and m = message] answer(4) by auto
    then show ?thesis using answer(1) k l(2) by (simp add: active_ticket)
  next
    case (collect t st' r')
    have "tk_serial t \<noteq> s" using l(2) collect(2) by auto
    then have "ticket_ok st' (slot_ticket s)" using collect_keeps [OF f i collect(2,3) k] by simp
    then show ?thesis using collect(1) l(2) notin_set_remove1 by (fastforce simp: active_ticket)
  qed
qed

text \<open>A message that cannot be serialised costs a channel: its slot has been reserved before, and stays
  reserved whatever happens later, since nobody waits on it.\<close>

theorem failed_send_leaks_slot:
  assumes f: "fifo_channel ops pend" and x: "reachable junk n ops name x" and s: "st_serial (ex_state x) \<noteq> 0"
    and e: "ExpectsReply message" "Serialize message (st_serial (ex_state x)) = Inl e"
    and ready: "ci_ready (st_replyChannels (ex_state x) ! slot_of (st_serial (ex_state x)))"
  shows "\<exists>y. exchange_step junk n ops x y \<and> (\<forall>z. (exchange_step junk n ops)\<^sup>*\<^sup>* y z \<longrightarrow>
    active (ex_state z) (st_serial (ex_state x)))"
proof -
  note i = exchange_inv_reachable [OF x f]
  define st' where "st' = fst (SendMessageInternal_begin ops message (ex_state x))"
  have b: "SendMessageInternal_begin ops message (ex_state x) = (st', Inl e)"
    using e ready by (simp add: st'_def SendMessageInternal_begin_def Let_def)
  let ?y = "x\<lparr> ex_state := st' \<rparr>"
  have y: "exchange_step junk n ops x ?y" by (rule exchange_step.send_fails [OF s e(1) b])
  have "active st' (st_serial (ex_state x))"
    using e(1) ready reply_inv_length [OF exchange_invD(1) [OF i]]
    by (simp add: st'_def SendMessageInternal_begin_def reserve_channel_def active_def Let_def)
  moreover have "st_serial (ex_state x) \<notin> tk_serial ` set (ex_tickets x)"
    using begin_facts(8) [OF f i s b] by simp
  moreover have "exchange_inv junk n pend ?y" by (rule exchange_inv_step [OF f i y])
  ultimately have start: "active (ex_state ?y) (st_serial (ex_state x)) \<and>
      st_serial (ex_state x) \<notin> tk_serial ` set (ex_tickets ?y) \<and> exchange_inv junk n pend ?y"
    by simp
  have "active (ex_state z) (st_serial (ex_state x)) \<and> st_serial (ex_state x) \<notin> tk_serial ` set (ex_tickets z) \<and>
      exchange_inv junk n pend z" if "(exchange_step junk n ops)\<^sup>*\<^sup>* ?y z" for z
    using that
  proof (induction rule: rtranclp_induct)
    case (step v w)
    then show ?case using exchange_inv_step [OF f _ step(2)] leaked_step [OF f _ _ _ step(2)] by blast
  qed (rule start)
  then show ?thesis using y by blast
qed

lemma incomplete_call_fails:
  "ExpectsReply (new_DBusMessage MT_METHOD_CALL) \<and>
   Serialize (new_DBusMessage MT_METHOD_CALL) 1 = Inl DBusSerializationError"
  by code_simp

theorem failed_send_leaks_slot_witness:
  "\<exists>y :: (IncomingDBusMessage list, unit) exchange.
     exchange_step no_junk 9 list_channel (exchange_start list_channel None) y \<and>
     (\<forall>z. (exchange_step no_junk 9 list_channel)\<^sup>*\<^sup>* y z \<longrightarrow> active (ex_state z) 1)"
  using failed_send_leaks_slot [OF fifo_list_channel reachable.start, of None "new_DBusMessage MT_METHOD_CALL"
      DBusSerializationError no_junk 9] incomplete_call_fails
  by (simp add: exchange_start_def new_connection_def slot_of_def CXXBUS_MAX_CONCURRENT_MESSAGES_def)

definition send_all :: "'c channel_ops \<Rightarrow> DBusMessage list \<Rightarrow> ('c, 'h) InternalState \<Rightarrow> ('c, 'h) InternalState" where
  "send_all ops ms st = fold (\<lambda>m st. fst (SendMessageInternal_begin ops m st)) ms st"

lemma send_all_serial: "st_serial (send_all ops ms st) = st_serial st + word_of_nat (length ms)"
proof -
  have "st_serial (fst (SendMessageInternal_begin ops m st)) = st_serial st + 1" for m and st :: "('a, 'b) InternalState"
    by (simp add: SendMessageInternal_begin_def Let_def)
  then show ?thesis by (induction ms arbitrary: st) (simp_all add: send_all_def)
qed

text \<open>The serial is not kept away from 0: a connection that has sent \<open>2\<^sup>3\<^sup>2 - 1\<close> messages sends the next one
  with serial 0, which a message must not have.\<close>

theorem serial_zero_sent:
  assumes "length ms = 4294967295" and "message_ok message" and "message_small message" and "\<not> ExpectsReply message"
  shows "\<exists>bytes t. snd (SendMessageInternal_begin ops message (send_all ops ms (new_connection ops name))) = Inr (bytes, t) \<and>
    take 4 (drop 8 bytes) = [0, 0, 0, 0]"
    (is "\<exists>bytes t. snd (SendMessageInternal_begin _ _ ?st) = _ \<and> _")
proof -
  have z: "st_serial ?st = 0" by (simp add: send_all_serial assms(1) new_connection_def)
  have "Serialize message 0 = Inr (message_bytes message 0)"
    using assms(2,3) by (intro serialize_message) (simp_all add: message_small_def)
  moreover have "take 4 (drop 8 (message_bytes message 0)) = [0, 0, 0, 0]"
  proof -
    let ?a = "[108, message_type_code (m_messageType message), m_flags message, 1] @ le_bytes 4 (length (m_messageBody message))"
    obtain r where r: "message_bytes message 0 = ?a @ le_bytes 4 0 @ r"
      by (simp add: message_bytes_def header_bytes_def fixed_bytes_def del: le_bytes.simps)
    have "length ?a = 8" "length (le_bytes 4 0) = 4" by simp_all
    then have "drop 8 (message_bytes message 0) = le_bytes 4 0 @ r" "take 4 (le_bytes 4 0 @ r) = le_bytes 4 0"
      unfolding r by (simp_all only: drop_append take_append append_eq_conv_conj) simp_all
    moreover have "le_bytes 4 0 = [0, 0, 0, 0]" by code_simp
    ultimately show ?thesis by simp
  qed
  ultimately show ?thesis using z assms(4) by (simp add: SendMessageInternal_begin_def Let_def)
qed

lemma example_no_reply: "message_ok (DBusMessage_Flag FL_NO_REPLY_EXPECTED example_call) \<and>
    message_small (DBusMessage_Flag FL_NO_REPLY_EXPECTED example_call) \<and>
    \<not> ExpectsReply (DBusMessage_Flag FL_NO_REPLY_EXPECTED example_call)"
  by code_simp

theorem serial_zero_sent_witness:
  "\<exists>ms bytes t. snd (SendMessageInternal_begin list_channel (DBusMessage_Flag FL_NO_REPLY_EXPECTED example_call)
       (send_all list_channel ms (new_connection list_channel None :: (_, unit) InternalState))) = Inr (bytes, t) \<and>
       take 4 (drop 8 bytes) = [0, 0, 0, 0]"
proof -
  obtain ms :: "DBusMessage list" where ms: "length ms = 4294967295" using Ex_list_of_length by blast
  have m: "message_ok (DBusMessage_Flag FL_NO_REPLY_EXPECTED example_call)"
    "message_small (DBusMessage_Flag FL_NO_REPLY_EXPECTED example_call)"
    "\<not> ExpectsReply (DBusMessage_Flag FL_NO_REPLY_EXPECTED example_call)"
    using example_no_reply by blast+
  show ?thesis by (rule exI [of _ ms]) (rule serial_zero_sent [OF ms m])
qed

end
