(* ===== verification/Handlers.thy ===== *)
theory Handlers
  imports Exchange
begin

text \<open>
  What the user registers at a connection, from \<^verbatim>\<open>src/src/DBusConnection.txx\<close>: match rules, object path
  handlers, message filters, receivers and well-known names. Where an operation calls the bus, the bus is a
  parameter: it gives for each message what \<^verbatim>\<open>SendMessage\<close> returns or throws. The operations of such a
  coroutine before and after the call are definitions of their own, because others may run in between.
  The interface of the tables is the locale \<open>handler_registry\<close>.
\<close>

section \<open>Calls to the bus\<close>

type_synonym bus = "DBusMessage \<Rightarrow> IncomingDBusMessage result"

definition bus_method :: "string \<Rightarrow> DBusMessage result" where
  "bus_method method =
     bindE (make_ObjectPath ''/org/freedesktop/DBus'') (\<lambda>path.
       bindE (make_DBusInterfaceName ''org.freedesktop.DBus'') (\<lambda>interface.
         Inr (DBusMessage_Destination ''org.freedesktop.DBus''
           (DBusMessage_Interface interface (DBusMessage_Method method path)))))"

lemma bus_method_simp: "bus_method method = Inr ((new_DBusMessage MT_METHOD_CALL)
     \<lparr> m_method := Some method, m_path := Some (MkObjectPath ''/org/freedesktop/DBus''),
       m_interface := Some (MkInterfaceName ''org.freedesktop.DBus''), m_destination := Some ''org.freedesktop.DBus'' \<rparr>)"
proof -
  have "make_ObjectPath ''/org/freedesktop/DBus'' = Inr (MkObjectPath ''/org/freedesktop/DBus'')"
    "make_DBusInterfaceName ''org.freedesktop.DBus'' = Inr (MkInterfaceName ''org.freedesktop.DBus'')" by code_simp+
  then show ?thesis
    by (simp add: bus_method_def DBusMessage_Method_def DBusMessage_Interface_def DBusMessage_Destination_def)
qed

section \<open>Match rules\<close>

definition AddMatch_call :: "DBusMatchRule \<Rightarrow> DBusMessage result" where
  "AddMatch_call rule = bindE (bus_method ''AddMatch'') (\<lambda>m. bindE (GetRule rule) (\<lambda>text.
     DBusMessage_Parameter (VString StdString text) m))"

definition RemoveMatch_call :: "DBusMatchRule \<Rightarrow> DBusMessage result" where
  "RemoveMatch_call rule = bindE (bus_method ''RemoveMatch'') (\<lambda>m. bindE (GetRule rule) (\<lambda>text.
     DBusMessage_Parameter (VString StdString text) m))"

fun add_rule :: "DBusMatchRule \<Rightarrow> 'h callback \<Rightarrow> bool \<Rightarrow> 'h MatchRuleInfo list \<Rightarrow> 'h MatchRuleInfo list" where
  "add_rule rule cb executeOnUserContext [] =
     [\<lparr> mri_rule = rule, mri_callback = [cb], mri_executeOnUserContext = executeOnUserContext \<rparr>]"
| "add_rule rule cb executeOnUserContext (elem # elems) =
     (if mri_rule elem = rule then elem\<lparr> mri_callback := mri_callback elem @ [cb] \<rparr> # elems
      else elem # add_rule rule cb executeOnUserContext elems)"

fun erase_rule :: "DBusMatchRule \<Rightarrow> 'h MatchRuleInfo list \<Rightarrow> 'h MatchRuleInfo list" where
  "erase_rule rule [] = []"
| "erase_rule rule (elem # elems) = (if mri_rule elem = rule then elems else elem # erase_rule rule elems)"

definition AddMatchRuleImpl ::
    "bus \<Rightarrow> DBusMatchRule \<Rightarrow> 'h callback \<Rightarrow> bool \<Rightarrow> ('c, 'h) InternalState \<Rightarrow> ('c, 'h) InternalState result" where
  "AddMatchRuleImpl bus rule cb executeOnUserContext st =
     bindE (AddMatch_call rule) (\<lambda>m. bindE (bus m) (\<lambda>_.
       Inr (st\<lparr> st_matchRules := add_rule rule cb executeOnUserContext (st_matchRules st) \<rparr>)))"

definition RemoveMatchRuleImpl :: "bus \<Rightarrow> DBusMatchRule \<Rightarrow> ('c, 'h) InternalState \<Rightarrow> ('c, 'h) InternalState result" where
  "RemoveMatchRuleImpl bus rule st =
     bindE (RemoveMatch_call rule) (\<lambda>m. bindE (bus m) (\<lambda>_.
       Inr (st\<lparr> st_matchRules := erase_rule rule (st_matchRules st) \<rparr>)))"

definition SubscribeToNameChanges :: "bus \<Rightarrow> ('c, 'h) InternalState \<Rightarrow> ('c, 'h) InternalState result" where
  "SubscribeToNameChanges bus st = bindE name_change_rule (\<lambda>rule. AddMatchRuleImpl bus rule NameCacheCallback False st)"

section \<open>Object paths, filters and receivers\<close>

definition RegisterObjectPathHandlerImpl :: "ObjectPath \<Rightarrow> 'h \<Rightarrow> ('c, 'h) InternalState \<Rightarrow> ('c, 'h) InternalState" where
  "RegisterObjectPathHandlerImpl path cb st = st\<lparr> st_objectPathHandlers :=
     (case st_objectPathHandlers st (GetPath path) of
        Some handlers \<Rightarrow> (st_objectPathHandlers st)(GetPath path \<mapsto> handlers @ [cb])
      | None \<Rightarrow> (st_objectPathHandlers st)(GetPath path \<mapsto> [cb])) \<rparr>"

definition UnregisterObjectPathHandlerImpl :: "ObjectPath \<Rightarrow> ('c, 'h) InternalState \<Rightarrow> ('c, 'h) InternalState" where
  "UnregisterObjectPathHandlerImpl path st =
     st\<lparr> st_objectPathHandlers := (st_objectPathHandlers st)(GetPath path := None) \<rparr>"

text \<open>\<^verbatim>\<open>emplace\<close> leaves an element that is already there.\<close>

definition RegisterMessageFilter :: "'h \<Rightarrow> ('c, 'h) InternalState \<Rightarrow> 32 word \<times> ('c, 'h) InternalState" where
  "RegisterMessageFilter cb st =
     (let filterID = st_messageFilterID st in
      (filterID, st\<lparr> st_messageFilterID := filterID + 1,
         st_messageFilters := (if st_messageFilters st filterID \<noteq> None then st_messageFilters st
           else (st_messageFilters st)(filterID \<mapsto> cb)) \<rparr>))"

definition UnregisterMessageFilter :: "32 word \<Rightarrow> ('c, 'h) InternalState \<Rightarrow> ('c, 'h) InternalState" where
  "UnregisterMessageFilter filterID st = st\<lparr> st_messageFilters := (st_messageFilters st)(filterID := None) \<rparr>"

definition ReceiveIncomingMessages :: "'h \<Rightarrow> ('c, 'h) InternalState \<Rightarrow> ('c, 'h) InternalState" where
  "ReceiveIncomingMessages cb st = st\<lparr> st_onIncomingSignal := st_onIncomingSignal st @ [cb] \<rparr>"

section \<open>Well-known names\<close>

datatype WellKnownNameFlag = WKN_NONE | ALLOW_REPLACEMENT | REPLACE_EXISTING | DO_NOT_QUEUE

fun name_flag_code :: "WellKnownNameFlag \<Rightarrow> 8 word" where
  "name_flag_code WKN_NONE = 0x00"
| "name_flag_code ALLOW_REPLACEMENT = 0x01"
| "name_flag_code REPLACE_EXISTING = 0x02"
| "name_flag_code DO_NOT_QUEUE = 0x04"

definition RequestName_call :: "DBusWellKnownName \<Rightarrow> 8 word \<Rightarrow> DBusMessage result" where
  "RequestName_call name flags = bindE (bus_method ''RequestName'') (\<lambda>m.
     DBusMessage_Parameters [VString StdString (well_known_name name), VFixed (FU32 (ucast flags))] m)"

definition ReleaseName_call :: "DBusWellKnownName \<Rightarrow> DBusMessage result" where
  "ReleaseName_call name = bindE (bus_method ''ReleaseName'') (\<lambda>m.
     DBusMessage_Parameter (VString StdString (well_known_name name)) m)"

text \<open>The daemon's answer is a number, of which every value is only logged.\<close>

definition RequestName_before :: "DBusWellKnownName \<Rightarrow> 8 word \<Rightarrow> ('c, 'h) InternalState \<Rightarrow> DBusMessage result" where
  "RequestName_before name flags st =
     (if name \<in> set (st_wellKnownNames st) then Inl RuntimeError else RequestName_call name flags)"

definition RequestName_after ::
    "(nat \<Rightarrow> nat \<Rightarrow> 8 word) \<Rightarrow> nat \<Rightarrow> DBusWellKnownName \<Rightarrow> IncomingDBusMessage \<Rightarrow> ('c, 'h) InternalState \<Rightarrow>
     ('c, 'h) InternalState result" where
  "RequestName_after junk n name reply st =
     bindE (IncomingDBusMessage_Get junk n (TFixed U32) reply) (\<lambda>_.
       Inr (st\<lparr> st_wellKnownNames := st_wellKnownNames st @ [name] \<rparr>))"

definition RequestWellKnownNameImpl ::
    "(nat \<Rightarrow> nat \<Rightarrow> 8 word) \<Rightarrow> nat \<Rightarrow> bus \<Rightarrow> DBusWellKnownName \<Rightarrow> 8 word \<Rightarrow> ('c, 'h) InternalState \<Rightarrow>
     ('c, 'h) InternalState result" where
  "RequestWellKnownNameImpl junk n bus name flags st =
     bindE (RequestName_before name flags st) (\<lambda>m. bindE (bus m) (\<lambda>reply. RequestName_after junk n name reply st))"

definition ReleaseName_before :: "DBusWellKnownName \<Rightarrow> ('c, 'h) InternalState \<Rightarrow> DBusMessage result" where
  "ReleaseName_before name st =
     (if name \<notin> set (st_wellKnownNames st) then Inl RuntimeError else ReleaseName_call name)"

definition ReleaseName_after ::
    "(nat \<Rightarrow> nat \<Rightarrow> 8 word) \<Rightarrow> nat \<Rightarrow> DBusWellKnownName \<Rightarrow> IncomingDBusMessage \<Rightarrow> ('c, 'h) InternalState \<Rightarrow>
     ('c, 'h) InternalState result" where
  "ReleaseName_after junk n name reply st =
     bindE (IncomingDBusMessage_Get junk n (TFixed U32) reply) (\<lambda>_.
       Inr (st\<lparr> st_wellKnownNames := removeAll name (st_wellKnownNames st) \<rparr>))"

definition ReleaseWellKnownNameImpl ::
    "(nat \<Rightarrow> nat \<Rightarrow> 8 word) \<Rightarrow> nat \<Rightarrow> bus \<Rightarrow> DBusWellKnownName \<Rightarrow> ('c, 'h) InternalState \<Rightarrow> ('c, 'h) InternalState result" where
  "ReleaseWellKnownNameImpl junk n bus name st =
     bindE (ReleaseName_before name st) (\<lambda>m. bindE (bus m) (\<lambda>reply. ReleaseName_after junk n name reply st))"

section \<open>The interface of the tables\<close>

text \<open>A table gives for each key its handlers, in the order they were added; removing a key removes them all.\<close>

datatype ('k, 'h) table_op = Add 'k 'h | Remove 'k

fun registered :: "'k \<Rightarrow> ('k, 'h) table_op list \<Rightarrow> 'h list \<Rightarrow> 'h list" where
  "registered k [] hs = hs"
| "registered k (Add k' h # ops) hs = registered k ops (if k' = k then hs @ [h] else hs)"
| "registered k (Remove k' # ops) hs = registered k ops (if k' = k then [] else hs)"

locale handler_registry =
  fixes inv :: "'s \<Rightarrow> bool" and handlers :: "'s \<Rightarrow> 'k \<Rightarrow> 'h list" and add :: "'k \<Rightarrow> 'h \<Rightarrow> 's \<Rightarrow> 's" and remove :: "'k \<Rightarrow> 's \<Rightarrow> 's"
  assumes inv_add: "inv s \<Longrightarrow> inv (add k h s)" and inv_remove: "inv s \<Longrightarrow> inv (remove k s)"
    and handlers_add: "inv s \<Longrightarrow> handlers (add k h s) k' = (if k = k' then handlers s k' @ [h] else handlers s k')"
    and handlers_remove: "inv s \<Longrightarrow> handlers (remove k s) k' = (if k = k' then [] else handlers s k')"
begin

primrec perform :: "('k, 'h) table_op \<Rightarrow> 's \<Rightarrow> 's" where
  "perform (Add k h) s = add k h s"
| "perform (Remove k) s = remove k s"

lemma inv_perform: "inv s \<Longrightarrow> inv (perform op s)"
  by (cases op) (simp_all add: inv_add inv_remove)

lemma handlers_after: "inv s \<Longrightarrow> inv (fold perform ops s) \<and> handlers (fold perform ops s) k = registered k ops (handlers s k)"
proof (induction ops arbitrary: s)
  case (Cons op ops)
  then have "inv (fold perform (op # ops) s) \<and> handlers (fold perform (op # ops) s) k = registered k ops (handlers (perform op s) k)"
    using Cons.IH [OF inv_perform [OF Cons.prems], of op] by simp
  then show ?case using Cons.prems by (cases op) (simp_all add: handlers_add handlers_remove)
qed simp

lemma other_keys: "inv s \<Longrightarrow> \<forall>op \<in> set ops. case op of Add k' h \<Rightarrow> k' \<noteq> k | Remove k' \<Rightarrow> k' \<noteq> k \<Longrightarrow>
    handlers (fold perform ops s) k = handlers s k"
proof -
  have "registered k ops hs = hs" if "\<forall>op \<in> set ops. case op of Add k' h \<Rightarrow> k' \<noteq> k | Remove k' \<Rightarrow> k' \<noteq> k" for hs :: "'h list"
    using that by (induction k ops hs rule: registered.induct) auto
  then show "inv s \<Longrightarrow> \<forall>op \<in> set ops. case op of Add k' h \<Rightarrow> k' \<noteq> k | Remove k' \<Rightarrow> k' \<noteq> k \<Longrightarrow>
    handlers (fold perform ops s) k = handlers s k" by (simp add: handlers_after)
qed

end

section \<open>The tables of a connection\<close>

definition path_handlers :: "('c, 'h) InternalState \<Rightarrow> ObjectPath \<Rightarrow> 'h list" where
  "path_handlers st path = (case st_objectPathHandlers st (GetPath path) of None \<Rightarrow> [] | Some hs \<Rightarrow> hs)"

definition path_inv :: "('c, 'h) InternalState \<Rightarrow> bool" where
  "path_inv st \<longleftrightarrow> (\<forall>p. st_objectPathHandlers st p \<noteq> Some [])"

interpretation paths: handler_registry path_inv path_handlers RegisterObjectPathHandlerImpl UnregisterObjectPathHandlerImpl
  by unfold_locales
    (auto simp: path_inv_def path_handlers_def RegisterObjectPathHandlerImpl_def UnregisterObjectPathHandlerImpl_def
      ObjectPath.expand split: option.splits)

definition rule_callbacks :: "'h MatchRuleInfo list \<Rightarrow> DBusMatchRule \<Rightarrow> 'h callback list" where
  "rule_callbacks rules rule =
     (case find (\<lambda>elem. mri_rule elem = rule) rules of None \<Rightarrow> [] | Some elem \<Rightarrow> mri_callback elem)"

definition rules_inv :: "'h MatchRuleInfo list \<Rightarrow> bool" where
  "rules_inv rules \<longleftrightarrow> distinct (map mri_rule rules) \<and> (\<forall>elem \<in> set rules. mri_callback elem \<noteq> [])"

lemma set_add_rule: "mri_rule ` set (add_rule rule cb exec rules) = insert rule (mri_rule ` set rules)"
  by (induction rules) auto

lemma set_erase_rule: "distinct (map mri_rule rules) \<Longrightarrow> set (erase_rule rule rules) = {elem \<in> set rules. mri_rule elem \<noteq> rule}"
  by (induction rules) (auto simp: image_iff)

lemma rules_inv_add: "rules_inv rules \<Longrightarrow> rules_inv (add_rule rule cb exec rules)"
proof (induction rules)
  case (Cons elem elems)
  then show ?case using set_add_rule [of rule cb exec elems] by (auto simp: rules_inv_def)
qed (simp add: rules_inv_def)

lemma rules_inv_erase: "rules_inv rules \<Longrightarrow> rules_inv (erase_rule rule rules)"
proof (induction rules)
  case (Cons elem elems)
  then show ?case using set_erase_rule [of elems rule] by (auto simp: rules_inv_def)
qed (simp add: rules_inv_def)

lemma callbacks_add:
  "rule_callbacks (add_rule rule cb exec rules) r = (if rule = r then rule_callbacks rules r @ [cb] else rule_callbacks rules r)"
  by (induction rules) (auto simp: rule_callbacks_def)

lemma callbacks_none: "rule \<notin> mri_rule ` set rules \<Longrightarrow> rule_callbacks rules rule = []"
  by (induction rules) (auto simp: rule_callbacks_def)

lemma callbacks_Cons:
  "rule_callbacks (elem # elems) r = (if mri_rule elem = r then mri_callback elem else rule_callbacks elems r)"
  by (simp add: rule_callbacks_def)

lemma callbacks_erase:
  "rules_inv rules \<Longrightarrow> rule_callbacks (erase_rule rule rules) r = (if rule = r then [] else rule_callbacks rules r)"
proof (induction rules)
  case (Cons elem elems)
  then show ?case by (auto simp: rules_inv_def callbacks_Cons callbacks_none)
qed (simp add: rule_callbacks_def)

interpretation rules: handler_registry rules_inv rule_callbacks "\<lambda>rule cb. add_rule rule cb exec" erase_rule for exec
  by unfold_locales (simp_all add: rules_inv_add rules_inv_erase callbacks_add callbacks_erase)

section \<open>Properties\<close>

fun path_op :: "(ObjectPath, 'h) table_op \<Rightarrow> ('c, 'h) InternalState \<Rightarrow> ('c, 'h) InternalState" where
  "path_op (Add path cb) st = RegisterObjectPathHandlerImpl path cb st"
| "path_op (Remove path) st = UnregisterObjectPathHandlerImpl path st"

lemma path_op_perform: "path_op = paths.perform"
proof
  show "path_op op = paths.perform op" for op :: "(ObjectPath, 'h) table_op"
    by (cases op) (simp_all add: fun_eq_iff)
qed

lemma path_inv_new: "path_inv (new_connection chan name)"
  by (simp add: path_inv_def new_connection_def)

lemma path_handlers_new: "path_handlers (new_connection chan name) path = []"
  by (simp add: path_handlers_def new_connection_def)

text \<open>C18: After any registrations and removals, the handlers of an object path are those registered for it since
  it was last removed, in order; operations on other paths do not matter.\<close>

theorem path_handlers_registered:
  "path_handlers (fold path_op ops (new_connection chan name)) path = registered path ops []"
  by (simp add: path_op_perform path_handlers_new paths.handlers_after [OF path_inv_new])

text \<open>An operation on match rules that throws leaves the connection as it is.\<close>

fun rule_op :: "bus \<Rightarrow> (DBusMatchRule, 'h callback) table_op \<Rightarrow> ('c, 'h) InternalState \<Rightarrow> ('c, 'h) InternalState" where
  "rule_op bus (Add rule cb) st = (case AddMatchRuleImpl bus rule cb True st of Inl e \<Rightarrow> st | Inr st' \<Rightarrow> st')"
| "rule_op bus (Remove rule) st = (case RemoveMatchRuleImpl bus rule st of Inl e \<Rightarrow> st | Inr st' \<Rightarrow> st')"

fun accepted :: "bus \<Rightarrow> (DBusMatchRule, 'h callback) table_op \<Rightarrow> bool" where
  "accepted bus (Add rule cb) = (\<not> isl (bindE (AddMatch_call rule) bus))"
| "accepted bus (Remove rule) = (\<not> isl (bindE (RemoveMatch_call rule) bus))"

lemma rule_op_perform:
  "st_matchRules (rule_op bus op st) = (if accepted bus op then rules.perform True op (st_matchRules st) else st_matchRules st)"
proof (cases op)
  case (Add rule cb)
  then show ?thesis
    by (cases "AddMatch_call rule"; cases "bindE (AddMatch_call rule) bus") (auto simp: AddMatchRuleImpl_def)
next
  case (Remove rule)
  then show ?thesis
    by (cases "RemoveMatch_call rule"; cases "bindE (RemoveMatch_call rule) bus") (auto simp: RemoveMatchRuleImpl_def)
qed

lemma rule_ops_perform:
  "st_matchRules (fold (rule_op bus) ops st) = fold (rules.perform True) (filter (accepted bus) ops) (st_matchRules st)"
  by (induction ops arbitrary: st) (simp_all add: rule_op_perform)

text \<open>C19: Match rules are kept without duplicates, and the callbacks of a rule are those of the additions since its
  last removal, of which only the operations count that the bus accepted; a failed one changes nothing.\<close>

theorem rule_callbacks_registered:
  "rule_callbacks (st_matchRules (fold (rule_op bus) ops (new_connection chan name))) rule =
     registered rule (filter (accepted bus) ops) [] \<and>
   distinct (map mri_rule (st_matchRules (fold (rule_op bus) ops (new_connection chan name))))"
proof -
  have "rules_inv []" by (simp add: rules_inv_def)
  from rules.handlers_after [OF this, of True "filter (accepted bus) ops" rule] show ?thesis
    by (simp add: rule_ops_perform new_connection_def rules_inv_def rule_callbacks_def)
qed

fun filter_op :: "(32 word, 'h) table_op \<Rightarrow> ('c, 'h) InternalState \<Rightarrow> ('c, 'h) InternalState" where
  "filter_op (Add _ cb) st = snd (RegisterMessageFilter cb st)"
| "filter_op (Remove filterID) st = UnregisterMessageFilter filterID st"

definition registrations :: "(32 word, 'h) table_op list \<Rightarrow> nat" where
  "registrations ops = length (filter (\<lambda>op. case op of Add _ _ \<Rightarrow> True | Remove _ \<Rightarrow> False) ops)"

definition filters_below :: "nat \<Rightarrow> ('c, 'h) InternalState \<Rightarrow> bool" where
  "filters_below k st \<longleftrightarrow> unat (st_messageFilterID st) = k \<and> (\<forall>i. st_messageFilters st i \<noteq> None \<longrightarrow> unat i < k)"

lemma filters_below_add:
  assumes "filters_below k st" and "k + 1 < 4294967296"
  shows "filters_below (k + 1) (snd (RegisterMessageFilter cb st))"
proof -
  have "unat (st_messageFilterID st + 1) = k + 1"
    using assms by (simp add: filters_below_def unat_plus_if')
  then show ?thesis using assms(1) by (auto simp: filters_below_def RegisterMessageFilter_def Let_def intro: less_SucI)
qed

lemma filters_below_ops:
  "filters_below k st \<Longrightarrow> k + registrations ops < 4294967296 \<Longrightarrow> filters_below (k + registrations ops) (fold filter_op ops st)"
proof (induction ops arbitrary: k st)
  case (Cons op ops)
  show ?case
  proof (cases op)
    case (Add i cb)
    then show ?thesis
      using Cons.IH [OF filters_below_add [OF Cons.prems(1)], of cb] Cons.prems(2) by (simp add: registrations_def)
  next
    case (Remove i)
    have "filters_below k (UnregisterMessageFilter i st)"
      using Cons.prems(1) by (auto simp: filters_below_def UnregisterMessageFilter_def)
    then show ?thesis using Cons.IH [of k] Cons.prems(2) Remove by (simp add: registrations_def)
  qed
qed (simp add: registrations_def)

text \<open>The ids of message filters do not clash while fewer than \<open>2\<^sup>3\<^sup>2\<close> have been registered: a new filter
  gets an id that no registered filter has, is found under it, and the others stay.\<close>

theorem filter_ids_fresh:
  assumes "registrations ops < 4294967295" and "st = fold filter_op ops (new_connection chan name)"
    and "RegisterMessageFilter cb st = (filterID, st')"
  shows "st_messageFilters st filterID = None \<and> st_messageFilters st' = (st_messageFilters st)(filterID \<mapsto> cb)"
proof -
  have "filters_below 0 (new_connection chan name)" by (simp add: filters_below_def new_connection_def)
  from filters_below_ops [OF this, of ops] have "filters_below (registrations ops) st" using assms(1,2) by simp
  then have "st_messageFilters st (st_messageFilterID st) = None" by (force simp: filters_below_def)
  then show ?thesis using assms(3) by (auto simp: RegisterMessageFilter_def Let_def)
qed

theorem filter_ids_fresh_witness:
  "st_messageFilters (fold filter_op [Add 0 ''a'', Add 0 ''b'', Remove 0] (new_connection list_channel None)) 2 = None"
  using filter_ids_fresh [of "[Add 0 ''a'', Add 0 ''b'', Remove 0]", OF _ refl, where chan = list_channel and name = None and filterID = 2]
  by (simp add: registrations_def RegisterMessageFilter_def UnregisterMessageFilter_def new_connection_def Let_def)

text \<open>Requests and releases that run alone; one that throws changes nothing.\<close>

fun name_op ::
    "(nat \<Rightarrow> nat \<Rightarrow> 8 word) \<Rightarrow> nat \<Rightarrow> bus \<Rightarrow> (DBusWellKnownName, 8 word) table_op \<Rightarrow> ('c, 'h) InternalState \<Rightarrow>
     ('c, 'h) InternalState" where
  "name_op junk n bus (Add name flags) st =
     (case RequestWellKnownNameImpl junk n bus name flags st of Inl e \<Rightarrow> st | Inr st' \<Rightarrow> st')"
| "name_op junk n bus (Remove name) st =
     (case ReleaseWellKnownNameImpl junk n bus name st of Inl e \<Rightarrow> st | Inr st' \<Rightarrow> st')"

lemma request_names:
  "RequestWellKnownNameImpl junk n bus name flags st = Inr st' \<Longrightarrow>
   name \<notin> set (st_wellKnownNames st) \<and> st_wellKnownNames st' = st_wellKnownNames st @ [name]"
  by (auto simp: RequestWellKnownNameImpl_def RequestName_before_def RequestName_after_def bindE_Inr_iff split: if_splits)

lemma release_names:
  "ReleaseWellKnownNameImpl junk n bus name st = Inr st' \<Longrightarrow>
   name \<in> set (st_wellKnownNames st) \<and> st_wellKnownNames st' = removeAll name (st_wellKnownNames st)"
  by (auto simp: ReleaseWellKnownNameImpl_def ReleaseName_before_def ReleaseName_after_def bindE_Inr_iff split: if_splits)

lemma distinct_name_op:
  "distinct (st_wellKnownNames st) \<Longrightarrow> distinct (st_wellKnownNames (name_op junk n bus op st))"
  by (cases op) (auto dest: request_names release_names simp: distinct_removeAll split: sum.split)

text \<open>C31: While requests and releases do not overlap, a connection never lists a name twice, whatever the daemon
  answers and whichever of them throw.\<close>

theorem names_stay_distinct:
  "distinct (st_wellKnownNames (fold (name_op junk n bus) ops (new_connection chan name)))"
proof -
  have "distinct (st_wellKnownNames (fold (name_op junk n bus) ops st))" if "distinct (st_wellKnownNames st)"
    for st :: "('a, 'b) InternalState"
    using that by (induction ops arbitrary: st) (simp_all add: distinct_name_op)
  then show ?thesis by (simp add: new_connection_def split: option.split)
qed

text \<open>A connection just made, with strings for callbacks.\<close>

abbreviation example_connection :: "(IncomingDBusMessage list, string) InternalState" where
  "example_connection \<equiv> new_connection list_channel None"

text \<open>The daemon's answer to a request.\<close>

definition code_reply :: "ReplyData \<Rightarrow> 32 word \<Rightarrow> IncomingDBusMessage" where
  "code_reply header w =
     \<lparr> m_header = header\<lparr> rd_signature := Some (MkSignature ''u'') \<rparr>, in_messageBody = le_bytes 4 (unat w) \<rparr>"

lemma code_reply_read:
  assumes "4 < n"
  shows "IncomingDBusMessage_Get junk n (TFixed U32) (code_reply header w) = Inr (VFixed (FU32 w))"
proof -
  have "holds (wire_fixed (FU32 w)) 0 (wire_fixed (FU32 w))"
    by (rule holds_self) (simp add: wire_fixed_FU32 del: le_bytes.simps)
  then have "UnmarshalDBusTypeImpl junk n (TFixed U32) (le_bytes 4 (unat w)) 0 = Inr (VFixed (FU32 w), 4)"
    using unmarshal_fixed [of "wire_fixed (FU32 w)" 0 "FU32 w"] by (simp add: wire_fixed_FU32 del: le_bytes.simps)
  moreover have "check_signature ''u'' (GetTypeSignature (TFixed U32)) = Inr ()" by code_simp
  ultimately show ?thesis
    by (simp add: IncomingDBusMessage_Get_def code_reply_def UnmarshalDBusType_def UnmarshalDBusType_at_def
        del: GetTypeSignature.simps UnmarshalDBusTypeImpl.simps le_bytes.simps)
qed

text \<open>A requested name is recorded as the connection's own whatever number the daemon answers, also when it
  says that another connection keeps the name.\<close>

theorem request_records_any_answer:
  assumes "name \<notin> set (st_wellKnownNames st)" and "RequestName_call name flags = Inr m"
    and "bus m = Inr (code_reply header w)" and "4 < n"
  shows "RequestWellKnownNameImpl junk n bus name flags st = Inr (st\<lparr> st_wellKnownNames := st_wellKnownNames st @ [name] \<rparr>)"
  using assms
  by (simp add: RequestWellKnownNameImpl_def RequestName_before_def RequestName_after_def code_reply_read)

lemma example_request: "\<exists>m. RequestName_call (MkWellKnownName ''org.a'') 0 = Inr m"
proof -
  have "\<not> isl (MarshalMultipleCompleteTypes [VString StdString ''org.a'', VFixed (FU32 0)])"
    by code_simp
  then show ?thesis
    by (cases "MarshalMultipleCompleteTypes [VString StdString ''org.a'', VFixed (FU32 0)]") (simp_all add: RequestName_call_def bus_method_simp DBusMessage_Parameters_def)
qed

theorem request_records_any_answer_witness:
  "RequestWellKnownNameImpl no_junk 9 (\<lambda>_. Inr (code_reply example_header 3)) (MkWellKnownName ''org.a'') 0 (example_connection) =
     Inr (example_connection\<lparr> st_wellKnownNames := [MkWellKnownName ''org.a''] \<rparr>)"
proof -
  obtain m where m: "RequestName_call (MkWellKnownName ''org.a'') 0 = Inr m" using example_request by blast
  have "MkWellKnownName ''org.a'' \<notin> set (st_wellKnownNames (example_connection))"
    by (simp add: new_connection_def)
  from request_records_any_answer [OF this m, of "\<lambda>_. Inr (code_reply example_header 3)" example_header 3 9 no_junk] show ?thesis
    by (simp add: new_connection_def)
qed

text \<open>Two requests for the same name that overlap both pass the check, so the name is recorded twice.\<close>

theorem overlapping_requests_duplicate:
  assumes "name \<notin> set (st_wellKnownNames st)" and "4 < n"
  shows "RequestName_before name flags st = RequestName_call name flags \<and>
    bindE (RequestName_after junk n name (code_reply header w) st) (RequestName_after junk n name (code_reply header w')) =
      Inr (st\<lparr> st_wellKnownNames := st_wellKnownNames st @ [name, name] \<rparr>)"
  using assms by (simp add: RequestName_before_def RequestName_after_def code_reply_read)

theorem overlapping_requests_duplicate_witness:
  "bindE (RequestName_after no_junk 9 (MkWellKnownName ''a.b'') (code_reply example_header 1) (example_connection))
      (RequestName_after no_junk 9 (MkWellKnownName ''a.b'') (code_reply example_header 4)) =
     Inr (example_connection\<lparr> st_wellKnownNames := [MkWellKnownName ''a.b'', MkWellKnownName ''a.b''] \<rparr>)"
proof -
  have "MkWellKnownName ''a.b'' \<notin> set (st_wellKnownNames (example_connection))"
    by (simp add: new_connection_def)
  from overlapping_requests_duplicate [OF this, of 9 0 no_junk example_header 1 4] show ?thesis by (simp add: new_connection_def)
qed

end
