(* ===== verification/Dispatch.thy ===== *)
theory Dispatch
  imports Handlers
begin

text \<open>
  What happens to a received message: \<^verbatim>\<open>HandleReadMessage\<close> and \<^verbatim>\<open>SendMessageNoReply\<close> of
  \<^verbatim>\<open>src/src/DBusConnection.txx\<close>, for the single-threaded connection. User callbacks are parameters:
  \<open>env_runs\<close> says whether one throws and, for filters and receivers, whether it handled the message; they do
  not change the connection while a message is dispatched. The result lists the callbacks in the order of
  their calls and the bytes sent, with the state and the exception that ended the coroutine, if any. A
  \<^verbatim>\<open>std::unordered_map\<close> is traversed in an order that is a parameter, too.
\<close>

section \<open>The environment\<close>

record ('c, 'h) environment =
  env_junk :: "nat \<Rightarrow> nat \<Rightarrow> 8 word"
  env_fuel :: nat
  env_channel :: "'c channel_ops"
  env_runs :: "'h \<Rightarrow> IncomingDBusMessage \<Rightarrow> MessageHandled result"
  env_filterOrder :: "(32 word \<rightharpoonup> 'h) \<Rightarrow> 32 word list"
  env_pathOrder :: "(string \<rightharpoonup> 'h list) \<Rightarrow> string list"

text \<open>What the standard says of the traversal: every key once.\<close>

definition valid_env :: "('c, 'h) environment \<Rightarrow> bool" where
  "valid_env env \<longleftrightarrow>
     (\<forall>m. finite (dom m) \<longrightarrow> set (env_filterOrder env m) = dom m \<and> distinct (env_filterOrder env m)) \<and>
     (\<forall>m. finite (dom m) \<longrightarrow> set (env_pathOrder env m) = dom m \<and> distinct (env_pathOrder env m))"

datatype 'h event = Called 'h | Sent "8 word list" | WaitsForConnection

type_synonym ('c, 'h) outcome = "'h event list \<times> ('c, 'h) InternalState \<times> unit result"

definition after_events :: "'h event list \<Rightarrow> ('c, 'h) outcome \<Rightarrow> ('c, 'h) outcome" where
  "after_events ev x = (ev @ fst x, snd x)"

section \<open>Sending without a reply\<close>

text \<open>The rest of \<^verbatim>\<open>SendMessageNoReply\<close>, once the connection is ready.\<close>

definition SendMessageNoReplyImpl_continue ::
    "'c channel_ops \<Rightarrow> DBusMessage \<Rightarrow> ('c, 'h) InternalState \<Rightarrow> ('c, 'h) outcome" where
  "SendMessageNoReplyImpl_continue ops message st =
     (let message1 = (if ExpectsReply message then DBusMessage_Flag FL_NO_REPLY_EXPECTED message else message) in
        case SendMessageInternal_begin ops message1 st of
          (st', Inl e) \<Rightarrow> ([], st', Inl e)
        | (st', Inr (bytes, _)) \<Rightarrow> ([Sent bytes], st', Inr ()))"

definition SendMessageNoReplyImpl :: "'c channel_ops \<Rightarrow> DBusMessage \<Rightarrow> ('c, 'h) InternalState \<Rightarrow> ('c, 'h) outcome" where
  "SendMessageNoReplyImpl ops message st =
     (if \<not> st_connectionReady st then ([WaitsForConnection], st\<lparr> st_nrOfWaiters := st_nrOfWaiters st + 1 \<rparr>, Inr ())
      else SendMessageNoReplyImpl_continue ops message st)"

section \<open>Signals\<close>

fun invokeSignalHandlers ::
    "('c, 'h) environment \<Rightarrow> IncomingDBusMessage \<Rightarrow> 'h callback list \<Rightarrow> ('c, 'h) InternalState \<Rightarrow> ('c, 'h) outcome" where
  "invokeSignalHandlers env message [] st = ([], st, Inr ())"
| "invokeSignalHandlers env message (User h # cbs) st =
     (case env_runs env h message of
        Inl e \<Rightarrow> ([Called h], st, Inl e)
      | Inr _ \<Rightarrow> after_events [Called h] (invokeSignalHandlers env message cbs st))"
| "invokeSignalHandlers env message (NameCacheCallback # cbs) st =
     (case OnNameOwnerChanged (env_junk env) (env_fuel env) message (st_nameCache st) of
        Inl e \<Rightarrow> ([], st, Inl e)
      | Inr cache \<Rightarrow> invokeSignalHandlers env message cbs (st\<lparr> st_nameCache := cache \<rparr>))"

definition sender_names :: "IncomingDBusMessage \<Rightarrow> name_cache \<Rightarrow> string list" where
  "sender_names message cache =
     GetWellKnownNames (case rd_sender (m_header message) of None \<Rightarrow> [] | Some s \<Rightarrow> s) cache"

fun dispatch_signal ::
    "('c, 'h) environment \<Rightarrow> IncomingDBusMessage \<Rightarrow> 'h MatchRuleInfo list \<Rightarrow> ('c, 'h) InternalState \<Rightarrow> ('c, 'h) outcome" where
  "dispatch_signal env message [] st = ([], st, Inr ())"
| "dispatch_signal env message (info # infos) st =
     (case Matches (env_fuel env) (mri_rule info) message (sender_names message (st_nameCache st)) of
        Inl e \<Rightarrow> ([], st, Inl e)
      | Inr False \<Rightarrow> dispatch_signal env message infos st
      | Inr True \<Rightarrow>
          (case invokeSignalHandlers env message (mri_callback info) st of
             (ev, st', Inl e) \<Rightarrow> (ev, st', Inl e)
           | (ev, st', Inr _) \<Rightarrow> after_events ev (dispatch_signal env message infos st')))"

section \<open>Other messages\<close>

text \<open>Filters, and receivers: the first that handles the message ends the round.\<close>

fun ask ::
    "('c, 'h) environment \<Rightarrow> IncomingDBusMessage \<Rightarrow> 'h list \<Rightarrow> 'h event list \<times> MessageHandled result" where
  "ask env message [] = ([], Inr NO)"
| "ask env message (h # hs) =
     (case env_runs env h message of
        Inr NO \<Rightarrow> (let (ev, r) = ask env message hs in (Called h # ev, r))
      | r \<Rightarrow> ([Called h], r))"

fun invoke_handlers :: "('c, 'h) environment \<Rightarrow> IncomingDBusMessage \<Rightarrow> 'h list \<Rightarrow> 'h event list \<times> unit result" where
  "invoke_handlers env message [] = ([], Inr ())"
| "invoke_handlers env message (h # hs) =
     (case env_runs env h message of
        Inl e \<Rightarrow> ([Called h], Inl e)
      | Inr _ \<Rightarrow> (let (ev, r) = invoke_handlers env message hs in (Called h # ev, r)))"

definition filters_in_order :: "('c, 'h) environment \<Rightarrow> ('c, 'h) InternalState \<Rightarrow> 'h list" where
  "filters_in_order env st = map (\<lambda>i. the (st_messageFilters st i)) (env_filterOrder env (st_messageFilters st))"

text \<open>\<^verbatim>\<open>invokeObjectPathHandlers\<close> goes over all paths of the map.\<close>

definition all_path_handlers :: "('c, 'h) environment \<Rightarrow> ('c, 'h) InternalState \<Rightarrow> 'h list" where
  "all_path_handlers env st =
     concat (map (\<lambda>p. the (st_objectPathHandlers st p)) (env_pathOrder env (st_objectPathHandlers st)))"

definition unknown_method :: "IncomingDBusMessage \<Rightarrow> DBusMessage result" where
  "unknown_method message =
     bindE (make_DBusErrorName ''org.freedesktop.DBus.Error.UnknownMethod'') (\<lambda>errorName.
       DBusMessage_Error message errorName ''The method called is not implemented by this connection'')"

definition reply_unhandled ::
    "('c, 'h) environment \<Rightarrow> IncomingDBusMessage \<Rightarrow> ('c, 'h) InternalState \<Rightarrow> ('c, 'h) outcome" where
  "reply_unhandled env message st =
     (case unknown_method message of
        Inl e \<Rightarrow> ([], st, Inl e)
      | Inr m \<Rightarrow> SendMessageNoReplyImpl (env_channel env) m st)"

definition message_path :: "IncomingDBusMessage \<Rightarrow> string" where
  "message_path message = (case rd_objectPath (m_header message) of None \<Rightarrow> [] | Some p \<Rightarrow> GetPath p)"

definition HandleReadMessage ::
    "('c, 'h) environment \<Rightarrow> IncomingDBusMessage \<Rightarrow> ('c, 'h) InternalState \<Rightarrow> ('c, 'h) outcome" where
  "HandleReadMessage env message st =
     (case rd_replySerial (m_header message) of
        Some replySerial \<Rightarrow>
          (case HandleReply (env_channel env) message replySerial st of
             Inl e \<Rightarrow> ([], st, Inl e)
           | Inr st' \<Rightarrow> ([], st', Inr ()))
      | None \<Rightarrow>
          if rd_messageType (m_header message) = MT_SIGNAL then dispatch_signal env message (st_matchRules st) st
          else (case ask env message (filters_in_order env st) of
              (ev, Inl e) \<Rightarrow> (ev, st, Inl e)
            | (ev, Inr YES) \<Rightarrow> (ev, st, Inr ())
            | (ev, Inr NO) \<Rightarrow>
                if st_objectPathHandlers st (message_path message) \<noteq> None
                then (let (ev', r) = invoke_handlers env message (all_path_handlers env st) in (ev @ ev', st, r))
                else (case ask env message (st_onIncomingSignal st) of
                    (ev', Inl e) \<Rightarrow> (ev @ ev', st, Inl e)
                  | (ev', Inr YES) \<Rightarrow> (ev @ ev', st, Inr ())
                  | (ev', Inr NO) \<Rightarrow> after_events (ev @ ev') (reply_unhandled env message st))))"

section \<open>Signals and match rules\<close>

lemma dispatch_no_match:
  "(\<And>info. info \<in> set infos \<Longrightarrow> Matches (env_fuel env) (mri_rule info) message (sender_names message (st_nameCache st)) = Inr False) \<Longrightarrow>
   dispatch_signal env message infos st = ([], st, Inr ())"
  by (induction infos) simp_all

text \<open>Whether the cache holds, for the sender, a name that is not the sender's own.\<close>

lemma known_sender_no_match:
  assumes "rd_sender (m_header message) = Some u" and "w \<in> set (GetWellKnownNames u cache)" and "w \<noteq> u"
  shows "Matches n rule message (sender_names message cache) = Inr False"
  using assms by (intro other_name_no_match [of w]) (simp_all add: sender_names_def)


definition example_env :: "(IncomingDBusMessage list, string) environment" where
  "example_env = \<lparr> env_junk = no_junk, env_fuel = 9000, env_channel = list_channel, env_runs = (\<lambda>_ _. Inr NO),
     env_filterOrder = (\<lambda>m. sorted_list_of_set (dom m)), env_pathOrder = (\<lambda>m. sorted_list_of_set (dom m)) \<rparr>"

lemma example_env_valid: "valid_env example_env"
  by (simp add: valid_env_def example_env_def)

definition listening_connection :: "name_cache \<Rightarrow> DBusMatchRule \<Rightarrow> (IncomingDBusMessage list, string) InternalState" where
  "listening_connection cache rule = example_connection
     \<lparr> st_nameCache := cache, st_matchRules :=
         [\<lparr> mri_rule = rule, mri_callback = [User ''cb''], mri_executeOnUserContext = True \<rparr>], st_connectionReady := True \<rparr>"


definition user_callbacks :: "'h MatchRuleInfo \<Rightarrow> 'h list" where
  "user_callbacks info = concat (map (\<lambda>cb. case cb of User h \<Rightarrow> [h] | NameCacheCallback \<Rightarrow> []) (mri_callback info))"

definition fulfils :: "IncomingDBusMessage \<Rightarrow> dval list \<Rightarrow> name_cache \<Rightarrow> DBusMatchRule \<Rightarrow> bool" where
  "fulfils message vs cache rule \<longleftrightarrow>
     criteria_hold rule (m_header message) (sender_names message cache) vs"

lemma invoke_user_callbacks:
  "(\<And>h. \<not> isl (env_runs env h message)) \<Longrightarrow> NameCacheCallback \<notin> set cbs \<Longrightarrow>
   invokeSignalHandlers env message cbs st =
     (map Called (concat (map (\<lambda>cb. case cb of User h \<Rightarrow> [h] | NameCacheCallback \<Rightarrow> []) cbs)), st, Inr ())"
proof (induction cbs)
  case (Cons cb cbs)
  then obtain h where h: "cb = User h" by (cases cb) auto
  obtain r where "env_runs env h message = Inr r" using Cons.prems(1) by (cases "env_runs env h message") (auto simp: isl_def)
  then show ?case using Cons h by (simp add: after_events_def)
qed simp

lemma dispatch_fulfilled:
  assumes "\<And>h. \<not> isl (env_runs env h message)"
    and "\<And>info. info \<in> set infos \<Longrightarrow> (P (mri_rule info) \<longrightarrow> NameCacheCallback \<notin> set (mri_callback info)) \<and>
      Matches (env_fuel env) (mri_rule info) message (sender_names message (st_nameCache st)) = Inr (P (mri_rule info))"
  shows "dispatch_signal env message infos st =
    (map Called (concat (map user_callbacks (filter (\<lambda>info. P (mri_rule info)) infos))), st, Inr ())"
  using assms(2)
proof (induction infos)
  case (Cons info infos)
  have "invokeSignalHandlers env message (mri_callback info) st = (map Called (user_callbacks info), st, Inr ())"
    if "P (mri_rule info)"
    using invoke_user_callbacks [OF assms(1), of "mri_callback info" st] Cons.prems [of info] that by (simp add: user_callbacks_def)
  then show ?case using Cons by (simp add: after_events_def)
qed simp



section \<open>Calls and their answers\<close>

text \<open>Filters and receivers: those up to and with the first that handles the message are called.\<close>

definition asked :: "('c, 'h) environment \<Rightarrow> IncomingDBusMessage \<Rightarrow> 'h list \<Rightarrow> 'h list" where
  "asked env message hs =
     takeWhile (\<lambda>h. env_runs env h message = Inr NO) hs @ take 1 (dropWhile (\<lambda>h. env_runs env h message = Inr NO) hs)"

definition takes :: "('c, 'h) environment \<Rightarrow> IncomingDBusMessage \<Rightarrow> 'h list \<Rightarrow> bool" where
  "takes env message hs \<longleftrightarrow> (\<exists>h \<in> set hs. env_runs env h message = Inr YES)"

lemma ask_asked:
  "(\<And>h. \<not> isl (env_runs env h message)) \<Longrightarrow>
   ask env message hs = (map Called (asked env message hs), Inr (if takes env message hs then YES else NO))"
proof (induction hs)
  case (Cons h hs)
  obtain r where "env_runs env h message = Inr r" using Cons.prems [of h] by (cases "env_runs env h message") (auto simp: isl_def)
  then show ?case using Cons by (cases r) (auto simp: asked_def takes_def)
qed (simp add: asked_def takes_def)

lemma invoke_all_handlers:
  "(\<And>h. \<not> isl (env_runs env h message)) \<Longrightarrow> invoke_handlers env message hs = (map Called hs, Inr ())"
proof (induction hs)
  case (Cons h hs)
  obtain r where "env_runs env h message = Inr r" using Cons.prems [of h] by (cases "env_runs env h message") (auto simp: isl_def)
  then show ?case using Cons by simp
qed simp

lemma asked_all: "(\<And>h. \<not> isl (env_runs env h message)) \<Longrightarrow> \<not> takes env message hs \<Longrightarrow> asked env message hs = hs"
proof -
  assume r: "\<And>h. \<not> isl (env_runs env h message)" "\<not> takes env message hs"
  have "env_runs env h message = Inr NO" if "h \<in> set hs" for h
    using r(1) [of h] r(2) that by (cases "env_runs env h message"; cases "projr (env_runs env h message)") (auto simp: takes_def isl_def)
  then show ?thesis by (simp add: asked_def takeWhile_eq_all_conv [THEN iffD2] dropWhile_eq_Nil_conv [THEN iffD2])
qed

text \<open>The rest of \<^verbatim>\<open>HandleReadMessage\<close> when no callback throws.\<close>

lemma HandleReadMessage_call:
  assumes "rd_replySerial (m_header message) = None" and "rd_messageType (m_header message) \<noteq> MT_SIGNAL"
    and r: "\<And>h. \<not> isl (env_runs env h message)"
  shows "HandleReadMessage env message st =
    (let filters = filters_in_order env st in
     if takes env message filters then (map Called (asked env message filters), st, Inr ())
     else if st_objectPathHandlers st (message_path message) \<noteq> None
       then (map Called (filters @ all_path_handlers env st), st, Inr ())
     else if takes env message (st_onIncomingSignal st)
       then (map Called (filters @ asked env message (st_onIncomingSignal st)), st, Inr ())
     else after_events (map Called (filters @ st_onIncomingSignal st)) (reply_unhandled env message st))"
  using assms(1,2) by (simp add: HandleReadMessage_def ask_asked [OF r] asked_all [OF r] invoke_all_handlers [OF r] Let_def)

lemma no_answer_Sent [simp]: "Sent bytes \<notin> set (map Called hs)"
  by auto

lemma error_text_marshalled:
  "case MarshalDBusType (VString StdString ''The method called is not implemented by this connection'') of
     Inl e \<Rightarrow> False | Inr bs \<Rightarrow> bs \<noteq> []"
  by code_simp

definition sender_plain :: "IncomingDBusMessage \<Rightarrow> bool" where
  "sender_plain message \<longleftrightarrow> (\<forall>s \<in> set_option (rd_sender (m_header message)). plain s)"

lemma unknown_method_answer:
  "\<exists>m. unknown_method message = Inr m \<and> m_messageType m = MT_ERROR \<and> m_replySerial m = Some (rd_serial (m_header message)) \<and>
     m_errorName m = Some ''org.freedesktop.DBus.Error.UnknownMethod'' \<and> m_destination m = rd_sender (m_header message) \<and>
     ExpectsReply m \<and> (sender_plain message \<longrightarrow> message_ok m \<and> message_ok (DBusMessage_Flag FL_NO_REPLY_EXPECTED m))"
proof -
  obtain bs where bs: "MarshalDBusType (VString StdString ''The method called is not implemented by this connection'') = Inr bs" "bs \<noteq> []"
    using error_text_marshalled by (auto split: sum.splits)
  have "make_DBusErrorName ''org.freedesktop.DBus.Error.UnknownMethod'' = Inr (MkErrorName ''org.freedesktop.DBus.Error.UnknownMethod'')"
    by code_simp
  then show ?thesis
    using bs by (simp add: unknown_method_def DBusMessage_Error_def DBusMessage_Parameter_def new_DBusMessage_def ExpectsReply_def
        sender_plain_def message_ok_def complete_def DBusMessage_Flag_def Signature_Empty_def plain_def)
qed

lemma message_small_flag: "message_small (DBusMessage_Flag f m) = message_small m"
proof -
  have "sent_field (DBusMessage_Flag f m) hf = sent_field m hf" for hf by (cases hf) (simp_all add: DBusMessage_Flag_def)
  then have "sent_fields (DBusMessage_Flag f m) = sent_fields m" by (simp only: sent_fields_def opt_field_def) (simp add: DBusMessage_Flag_def)
  then show ?thesis by (simp add: message_small_def field_bytes_def) (simp add: DBusMessage_Flag_def)
qed

text \<open>C12: A message that is neither a reply nor a signal is answered with an error exactly when nobody takes it: no
  filter, no receiver, and its path is not registered (when no callback throws and the connection is
  ready). Then the filters and the receivers have all been called, and what was sent is read by the peer
  as an \<^verbatim>\<open>UnknownMethod\<close> error in reply to this message.\<close>

theorem unhandled_iff_answered:
  assumes "rd_replySerial (m_header message) = None" and "rd_messageType (m_header message) \<noteq> MT_SIGNAL"
    and r: "\<forall>h. \<not> isl (env_runs env h message)" and ready: "st_connectionReady st"
    and s: "sender_plain message" and m: "unknown_method message = Inr m" "message_small m"
    and h: "HandleReadMessage env message st = (ev, st', res)"
    and n: "length (message_bytes (DBusMessage_Flag FL_NO_REPLY_EXPECTED m) (st_serial st)) < n"
  shows "if takes env message (filters_in_order env st) \<or> st_objectPathHandlers st (message_path message) \<noteq> None \<or>
      takes env message (st_onIncomingSignal st)
    then res = Inr () \<and> st' = st \<and> (\<forall>bytes. Sent bytes \<notin> set ev)
    else res = Inr () \<and> (\<exists>bytes answer.
      ev = map Called (filters_in_order env st @ st_onIncomingSignal st) @ [Sent bytes] \<and>
      ReadLoop_round junk n bytes = Finished (Inr answer) [] \<and> rd_messageType (m_header answer) = MT_ERROR \<and>
      rd_replySerial (m_header answer) = Some (rd_serial (m_header message)) \<and>
      rd_errorName (m_header answer) = Some ''org.freedesktop.DBus.Error.UnknownMethod'')"
proof -
  let ?m = "DBusMessage_Flag FL_NO_REPLY_EXPECTED m"
  have c: "HandleReadMessage env message st =
    (let filters = filters_in_order env st in
     if takes env message filters then (map Called (asked env message filters), st, Inr ())
     else if st_objectPathHandlers st (message_path message) \<noteq> None
       then (map Called (filters @ all_path_handlers env st), st, Inr ())
     else if takes env message (st_onIncomingSignal st)
       then (map Called (filters @ asked env message (st_onIncomingSignal st)), st, Inr ())
     else after_events (map Called (filters @ st_onIncomingSignal st)) (reply_unhandled env message st))"
    by (rule HandleReadMessage_call [OF assms(1,2)]) (use r in blast)
  have a: "m_messageType m = MT_ERROR" "m_replySerial m = Some (rd_serial (m_header message))" "ExpectsReply m"
    "m_errorName m = Some ''org.freedesktop.DBus.Error.UnknownMethod''" "message_ok ?m"
    using unknown_method_answer [of message] m(1) s by auto
  have small: "message_small ?m" using m(2) by (simp add: message_small_flag)
  have flagged: "\<not> ExpectsReply ?m"
    by (simp add: ExpectsReply_def DBusMessage_Flag_def bit.conj_disj_distrib)
  have "Serialize ?m (st_serial st) = Inr (message_bytes ?m (st_serial st))"
    using small by (intro serialize_message [OF a(5)]) (simp add: message_small_def)
  then have u: "\<exists>st2. reply_unhandled env message st = ([Sent (message_bytes ?m (st_serial st))], st2, Inr ())"
    using m(1) a(3) ready flagged by (simp add: reply_unhandled_def SendMessageNoReplyImpl_def SendMessageNoReplyImpl_continue_def SendMessageInternal_begin_def Let_def)
  have "ReadLoop_round junk n (message_bytes ?m (st_serial st)) = Finished (Inr (sent_message ?m (st_serial st))) []"
    using round_reads_message [OF a(5) small n, of junk "[]"] by simp
  moreover have "rd_messageType (m_header (sent_message ?m (st_serial st))) = MT_ERROR"
    "rd_replySerial (m_header (sent_message ?m (st_serial st))) = Some (rd_serial (m_header message))"
    "rd_errorName (m_header (sent_message ?m (st_serial st))) = Some ''org.freedesktop.DBus.Error.UnknownMethod''"
    using a by (simp_all add: sent_message_def received_header_def DBusMessage_Flag_def Let_def)
  ultimately show ?thesis
    using h c u by (auto simp: after_events_def Let_def split: if_splits)
qed

definition example_method_call :: IncomingDBusMessage where
  "example_method_call = \<lparr> m_header = example_header\<lparr> rd_messageType := MT_METHOD_CALL \<rparr>, in_messageBody = [] \<rparr>"

lemma example_answer_small:
  "case unknown_method example_method_call of Inl e \<Rightarrow> False | Inr m \<Rightarrow> message_small m"
  by code_simp

theorem unhandled_iff_answered_witness:
  "\<exists>n bytes answer st'. HandleReadMessage example_env example_method_call (example_connection\<lparr> st_connectionReady := True \<rparr>) =
      ([Sent bytes], st', Inr ()) \<and> ReadLoop_round no_junk n bytes = Finished (Inr answer) [] \<and>
      rd_replySerial (m_header answer) = Some 9"
proof -
  obtain m where m: "unknown_method example_method_call = Inr m" "message_small m"
    using example_answer_small by (auto split: sum.splits)
  let ?st = "example_connection\<lparr> st_connectionReady := True \<rparr>"
  obtain ev st' res where h: "HandleReadMessage example_env example_method_call ?st = (ev, st', res)" by (metis prod_cases3)
  have hd: "rd_replySerial (m_header example_method_call) = None" "rd_messageType (m_header example_method_call) \<noteq> MT_SIGNAL"
    "\<forall>h. \<not> isl (env_runs example_env h example_method_call)" "st_connectionReady ?st" "sender_plain example_method_call"
    by (simp_all add: example_method_call_def example_header_def example_env_def sender_plain_def plain_def)
  have f: "filters_in_order example_env ?st = []" "st_objectPathHandlers ?st (message_path example_method_call) = None"
    "st_onIncomingSignal ?st = []" "rd_serial (m_header example_method_call) = 9"
    by (simp_all add: filters_in_order_def new_connection_def example_env_def example_method_call_def example_header_def)
  have no: "\<not> (takes example_env example_method_call [] \<or> (None :: string list option) \<noteq> None \<or>
      takes example_env example_method_call [])"
    by (simp add: takes_def)
  from unhandled_iff_answered [OF hd m h lessI, of no_junk, unfolded f, unfolded if_not_P [OF no]] show ?thesis
    unfolding h by (simp only: list.map append_Nil) blast
qed

text \<open>A message for a registered object path that no filter takes is given to every handler of every registered
  path, also of the paths it is not addressed to, after the filters.\<close>

theorem path_dispatch_calls_all:
  assumes env: "valid_env env" "finite (dom (st_objectPathHandlers st))"
    and "rd_replySerial (m_header message) = None" and "rd_messageType (m_header message) \<noteq> MT_SIGNAL"
    and r: "\<forall>h. \<not> isl (env_runs env h message)" and "\<not> takes env message (filters_in_order env st)"
    and "st_objectPathHandlers st (message_path message) \<noteq> None"
  shows "HandleReadMessage env message st = (map Called (filters_in_order env st @ all_path_handlers env st), st, Inr ()) \<and>
    set (all_path_handlers env st) = \<Union> (set ` ran (st_objectPathHandlers st))"
proof -
  have "HandleReadMessage env message st = (map Called (filters_in_order env st @ all_path_handlers env st), st, Inr ())"
    using HandleReadMessage_call [OF assms(3,4), of env st] r assms(6,7) by (simp add: Let_def)
  moreover have "set (env_pathOrder env (st_objectPathHandlers st)) = dom (st_objectPathHandlers st)"
    using env by (simp add: valid_env_def)
  then have "set (all_path_handlers env st) = \<Union> (set ` ran (st_objectPathHandlers st))"
    by (auto simp: all_path_handlers_def ran_def dom_def)
  ultimately show ?thesis by blast
qed

theorem path_dispatch_calls_all_witness:
  "Called ''b'' \<in> set (fst (HandleReadMessage example_env example_method_call
     (fold path_op [Add (MkObjectPath ''/a/b'') ''a'', Add (MkObjectPath ''/c'') ''b''] example_connection)))"
  (is "_ \<in> set (fst (HandleReadMessage _ _ ?st))")
proof -
  have st: "st_objectPathHandlers ?st = [''/a/b'' \<mapsto> [''a''], ''/c'' \<mapsto> [''b'']]" "st_messageFilters ?st = Map.empty"
    by (simp_all add: RegisterObjectPathHandlerImpl_def new_connection_def)
  have d: "finite (dom (st_objectPathHandlers ?st))" unfolding st by simp
  have "st_objectPathHandlers ?st ''/c'' = Some [''b'']" unfolding st by simp
  then have b: "[''b''] \<in> ran (st_objectPathHandlers ?st)" by (rule ranI)
  have "HandleReadMessage example_env example_method_call ?st =
      (map Called (filters_in_order example_env ?st @ all_path_handlers example_env ?st), ?st, Inr ()) \<and>
    set (all_path_handlers example_env ?st) = \<Union> (set ` ran (st_objectPathHandlers ?st))"
  proof (rule path_dispatch_calls_all [OF example_env_valid d])
    show "\<not> takes example_env example_method_call (filters_in_order example_env ?st)"
      unfolding filters_in_order_def st by (simp add: takes_def example_env_def)
    show "st_objectPathHandlers ?st (message_path example_method_call) \<noteq> None"
      unfolding st by (simp add: message_path_def example_method_call_def example_header_def)
  qed (simp_all add: example_method_call_def example_header_def example_env_def)
  then show ?thesis using b by force
qed


lemma example_matches:
  "Matches 9000 example_criteria example_incoming (sender_names example_incoming NameCache_empty) = Inr True"
proof -
  have names: "sender_names example_incoming NameCache_empty = ['':1.5'']"
    by (simp add: sender_names_def GetWellKnownNames_def NameCache_empty_def example_incoming_def example_header_def)
  have "Matches 9000 example_criteria example_incoming ['':1.5''] =
      Inr (header_accepted example_criteria example_header ['':1.5''] \<and> args_accepted example_criteria example_header example_args)"
    by (rule matches_spec [OF example_args_ok])
      (simp_all add: example_args_length, simp_all add: example_incoming_def example_header_def example_args_def
        example_criteria_def arg_text_def arg_path_def)
  moreover have "header_accepted example_criteria example_header ['':1.5''] \<and> args_accepted example_criteria example_header example_args"
    by (rule criteria_accepted [OF example_fulfilled]) (simp add: example_header_def)
  ultimately show ?thesis unfolding names by simp
qed


end
