(* ===== verification/Threads.thy ===== *)
theory Threads
  imports Dispatch "HOL-Library.Multiset"
begin

text \<open>
  The multi-threaded connection of \<^verbatim>\<open>src/src/DBusConnection.txx\<close>: \<^verbatim>\<open>HandleReadMessage\<close> with \<^verbatim>\<open>SingleThreaded\<close> false,
  which posts the user's callbacks to other contexts, and the interleaving of the contexts. A coroutine is suspended at
  each \<^verbatim>\<open>co_await\<close> of a callback, and its context goes on with other coroutines until the callback has returned, so each
  coroutine is one function up to its first callback and one after each. A context is Boost.Asio's and is modelled as its
  documentation says: work posted to it by one thread is started in the order in which it was posted.
\<close>

section \<open>Coroutines\<close>

text \<open>The strand of the connection, the context of the user and the internal context below the strand. A
  strand never compares equal to the executor of a context, so rules are always posted, also those of the name cache.\<close>

datatype exec_context = ActiveContext | UserContext | InternalContext

datatype 'h task =
    HandleMessage IncomingDBusMessage
  | ReplyUnhandled IncomingDBusMessage
  | RunSignalHandlers "'h callback list" IncomingDBusMessage
  | RunPathHandlers IncomingDBusMessage
  | RunReceivers IncomingDBusMessage

type_synonym 'h posted = "(exec_context \<times> 'h task) list"

text \<open>A coroutine that awaits a callback of the user: the callback, those that come after it, and the message.\<close>

datatype 'h suspended =
    InFilter 'h "'h list" IncomingDBusMessage
  | InSignalHandler 'h "'h callback list" IncomingDBusMessage
  | InPathHandler 'h "'h list" IncomingDBusMessage
  | InReceiver 'h "'h list" IncomingDBusMessage

text \<open>What a coroutine does up to its next suspension or its end: the events, what it posts, the state, and whether it is
  suspended, has ended, or ends with an exception.\<close>

type_synonym ('c, 'h) stretch = "'h event list \<times> 'h posted \<times> ('c, 'h) InternalState \<times> 'h suspended option result"

definition post_rule :: "IncomingDBusMessage \<Rightarrow> 'h MatchRuleInfo \<Rightarrow> 'h posted" where
  "post_rule message info =
     (if mri_callback info = [] then []
      else [(if mri_executeOnUserContext info then UserContext else InternalContext,
             RunSignalHandlers (mri_callback info) message)])"

fun post_signal ::
    "('c, 'h) environment \<Rightarrow> IncomingDBusMessage \<Rightarrow> name_cache \<Rightarrow> 'h MatchRuleInfo list \<Rightarrow> 'h posted \<times> unit result" where
  "post_signal env message cache [] = ([], Inr ())"
| "post_signal env message cache (info # infos) =
     (case Matches (env_fuel env) (mri_rule info) message (sender_names message cache) of
        Inl e \<Rightarrow> ([], Inl e)
      | Inr False \<Rightarrow> post_signal env message cache infos
      | Inr True \<Rightarrow> (let (ts, r) = post_signal env message cache infos in (post_rule message info @ ts, r)))"

text \<open>\<^verbatim>\<open>HandleReadMessage\<close> on the strand: its loop over the filters, and what comes after it.\<close>

definition after_filters :: "IncomingDBusMessage \<Rightarrow> ('c, 'h) InternalState \<Rightarrow> 'h posted" where
  "after_filters message st =
     (if st_objectPathHandlers st (message_path message) \<noteq> None then [(UserContext, RunPathHandlers message)]
      else if st_onIncomingSignal st \<noteq> [] then [(UserContext, RunReceivers message)]
      else [(ActiveContext, ReplyUnhandled message)])"

fun ask_filters :: "IncomingDBusMessage \<Rightarrow> 'h list \<Rightarrow> ('c, 'h) InternalState \<Rightarrow> ('c, 'h) stretch" where
  "ask_filters message [] st = ([], after_filters message st, st, Inr None)"
| "ask_filters message (h # hs) st = ([Called h], [], st, Inr (Some (InFilter h hs message)))"

definition HandleReadMessage_threads ::
    "('c, 'h) environment \<Rightarrow> IncomingDBusMessage \<Rightarrow> ('c, 'h) InternalState \<Rightarrow> ('c, 'h) stretch" where
  "HandleReadMessage_threads env message st =
     (case rd_replySerial (m_header message) of
        Some replySerial \<Rightarrow>
          (case HandleReply (env_channel env) message replySerial st of
             Inl e \<Rightarrow> ([], [], st, Inl e)
           | Inr st' \<Rightarrow> ([], [], st', Inr None))
      | None \<Rightarrow>
          if rd_messageType (m_header message) = MT_SIGNAL
          then (case post_signal env message (st_nameCache st) (st_matchRules st) of
              (ts, Inl e) \<Rightarrow> ([], ts, st, Inl e)
            | (ts, Inr _) \<Rightarrow> ([], ts, st, Inr None))
          else ask_filters message (filters_in_order env st) st)"

text \<open>The coroutines that are posted: \<^verbatim>\<open>invokeSignalHandlers\<close>, \<^verbatim>\<open>invokeObjectPathHandlers\<close> and
  \<^verbatim>\<open>invokeOnIncomingHandlers\<close> with its completion handler. The callback of the name cache is never suspended.\<close>

fun run_signal_handlers ::
    "('c, 'h) environment \<Rightarrow> IncomingDBusMessage \<Rightarrow> 'h callback list \<Rightarrow> ('c, 'h) InternalState \<Rightarrow> ('c, 'h) stretch" where
  "run_signal_handlers env message [] st = ([], [], st, Inr None)"
| "run_signal_handlers env message (User h # cbs) st = ([Called h], [], st, Inr (Some (InSignalHandler h cbs message)))"
| "run_signal_handlers env message (NameCacheCallback # cbs) st =
     (case OnNameOwnerChanged (env_junk env) (env_fuel env) message (st_nameCache st) of
        Inl e \<Rightarrow> ([], [], st, Inl e)
      | Inr cache \<Rightarrow> run_signal_handlers env message cbs (st\<lparr> st_nameCache := cache \<rparr>))"

fun run_path_handlers :: "IncomingDBusMessage \<Rightarrow> 'h list \<Rightarrow> ('c, 'h) InternalState \<Rightarrow> ('c, 'h) stretch" where
  "run_path_handlers message [] st = ([], [], st, Inr None)"
| "run_path_handlers message (h # hs) st = ([Called h], [], st, Inr (Some (InPathHandler h hs message)))"

fun run_receivers :: "IncomingDBusMessage \<Rightarrow> 'h list \<Rightarrow> ('c, 'h) InternalState \<Rightarrow> ('c, 'h) stretch" where
  "run_receivers message [] st = ([], [(ActiveContext, ReplyUnhandled message)], st, Inr None)"
| "run_receivers message (h # hs) st = ([Called h], [], st, Inr (Some (InReceiver h hs message)))"

fun start_task :: "('c, 'h) environment \<Rightarrow> 'h task \<Rightarrow> ('c, 'h) InternalState \<Rightarrow> ('c, 'h) stretch" where
  "start_task env (HandleMessage message) st = HandleReadMessage_threads env message st"
| "start_task env (ReplyUnhandled message) st =
     (case reply_unhandled env message st of
        (ev, st', Inl e) \<Rightarrow> (ev, [], st', Inl e)
      | (ev, st', Inr _) \<Rightarrow> (ev, [], st', Inr None))"
| "start_task env (RunSignalHandlers cbs message) st = run_signal_handlers env message cbs st"
| "start_task env (RunPathHandlers message) st = run_path_handlers message (all_path_handlers env st) st"
| "start_task env (RunReceivers message) st = run_receivers message (st_onIncomingSignal st) st"

text \<open>The callback has returned or thrown. An exception ends the coroutine; the completion handler of the receivers then
  gets a default value, which is \<^verbatim>\<open>MessageHandled::YES\<close>, so that nothing is answered.\<close>

fun resume :: "('c, 'h) environment \<Rightarrow> 'h suspended \<Rightarrow> ('c, 'h) InternalState \<Rightarrow> ('c, 'h) stretch" where
  "resume env (InFilter h hs message) st =
     (case env_runs env h message of
        Inl e \<Rightarrow> ([], [], st, Inl e)
      | Inr YES \<Rightarrow> ([], [], st, Inr None)
      | Inr NO \<Rightarrow> ask_filters message hs st)"
| "resume env (InSignalHandler h cbs message) st =
     (case env_runs env h message of
        Inl e \<Rightarrow> ([], [], st, Inl e)
      | Inr _ \<Rightarrow> run_signal_handlers env message cbs st)"
| "resume env (InPathHandler h hs message) st =
     (case env_runs env h message of
        Inl e \<Rightarrow> ([], [], st, Inl e)
      | Inr _ \<Rightarrow> run_path_handlers message hs st)"
| "resume env (InReceiver h hs message) st =
     (case env_runs env h message of
        Inl e \<Rightarrow> ([], [], st, Inl e)
      | Inr YES \<Rightarrow> ([], [], st, Inr None)
      | Inr NO \<Rightarrow> run_receivers message hs st)"

fun callee :: "'h suspended \<Rightarrow> 'h" where
  "callee (InFilter h hs message) = h"
| "callee (InSignalHandler h cbs message) = h"
| "callee (InPathHandler h hs message) = h"
| "callee (InReceiver h hs message) = h"

fun awaited_message :: "'h suspended \<Rightarrow> IncomingDBusMessage" where
  "awaited_message (InFilter h hs message) = message"
| "awaited_message (InSignalHandler h cbs message) = message"
| "awaited_message (InPathHandler h hs message) = message"
| "awaited_message (InReceiver h hs message) = message"

text \<open>A callback comes back when it returns or throws.\<close>

definition comes_back :: "('c, 'h) environment \<Rightarrow> 'h suspended \<Rightarrow> bool" where
  "comes_back env s \<longleftrightarrow> (case env_runs env (callee s) (awaited_message s) of Inl e \<Rightarrow> thrown e | Inr _ \<Rightarrow> True)"

section \<open>The contexts together\<close>

datatype 'h occurrence = Does "'h event" | Returns 'h

text \<open>The state of the connection, what each context has still to start, the coroutines that were started with their contexts, those
  of them that are suspended, what each has done, the messages received, and the contexts whose thread does not come back.\<close>

record ('c, 'h) threads =
  th_state :: "('c, 'h) InternalState"
  th_queue :: "exec_context \<Rightarrow> 'h task list"
  th_started :: "(exec_context \<times> 'h task) list"
  th_suspended :: "nat \<rightharpoonup> 'h suspended"
  th_trace :: "(nat \<times> 'h occurrence) list"
  th_received :: "IncomingDBusMessage list"
  th_stuck :: "exec_context set"

definition start_threads :: "('c, 'h) InternalState \<Rightarrow> ('c, 'h) threads" where
  "start_threads st = \<lparr> th_state = st, th_queue = (\<lambda>_. []), th_started = [], th_suspended = Map.empty, th_trace = [],
     th_received = [], th_stuck = {} \<rparr>"

definition tasks_for :: "exec_context \<Rightarrow> 'h posted \<Rightarrow> 'h task list" where
  "tasks_for c ts = map snd (filter (\<lambda>t. fst t = c) ts)"

text \<open>The strand and the internal context share the IO thread.\<close>

fun same_thread :: "exec_context \<Rightarrow> exec_context set" where
  "same_thread UserContext = {UserContext}"
| "same_thread _ = {ActiveContext, InternalContext}"

text \<open>A stretch of coroutine \<open>i\<close> in a context: an exception ends the detached coroutine and nothing else, a loop
  without end or undefined behaviour blocks the thread for all its contexts.\<close>

definition settle ::
    "exec_context \<Rightarrow> nat \<Rightarrow> 'h occurrence list \<Rightarrow> ('c, 'h) stretch \<Rightarrow> ('c, 'h) threads \<Rightarrow> ('c, 'h) threads" where
  "settle c i before result x =
     (case result of (ev, ts, st, r) \<Rightarrow>
        x\<lparr> th_state := st,
          th_queue := (\<lambda>d. th_queue x d @ tasks_for d ts),
          th_suspended := (th_suspended x)(i := (case r of Inl e \<Rightarrow> None | Inr s \<Rightarrow> s)),
          th_trace := th_trace x @ map (Pair i) (before @ map Does ev),
          th_stuck := th_stuck x \<union> (case r of Inl e \<Rightarrow> if thrown e then {} else same_thread c | Inr s \<Rightarrow> {}) \<rparr>)"

text \<open>The parts of the state that decide who is called; no coroutine of this theory changes them, but for the callback of the name cache.\<close>

definition registries :: "('c, 'h) InternalState \<Rightarrow>
    'h MatchRuleInfo list \<times> (32 word \<rightharpoonup> 'h) \<times> (string \<rightharpoonup> 'h list) \<times> 'h list \<times> name_cache" where
  "registries st = (st_matchRules st, st_messageFilters st, st_objectPathHandlers st, st_onIncomingSignal st, st_nameCache st)"

text \<open>Every interleaving: the read loop posts a message to the strand, a context starts its next coroutine, one of its
  coroutines goes on after its callback has come back, or the connection is changed by anything else, as by callbacks that send
  messages, but not in its registries.\<close>

inductive thread_step :: "('c, 'h) environment \<Rightarrow> ('c, 'h) threads \<Rightarrow> ('c, 'h) threads \<Rightarrow> bool" for env where
  receive: "ActiveContext \<notin> th_stuck x \<Longrightarrow>
    thread_step env x (x\<lparr> th_queue := (th_queue x)(ActiveContext := th_queue x ActiveContext @ [HandleMessage m]),
      th_received := th_received x @ [m] \<rparr>)"
| start: "th_queue x c = t # ts \<Longrightarrow> c \<notin> th_stuck x \<Longrightarrow>
    thread_step env x (settle c (length (th_started x)) [] (start_task env t (th_state x))
      (x\<lparr> th_queue := (th_queue x)(c := ts), th_started := th_started x @ [(c, t)] \<rparr>))"
| go_on: "th_suspended x i = Some s \<Longrightarrow> c = fst (th_started x ! i) \<Longrightarrow> c \<notin> th_stuck x \<Longrightarrow> comes_back env s \<Longrightarrow>
    thread_step env x (settle c i [Returns (callee s)] (resume env s (th_state x)) x)"
| elsewhere: "registries st = registries (th_state x) \<Longrightarrow> thread_step env x (x\<lparr> th_state := st \<rparr>)"

inductive_cases thread_stepE: "thread_step env x y"

section \<open>What the contexts do with a message\<close>

text \<open>The message is no concern of the name cache.\<close>

definition unrelated :: "('c, 'h) environment \<Rightarrow> ('c, 'h) InternalState \<Rightarrow> IncomingDBusMessage \<Rightarrow> bool" where
  "unrelated env st message \<longleftrightarrow> (\<forall>info \<in> set (st_matchRules st). NameCacheCallback \<in> set (mri_callback info) \<longrightarrow>
     Matches (env_fuel env) (mri_rule info) message (sender_names message (st_nameCache st)) \<noteq> Inr True)"

text \<open>What a coroutine posted to a context other than the strand calls: callbacks of the user only.\<close>

fun user_task :: "'h task \<Rightarrow> bool" where
  "user_task (RunSignalHandlers cbs message) = (NameCacheCallback \<notin> set cbs)"
| "user_task (RunPathHandlers message) = True"
| "user_task (RunReceivers message) = True"
| "user_task _ = False"

fun user_suspended :: "'h suspended \<Rightarrow> bool" where
  "user_suspended (InSignalHandler h cbs message) = (NameCacheCallback \<notin> set cbs)"
| "user_suspended _ = True"

lemma tasks_for_simps [simp]:
  "tasks_for c [] = []"
  "tasks_for c (t # ts) = (if fst t = c then snd t # tasks_for c ts else tasks_for c ts)"
  "tasks_for c (ts @ us) = tasks_for c ts @ tasks_for c us"
  by (simp_all add: tasks_for_def)

lemma set_tasks_for: "t \<in> set (tasks_for c ts) \<longleftrightarrow> (c, t) \<in> set ts"
  by (force simp: tasks_for_def)

lemma reserve_registries [simp]: "registries (reserve_channel ops s st) = registries st"
  by (simp add: reserve_channel_def registries_def Let_def)

lemma begin_registries: "SendMessageInternal_begin ops message st = (st', r) \<Longrightarrow> registries st' = registries st"
  by (auto simp: SendMessageInternal_begin_def Let_def registries_def [of "_\<lparr> st_serial := _ \<rparr>"] split: if_splits)
    (simp_all add: registries_def)

lemma reply_unhandled_registries: "reply_unhandled env message st = (ev, st', r) \<Longrightarrow> registries st' = registries st"
  by (auto simp: reply_unhandled_def SendMessageNoReplyImpl_def SendMessageNoReplyImpl_continue_def Let_def
      registries_def [of "_\<lparr> st_nrOfWaiters := _ \<rparr>"] split: sum.splits prod.splits if_splits dest: begin_registries)
    (simp_all add: registries_def)

lemma HandleReply_registries: "HandleReply ops message s st = Inr st' \<Longrightarrow> registries st' = registries st"
  by (auto simp: HandleReply_def Let_def registries_def split: if_splits option.splits)

lemma post_signal_tasks:
  "p \<in> set (fst (post_signal env message cache infos)) \<Longrightarrow>
   \<exists>info \<in> set infos. Matches (env_fuel env) (mri_rule info) message (sender_names message cache) = Inr True \<and>
     p \<in> set (post_rule message info)"
proof (induction infos)
  case (Cons info infos)
  then show ?case
    by (cases "Matches (env_fuel env) (mri_rule info) message (sender_names message cache)")
      (auto simp: Let_def split: bool.splits prod.splits)
qed simp

text \<open>The strand gets answers to send only, and the other contexts callbacks of the user.\<close>

definition posts_ok :: "'h posted \<Rightarrow> bool" where
  "posts_ok ts \<longleftrightarrow> (\<forall>(c, t) \<in> set ts. if c = ActiveContext then \<exists>message. t = ReplyUnhandled message else user_task t)"

lemma signal_posts_ok:
  assumes "unrelated env st message"
  shows "posts_ok (fst (post_signal env message (st_nameCache st) (st_matchRules st)))"
  unfolding posts_ok_def
proof (intro ballI, unfold split_paired_all, unfold case_prod_conv)
  fix c t assume "(c, t) \<in> set (fst (post_signal env message (st_nameCache st) (st_matchRules st)))"
  then obtain info where "info \<in> set (st_matchRules st)"
      "Matches (env_fuel env) (mri_rule info) message (sender_names message (st_nameCache st)) = Inr True"
      "(c, t) \<in> set (post_rule message info)"
    using post_signal_tasks by blast
  then show "if c = ActiveContext then \<exists>message. t = ReplyUnhandled message else user_task t"
    using assms by (auto simp: unrelated_def post_rule_def split: if_splits)
qed

section \<open>The order of the user's callbacks\<close>

text \<open>What one coroutine does, by itself: each callback is called after the one before it has returned, until one throws, or, for
  filters and receivers, has handled the message.\<close>

fun calling_script :: "('c, 'h) environment \<Rightarrow> IncomingDBusMessage \<Rightarrow> 'h list \<Rightarrow> 'h occurrence list" where
  "calling_script env message [] = []"
| "calling_script env message (h # hs) =
     Does (Called h) # Returns h # (if isl (env_runs env h message) then [] else calling_script env message hs)"

fun asking_script :: "('c, 'h) environment \<Rightarrow> IncomingDBusMessage \<Rightarrow> 'h list \<Rightarrow> 'h occurrence list" where
  "asking_script env message [] = []"
| "asking_script env message (h # hs) =
     Does (Called h) # Returns h # (if env_runs env h message = Inr NO then asking_script env message hs else [])"

definition users :: "'h callback list \<Rightarrow> 'h list" where
  "users cbs = concat (map (\<lambda>cb. case cb of User h \<Rightarrow> [h] | NameCacheCallback \<Rightarrow> []) cbs)"

fun script :: "('c, 'h) environment \<Rightarrow> ('c, 'h) InternalState \<Rightarrow> 'h task \<Rightarrow> 'h occurrence list" where
  "script env st (HandleMessage message) =
     (if rd_replySerial (m_header message) = None \<and> rd_messageType (m_header message) \<noteq> MT_SIGNAL
      then asking_script env message (filters_in_order env st) else [])"
| "script env st (ReplyUnhandled message) = []"
| "script env st (RunSignalHandlers cbs message) = calling_script env message (users cbs)"
| "script env st (RunPathHandlers message) = calling_script env message (all_path_handlers env st)"
| "script env st (RunReceivers message) = asking_script env message (st_onIncomingSignal st)"

text \<open>What is left of it when it is suspended.\<close>

fun left :: "('c, 'h) environment \<Rightarrow> 'h suspended \<Rightarrow> 'h occurrence list" where
  "left env (InFilter h hs message) = Returns h # (if env_runs env h message = Inr NO then asking_script env message hs else [])"
| "left env (InSignalHandler h cbs message) =
     Returns h # (if isl (env_runs env h message) then [] else calling_script env message (users cbs))"
| "left env (InPathHandler h hs message) =
     Returns h # (if isl (env_runs env h message) then [] else calling_script env message hs)"
| "left env (InReceiver h hs message) = Returns h # (if env_runs env h message = Inr NO then asking_script env message hs else [])"

definition to_do :: "('c, 'h) environment \<Rightarrow> 'h suspended option \<Rightarrow> 'h occurrence list" where
  "to_do env s = (case s of None \<Rightarrow> [] | Some s \<Rightarrow> left env s)"

fun is_callback :: "'h occurrence \<Rightarrow> bool" where
  "is_callback (Does (Called h)) = True"
| "is_callback (Returns h) = True"
| "is_callback _ = False"

text \<open>The callbacks of coroutine \<open>i\<close>, and the coroutines of match rules that a context has started.\<close>

definition callbacks_of :: "nat \<Rightarrow> ('c, 'h) threads \<Rightarrow> 'h occurrence list" where
  "callbacks_of i x = map snd (filter (\<lambda>o'. fst o' = i \<and> is_callback (snd o')) (th_trace x))"

fun is_signal_task :: "'h task \<Rightarrow> bool" where
  "is_signal_task (RunSignalHandlers cbs message) = True"
| "is_signal_task _ = False"

definition started_signals :: "exec_context \<Rightarrow> ('c, 'h) threads \<Rightarrow> 'h task list" where
  "started_signals c x = filter is_signal_task (tasks_for c (th_started x))"

text \<open>What dispatching a message posts to a context for its match rules.\<close>

definition signal_tasks :: "('c, 'h) environment \<Rightarrow> ('c, 'h) InternalState \<Rightarrow> exec_context \<Rightarrow> IncomingDBusMessage \<Rightarrow> 'h task list" where
  "signal_tasks env st c message =
     (if rd_replySerial (m_header message) = None \<and> rd_messageType (m_header message) = MT_SIGNAL
      then tasks_for c (fst (post_signal env message (st_nameCache st) (st_matchRules st))) else [])"

fun pending_signals :: "('c, 'h) environment \<Rightarrow> ('c, 'h) InternalState \<Rightarrow> exec_context \<Rightarrow> 'h task \<Rightarrow> 'h task list" where
  "pending_signals env st c (HandleMessage message) = signal_tasks env st c message"
| "pending_signals env st c t = []"

lemma users_simps [simp]:
  "users [] = []" "users (User h # cbs) = h # users cbs" "users (NameCacheCallback # cbs) = users cbs"
  by (simp_all add: users_def)

lemma run_user_handlers:
  assumes "NameCacheCallback \<notin> set cbs"
  shows "run_signal_handlers env message cbs st =
    (case cbs of User h # cbs' \<Rightarrow> ([Called h], [], st, Inr (Some (InSignalHandler h cbs' message))) | _ \<Rightarrow> ([], [], st, Inr None))"
  using assms by (cases "(env, message, cbs, st)" rule: run_signal_handlers.cases) auto

text \<open>What a stretch keeps: the registries, what it may post, and the script of its coroutine.\<close>

definition fits ::
    "('c, 'h) environment \<Rightarrow> ('c, 'h) InternalState \<Rightarrow> 'h occurrence list \<Rightarrow> (exec_context \<Rightarrow> 'h task list) \<Rightarrow> ('c, 'h) stretch \<Rightarrow> bool" where
  "fits env st todo signals result \<longleftrightarrow>
     (case result of (ev, ts, st', r) \<Rightarrow>
        registries st' = registries st \<and> posts_ok ts \<and> (\<forall>s. r = Inr (Some s) \<longrightarrow> user_suspended s) \<and>
        filter is_callback (map Does ev) @ to_do env (case r of Inl e \<Rightarrow> None | Inr s \<Rightarrow> s) = todo \<and>
        (\<forall>c. c \<noteq> ActiveContext \<longrightarrow> filter is_signal_task (tasks_for c ts) = signals c))"

lemma fits_ask_filters:
  "registries st' = registries st \<Longrightarrow> fits env st (asking_script env message hs) (\<lambda>c. []) (ask_filters message hs st')"
  by (cases hs) (auto simp: fits_def to_do_def after_filters_def posts_ok_def)

lemma fits_path_handlers:
  "registries st' = registries st \<Longrightarrow> fits env st (calling_script env message hs) (\<lambda>c. []) (run_path_handlers message hs st')"
  by (cases hs) (auto simp: fits_def to_do_def posts_ok_def)

lemma fits_receivers:
  "registries st' = registries st \<Longrightarrow> fits env st (asking_script env message hs) (\<lambda>c. []) (run_receivers message hs st')"
  by (cases hs) (auto simp: fits_def to_do_def posts_ok_def)

lemma fits_signal_handlers:
  "registries st' = registries st \<Longrightarrow> NameCacheCallback \<notin> set cbs \<Longrightarrow>
   fits env st (calling_script env message (users cbs)) (\<lambda>c. []) (run_signal_handlers env message cbs st')"
  by (cases "(env, message, cbs, st')" rule: run_signal_handlers.cases) (auto simp: fits_def to_do_def posts_ok_def)

lemma fits_ended [simp]:
  "fits env st [] (\<lambda>c. []) ([], [], st', Inl e) \<longleftrightarrow> registries st' = registries st"
  "fits env st [] (\<lambda>c. []) ([], [], st', Inr None) \<longleftrightarrow> registries st' = registries st"
  by (auto simp: fits_def to_do_def posts_ok_def)

lemma reply_unhandled_events:
  "reply_unhandled env message st = (ev, st', r) \<Longrightarrow> filter is_callback (map Does ev) = []"
  by (auto simp: reply_unhandled_def SendMessageNoReplyImpl_def SendMessageNoReplyImpl_continue_def Let_def
      split: sum.splits prod.splits if_splits)

lemma fits_reply_unhandled:
  assumes "registries st' = registries st"
  shows "fits env st [] (\<lambda>c. []) (start_task env (ReplyUnhandled message) st')"
proof -
  obtain ev st1 r where e: "reply_unhandled env message st' = (ev, st1, r)" by (metis prod_cases3)
  show ?thesis
    using reply_unhandled_events [OF e] reply_unhandled_registries [OF e] assms e
    by (auto simp: fits_def to_do_def posts_ok_def split: sum.splits)
qed

lemma signal_posts_signals:
  "filter is_signal_task (tasks_for c (fst (post_signal env message cache infos))) =
   tasks_for c (fst (post_signal env message cache infos))"
proof -
  have "is_signal_task t" if "t \<in> set (tasks_for c (fst (post_signal env message cache infos)))" for t
    using post_signal_tasks [OF that [unfolded set_tasks_for]] by (auto simp: post_rule_def split: if_splits)
  then show ?thesis by simp
qed

lemma fits_handle:
  assumes reg: "registries st' = registries st" and u: "unrelated env st message"
  shows "fits env st (script env st (HandleMessage message)) (\<lambda>c. signal_tasks env st c message)
    (HandleReadMessage_threads env message st')"
proof -
  have e: "st_matchRules st' = st_matchRules st" "st_nameCache st' = st_nameCache st" "filters_in_order env st' = filters_in_order env st"
    using reg by (simp_all add: registries_def filters_in_order_def)
  show ?thesis
  proof (cases "rd_replySerial (m_header message)")
    case (Some s)
    then show ?thesis
      using HandleReply_registries [of "env_channel env" message s st'] reg
      by (auto simp: HandleReadMessage_threads_def signal_tasks_def split: sum.splits)
  next
    case None
    show ?thesis
    proof (cases "rd_messageType (m_header message) = MT_SIGNAL")
      case True
      obtain ts r where p: "post_signal env message (st_nameCache st) (st_matchRules st) = (ts, r)" by fastforce
      have "posts_ok ts" using signal_posts_ok [OF u] p by simp
      moreover have "filter is_signal_task (tasks_for c ts) = tasks_for c ts" for c
        using signal_posts_signals [of c env message "st_nameCache st" "st_matchRules st"] p by simp
      ultimately show ?thesis
        using None True p reg
        by (cases r) (auto simp: HandleReadMessage_threads_def signal_tasks_def e fits_def to_do_def)
    next
      case False
      then show ?thesis
        using None fits_ask_filters [OF reg, of env message]
        by (simp add: HandleReadMessage_threads_def signal_tasks_def e)
    qed
  qed
qed

lemma start_fits:
  assumes reg: "registries st' = registries st"
    and t: "user_task t \<or> (\<exists>m. t = ReplyUnhandled m) \<or> (\<exists>m. t = HandleMessage m \<and> unrelated env st m)"
  shows "fits env st (script env st t) (\<lambda>c. pending_signals env st c t) (start_task env t st')"
proof -
  have e: "all_path_handlers env st' = all_path_handlers env st" "st_onIncomingSignal st' = st_onIncomingSignal st"
    using reg by (simp_all add: registries_def all_path_handlers_def)
  show ?thesis
  proof (cases t)
    case (HandleMessage m)
    then show ?thesis using fits_handle [OF reg] t by simp
  next
    case (ReplyUnhandled m)
    then show ?thesis using fits_reply_unhandled [OF reg] by (simp del: start_task.simps)
  next
    case (RunSignalHandlers cbs m)
    then show ?thesis using fits_signal_handlers [OF reg] t by simp
  next
    case (RunPathHandlers m)
    then show ?thesis using fits_path_handlers [OF reg] by (simp add: e)
  next
    case (RunReceivers m)
    then show ?thesis using fits_receivers [OF reg] by (simp add: e)
  qed
qed

lemma resume_fits:
  assumes reg: "registries st' = registries st" and s: "user_suspended s"
  shows "\<exists>todo. left env s = Returns (callee s) # todo \<and> fits env st todo (\<lambda>c. []) (resume env s st')"
proof (cases s)
  case (InFilter h hs m)
  then show ?thesis
    using fits_ask_filters [OF reg, of env m hs] reg
    by (auto split: sum.splits MessageHandled.splits)
next
  case (InSignalHandler h cbs m)
  then show ?thesis
    using fits_signal_handlers [OF reg, of cbs env m] s reg
    by (auto split: sum.splits)
next
  case (InPathHandler h hs m)
  then show ?thesis
    using fits_path_handlers [OF reg, of env m hs] reg
    by (auto split: sum.splits)
next
  case (InReceiver h hs m)
  then show ?thesis
    using fits_receivers [OF reg, of env m hs] reg
    by (auto split: sum.splits MessageHandled.splits)
qed

definition threads_inv :: "('c, 'h) environment \<Rightarrow> ('c, 'h) InternalState \<Rightarrow> ('c, 'h) threads \<Rightarrow> bool" where
  "threads_inv env st x \<longleftrightarrow> registries (th_state x) = registries st \<and>
     (\<forall>t \<in> set (th_queue x ActiveContext). (\<exists>m \<in> set (th_received x). t = HandleMessage m) \<or> (\<exists>m. t = ReplyUnhandled m)) \<and>
     (\<forall>c. c \<noteq> ActiveContext \<longrightarrow> (\<forall>t \<in> set (th_queue x c). user_task t)) \<and>
     (\<forall>i s. th_suspended x i = Some s \<longrightarrow> i < length (th_started x) \<and> user_suspended s) \<and>
     (\<forall>i \<ge> length (th_started x). callbacks_of i x = []) \<and>
     (\<forall>i < length (th_started x). callbacks_of i x @ to_do env (th_suspended x i) = script env st (snd (th_started x ! i))) \<and>
     (\<forall>c. c \<noteq> ActiveContext \<longrightarrow> concat (map (signal_tasks env st c) (th_received x)) =
        started_signals c x @ filter is_signal_task (th_queue x c) @ concat (map (pending_signals env st c) (th_queue x ActiveContext)))"

lemma threads_inv_start: "threads_inv env st (start_threads st)"
  by (simp add: threads_inv_def start_threads_def callbacks_of_def started_signals_def)

lemma callbacks_of_settle:
  fixes before :: "'h occurrence list"
  shows "callbacks_of j (settle c i before (ev, ts, st, r) x) =
     callbacks_of j x @ (if j = i then filter is_callback (before @ map Does ev) else [])"
proof -
  have "map snd (filter (\<lambda>o'. fst o' = j \<and> is_callback (snd o')) (map (Pair i) os)) = (if j = i then filter is_callback os else [])"
    for os :: "'h occurrence list" by (induction os) auto
  then have "map snd (filter (\<lambda>o'. fst o' = j \<and> is_callback (snd o')) (map (Pair i) (before @ map Does ev))) =
      (if j = i then filter is_callback (before @ map Does ev) else [])" .
  then show ?thesis unfolding callbacks_of_def settle_def by (simp only: prod.case threads.simps filter_append map_append) simp
qed

lemma settle_simps [simp]:
  "th_state (settle c i before (ev, ts, st, r) x) = st"
  "th_queue (settle c i before (ev, ts, st, r) x) = (\<lambda>d. th_queue x d @ tasks_for d ts)"
  "th_started (settle c i before result x) = th_started x"
  "th_received (settle c i before result x) = th_received x"
  "th_suspended (settle c i before (ev, ts, st, r) x) = (th_suspended x)(i := (case r of Inl e \<Rightarrow> None | Inr s \<Rightarrow> s))"
  "started_signals d (settle c i before result x) = started_signals d x"
  by (simp_all add: settle_def started_signals_def split: prod.splits)

lemma active_posts:
  "posts_ok ts \<Longrightarrow> t \<in> set (tasks_for ActiveContext ts) \<Longrightarrow> \<exists>m. t = ReplyUnhandled m"
  "posts_ok ts \<Longrightarrow> c \<noteq> ActiveContext \<Longrightarrow> t \<in> set (tasks_for c ts) \<Longrightarrow> user_task t"
  by (force simp: posts_ok_def set_tasks_for)+

lemma nothing_pending:
  "posts_ok ts \<Longrightarrow> concat (map (pending_signals env st c) (tasks_for ActiveContext ts)) = []"
  using active_posts(1) [of ts] by fastforce

lemma threads_inv_start_task:
  assumes i: "threads_inv env st x" and u: "\<forall>m \<in> set (th_received x). unrelated env st m"
    and q: "th_queue x c = t # ts"
  shows "threads_inv env st (settle c (length (th_started x)) [] (start_task env t (th_state x))
    (x\<lparr> th_queue := (th_queue x)(c := ts), th_started := th_started x @ [(c, t)] \<rparr>))"
proof -
  let ?n = "length (th_started x)"
  obtain ev posted st' r where s: "start_task env t (th_state x) = (ev, posted, st', r)" by (metis prod_cases4)
  have reg: "registries (th_state x) = registries st" using i by (simp add: threads_inv_def)
  have "user_task t \<or> (\<exists>m. t = ReplyUnhandled m) \<or> (\<exists>m. t = HandleMessage m \<and> unrelated env st m)"
    using i u q by (cases "c = ActiveContext") (fastforce simp: threads_inv_def)+
  then have f: "fits env st (script env st t) (\<lambda>c. pending_signals env st c t) (ev, posted, st', r)"
    using start_fits [OF reg, of t env] s by simp
  then have posts: "posts_ok posted" by (simp add: fits_def)
  have new: "callbacks_of ?n x = []" "th_suspended x ?n = None"
    using i by (cases "th_suspended x ?n"; auto simp: threads_inv_def)+
  have pend: "pending_signals env st d t = []" if "c \<noteq> ActiveContext" for d
    using i q that by (cases t) (auto simp: threads_inv_def)
  have order: "concat (map (signal_tasks env st d) (th_received x)) =
      filter is_signal_task (tasks_for d (th_started x @ [(c, t)])) @
      filter is_signal_task (((th_queue x)(c := ts)) d @ tasks_for d posted) @
      concat (map (pending_signals env st d) (((th_queue x)(c := ts)) ActiveContext @ tasks_for ActiveContext posted))"
    if d: "d \<noteq> ActiveContext" for d
  proof -
    have "concat (map (signal_tasks env st d) (th_received x)) =
        started_signals d x @ filter is_signal_task (th_queue x d) @ concat (map (pending_signals env st d) (th_queue x ActiveContext))"
      using i d by (simp add: threads_inv_def)
    moreover have "filter is_signal_task (tasks_for d posted) = pending_signals env st d t" using f d by (simp add: fits_def)
    ultimately show ?thesis
      using q d pend nothing_pending [OF posts, of env st d] by (cases "c = ActiveContext") (auto simp: started_signals_def)
  qed
  have "(\<exists>m \<in> set (th_received x). t' = HandleMessage m) \<or> (\<exists>m. t' = ReplyUnhandled m)"
    if "t' \<in> set (((th_queue x)(c := ts)) ActiveContext @ tasks_for ActiveContext posted)" for t'
    using that i q active_posts(1) [OF posts] by (auto simp: threads_inv_def split: if_splits)
  moreover have "user_task t'" if "d \<noteq> ActiveContext" "t' \<in> set (((th_queue x)(c := ts)) d @ tasks_for d posted)" for d t'
    using that i q active_posts(2) [OF posts that(1)] by (auto simp: threads_inv_def split: if_splits)
  moreover have "callbacks_of j x @ to_do env (th_suspended x j) = script env st (snd ((th_started x @ [(c, t)]) ! j))" if "j < ?n" for j
    using that i by (simp add: threads_inv_def nth_append)
  moreover have "filter is_callback (map Does ev) @ to_do env (case r of Inl e \<Rightarrow> None | Inr s \<Rightarrow> s) = script env st t"
    using f by (simp add: fits_def)
  moreover have "registries st' = registries st" "\<forall>s. r = Inr (Some s) \<longrightarrow> user_suspended s" using f by (simp_all add: fits_def)
  moreover have "j < ?n \<and> user_suspended s'" if "th_suspended x j = Some s'" for j s' using i that by (simp add: threads_inv_def)
  moreover have "callbacks_of j x = []" if "?n \<le> j" for j using i that by (simp add: threads_inv_def)
  moreover have "callbacks_of j (x\<lparr> th_queue := a, th_started := b \<rparr>) = callbacks_of j x" for j a b by (simp add: callbacks_of_def)
  ultimately show ?thesis
    using order new unfolding threads_inv_def s settle_simps callbacks_of_settle
    by (auto simp: less_Suc_eq fun_upd_apply started_signals_def split: sum.splits)
qed

lemma threads_inv_go_on:
  assumes i: "threads_inv env st x" and s: "th_suspended x k = Some s"
  shows "threads_inv env st (settle c k [Returns (callee s)] (resume env s (th_state x)) x)"
proof -
  obtain ev posted st' r where e: "resume env s (th_state x) = (ev, posted, st', r)" by (metis prod_cases4)
  have reg: "registries (th_state x) = registries st" and k: "k < length (th_started x)" "user_suspended s"
    using i s by (simp_all add: threads_inv_def)
  obtain todo where todo: "left env s = Returns (callee s) # todo" and f: "fits env st todo (\<lambda>c. []) (ev, posted, st', r)"
    using resume_fits [OF reg k(2), of env] e by auto
  then have posts: "posts_ok posted" by (simp add: fits_def)
  have so_far: "callbacks_of k x @ Returns (callee s) # todo = script env st (snd (th_started x ! k))"
  proof -
    have "callbacks_of k x @ to_do env (th_suspended x k) = script env st (snd (th_started x ! k))"
      using i k(1) unfolding threads_inv_def by blast
    then show ?thesis using s todo by (simp add: to_do_def)
  qed
  moreover have "filter is_callback (map Does ev) @ to_do env (case r of Inl e \<Rightarrow> None | Inr s \<Rightarrow> s) = todo"
    using f by (simp add: fits_def)
  moreover have "registries st' = registries st" "\<forall>s. r = Inr (Some s) \<longrightarrow> user_suspended s" using f by (simp_all add: fits_def)
  moreover have "filter is_signal_task (tasks_for d posted) = []" if "d \<noteq> ActiveContext" for d using f that by (simp add: fits_def)
  moreover have "(\<exists>m \<in> set (th_received x). t' = HandleMessage m) \<or> (\<exists>m. t' = ReplyUnhandled m)"
    if "t' \<in> set (th_queue x ActiveContext @ tasks_for ActiveContext posted)" for t'
    using that i active_posts(1) [OF posts] by (auto simp: threads_inv_def)
  moreover have "user_task t'" if "d \<noteq> ActiveContext" "t' \<in> set (th_queue x d @ tasks_for d posted)" for d t'
    using that i active_posts(2) [OF posts that(1)] by (auto simp: threads_inv_def)
  ultimately show ?thesis
    using i k(1) nothing_pending [OF posts, of env st] unfolding threads_inv_def e settle_simps callbacks_of_settle
    by (auto simp: fun_upd_apply split: sum.splits)
qed

lemma received_mono: "thread_step env x y \<Longrightarrow> set (th_received x) \<subseteq> set (th_received y)"
  by (elim thread_stepE) auto

lemma threads_inv_step:
  "thread_step env x y \<Longrightarrow> threads_inv env st x \<Longrightarrow> \<forall>m \<in> set (th_received y). unrelated env st m \<Longrightarrow> threads_inv env st y"
proof (induction rule: thread_step.induct)
  case (receive x m)
  then show ?case by (auto simp: threads_inv_def callbacks_of_def started_signals_def)
next
  case (start x c t ts)
  then show ?case using threads_inv_start_task [OF start.prems(1) _ start.hyps(1)] by simp
next
  case (go_on x i s c)
  then show ?case using threads_inv_go_on [OF go_on.prems(1) go_on.hyps(1), of c] by simp
next
  case (elsewhere s x)
  then show ?case by (simp add: threads_inv_def callbacks_of_def started_signals_def)
qed

lemma threads_inv_reachable:
  "(thread_step env)\<^sup>*\<^sup>* (start_threads st) x \<Longrightarrow> \<forall>m \<in> set (th_received x). unrelated env st m \<Longrightarrow> threads_inv env st x"
proof (induction rule: rtranclp_induct)
  case base
  show ?case by (rule threads_inv_start)
next
  case (step y z)
  then show ?case using received_mono threads_inv_step by blast
qed


lemma listening_unrelated: "unrelated env (listening_connection cache rule) message"
  by (simp add: unrelated_def listening_connection_def)

lemma example_posted:
  "HandleReadMessage_threads example_env example_incoming (listening_connection NameCache_empty example_criteria) =
   ([], [(UserContext, RunSignalHandlers [User ''cb''] example_incoming)], listening_connection NameCache_empty example_criteria, Inr None)"
proof -
  have "rd_replySerial (m_header example_incoming) = None" "rd_messageType (m_header example_incoming) = MT_SIGNAL"
    by (simp_all add: example_incoming_def example_header_def)
  then show ?thesis
    using example_matches
    by (simp add: HandleReadMessage_threads_def listening_connection_def example_env_def post_rule_def)
qed

text \<open>One more signal is received, handled on the strand, and its coroutine started and suspended in the callback.\<close>

definition example_suspended :: "(IncomingDBusMessage list, string) threads \<Rightarrow> (IncomingDBusMessage list, string) threads" where
  "example_suspended x = x\<lparr>
     th_started := th_started x @ [(ActiveContext, HandleMessage example_incoming),
       (UserContext, RunSignalHandlers [User ''cb''] example_incoming)],
     th_suspended := (th_suspended x)(length (th_started x) := None,
       length (th_started x) + 1 \<mapsto> InSignalHandler ''cb'' [] example_incoming),
     th_trace := th_trace x @ [(length (th_started x) + 1, Does (Called ''cb''))],
     th_received := th_received x @ [example_incoming] \<rparr>"

lemma example_run:
  assumes "th_state x = listening_connection NameCache_empty example_criteria" and "th_queue x = (\<lambda>_. [])" and "th_stuck x = {}"
  shows "(thread_step example_env)\<^sup>*\<^sup>* x (example_suspended x)"
proof -
  let ?m = example_incoming and ?n = "length (th_started x)" and ?t = "RunSignalHandlers [User ''cb''] example_incoming"
  let ?x1 = "x\<lparr> th_queue := (\<lambda>_. [])(ActiveContext := [HandleMessage ?m]), th_received := th_received x @ [?m] \<rparr>"
  let ?x2 = "x\<lparr> th_queue := (\<lambda>_. [])(UserContext := [?t]), th_started := th_started x @ [(ActiveContext, HandleMessage ?m)],
    th_suspended := (th_suspended x)(?n := None), th_received := th_received x @ [?m] \<rparr>"
  have "thread_step example_env x ?x1"
    using thread_step.receive [of x example_env ?m] assms by simp
  moreover have "thread_step example_env ?x1 ?x2"
  proof -
    have "settle ActiveContext ?n [] (start_task example_env (HandleMessage ?m) (th_state ?x1))
        (?x1\<lparr> th_queue := (th_queue ?x1)(ActiveContext := []), th_started := th_started ?x1 @ [(ActiveContext, HandleMessage ?m)] \<rparr>) = ?x2"
      using assms by (intro threads.equality) (auto simp: settle_def example_posted)
    then show ?thesis
      using thread_step.start [of ?x1 ActiveContext "HandleMessage ?m" "[]" example_env] assms(3) by simp
  qed
  moreover have "thread_step example_env ?x2 (example_suspended x)"
  proof -
    have "settle UserContext (?n + 1) [] (start_task example_env ?t (th_state ?x2))
        (?x2\<lparr> th_queue := (th_queue ?x2)(UserContext := []), th_started := th_started ?x2 @ [(UserContext, ?t)] \<rparr>) = example_suspended x"
      using assms by (intro threads.equality) (auto simp: settle_def example_suspended_def)
    then show ?thesis
      using thread_step.start [of ?x2 UserContext ?t "[]" example_env] assms(3) by simp
  qed
  ultimately show ?thesis by (meson rtranclp.rtrancl_into_rtrancl rtranclp.rtrancl_refl)
qed


section \<open>The same callbacks as with one thread\<close>

fun is_call :: "'h event \<Rightarrow> bool" where
  "is_call (Called h) = True"
| "is_call _ = False"

text \<open>The callbacks that were called, by whichever coroutine.\<close>

definition calls_made :: "('c, 'h) threads \<Rightarrow> 'h event list" where
  "calls_made x = concat (map (\<lambda>o'. case snd o' of Does e \<Rightarrow> if is_call e then [e] else [] | Returns h \<Rightarrow> []) (th_trace x))"

text \<open>Nothing is to be started, and nobody waits for a callback.\<close>

definition idle :: "('c, 'h) threads \<Rightarrow> bool" where
  "idle x \<longleftrightarrow> (\<forall>c. th_queue x c = []) \<and> (\<forall>i. th_suspended x i = None)"

text \<open>What a coroutine, and all it will post, calls when no callback throws.\<close>

definition calls_after_filters :: "('c, 'h) environment \<Rightarrow> ('c, 'h) InternalState \<Rightarrow> IncomingDBusMessage \<Rightarrow> 'h list" where
  "calls_after_filters env st message =
     (if st_objectPathHandlers st (message_path message) \<noteq> None then all_path_handlers env st
      else asked env message (st_onIncomingSignal st))"

fun calls_of :: "('c, 'h) environment \<Rightarrow> ('c, 'h) InternalState \<Rightarrow> 'h task \<Rightarrow> 'h list" where
  "calls_of env st (HandleMessage message) =
     (if rd_replySerial (m_header message) \<noteq> None then []
      else if rd_messageType (m_header message) = MT_SIGNAL
      then concat (map (\<lambda>t. case snd t of RunSignalHandlers cbs message \<Rightarrow> users cbs | _ \<Rightarrow> [])
        (fst (post_signal env message (st_nameCache st) (st_matchRules st))))
      else asked env message (filters_in_order env st) @
        (if takes env message (filters_in_order env st) then [] else calls_after_filters env st message))"
| "calls_of env st (ReplyUnhandled message) = []"
| "calls_of env st (RunSignalHandlers cbs message) = users cbs"
| "calls_of env st (RunPathHandlers message) = all_path_handlers env st"
| "calls_of env st (RunReceivers message) = asked env message (st_onIncomingSignal st)"

fun calls_left :: "('c, 'h) environment \<Rightarrow> ('c, 'h) InternalState \<Rightarrow> 'h suspended \<Rightarrow> 'h list" where
  "calls_left env st (InFilter h hs message) =
     (if env_runs env h message = Inr NO
      then asked env message hs @ (if takes env message hs then [] else calls_after_filters env st message) else [])"
| "calls_left env st (InSignalHandler h cbs message) = users cbs"
| "calls_left env st (InPathHandler h hs message) = hs"
| "calls_left env st (InReceiver h hs message) = (if env_runs env h message = Inr NO then asked env message hs else [])"

definition later_calls :: "('c, 'h) environment \<Rightarrow> ('c, 'h) InternalState \<Rightarrow> 'h suspended option \<Rightarrow> 'h event multiset" where
  "later_calls env st s = (case s of None \<Rightarrow> {#} | Some s \<Rightarrow> mset (map Called (calls_left env st s)))"

definition queued_calls :: "('c, 'h) environment \<Rightarrow> ('c, 'h) InternalState \<Rightarrow> 'h task list \<Rightarrow> 'h event multiset" where
  "queued_calls env st ts = mset (map Called (concat (map (calls_of env st) ts)))"

lemma queued_calls_simps [simp]:
  "queued_calls env st [] = {#}"
  "queued_calls env st (t # ts) = mset (map Called (calls_of env st t)) + queued_calls env st ts"
  "queued_calls env st (ts @ us) = queued_calls env st ts + queued_calls env st us"
  by (simp_all add: queued_calls_def)

lemma later_calls_simps [simp]:
  "later_calls env st None = {#}" "later_calls env st (Some s) = mset (map Called (calls_left env st s))"
  by (simp_all add: later_calls_def)

lemma asked_Cons [simp]:
  "asked env message [] = []"
  "asked env message (h # hs) = h # (if env_runs env h message = Inr NO then asked env message hs else [])"
  by (simp_all add: asked_def)

lemma takes_Cons [simp]:
  "\<not> takes env message []"
  "takes env message (h # hs) \<longleftrightarrow> env_runs env h message = Inr YES \<or> takes env message hs"
  by (auto simp: takes_def)

text \<open>A stretch makes some of the calls and leaves the others to what it posts and to its coroutine.\<close>

definition shares ::
    "('c, 'h) environment \<Rightarrow> ('c, 'h) InternalState \<Rightarrow> 'h list \<Rightarrow> ('c, 'h) stretch \<Rightarrow> bool" where
  "shares env st hs result \<longleftrightarrow>
     (case result of (ev, ts, st', r) \<Rightarrow>
        mset (map Called hs) = mset (filter is_call ev) + queued_calls env st (map snd ts) +
          later_calls env st (case r of Inl e \<Rightarrow> None | Inr s \<Rightarrow> s))"

lemma shares_after_filters:
  "registries st' = registries st \<Longrightarrow>
   queued_calls env st (map snd (after_filters message st')) = mset (map Called (calls_after_filters env st message))"
  by (auto simp: after_filters_def calls_after_filters_def registries_def)

lemma shares_ask_filters:
  assumes r: "\<forall>h. \<not> isl (env_runs env h message)" and reg: "registries st' = registries st"
  shows "shares env st (asked env message hs @ (if takes env message hs then [] else calls_after_filters env st message))
    (ask_filters message hs st')"
proof (cases hs)
  case Nil
  then show ?thesis by (simp add: shares_def shares_after_filters [OF reg])
next
  case (Cons h hs')
  obtain y where "env_runs env h message = Inr y" using r by (cases "env_runs env h message") (auto simp: isl_def)
  then show ?thesis using Cons by (cases y) (auto simp: shares_def)
qed

lemma shares_receivers: "shares env st (asked env message hs) (run_receivers message hs st')"
  by (cases hs) (auto simp: shares_def)

lemma shares_path_handlers: "shares env st hs (run_path_handlers message hs st')"
  by (cases hs) (auto simp: shares_def)

lemma shares_signal_handlers:
  "NameCacheCallback \<notin> set cbs \<Longrightarrow> shares env st (users cbs) (run_signal_handlers env message cbs st')"
  by (cases "(env, message, cbs, st')" rule: run_signal_handlers.cases) (auto simp: shares_def)

lemma shares_signal:
  "queued_calls env st (map snd (fst (post_signal env message cache infos))) =
   mset (map Called (concat (map (\<lambda>t. case snd t of RunSignalHandlers cbs message \<Rightarrow> users cbs | _ \<Rightarrow> [])
     (fst (post_signal env message cache infos)))))"
proof -
  have "calls_of env st (snd p) = (case snd p of RunSignalHandlers cbs message \<Rightarrow> users cbs | _ \<Rightarrow> [])"
    if "p \<in> set (fst (post_signal env message cache infos))" for p
    using post_signal_tasks [OF that] by (auto simp: post_rule_def split: if_splits)
  then have e: "map (calls_of env st \<circ> snd) (fst (post_signal env message cache infos)) =
      map (\<lambda>t. case snd t of RunSignalHandlers cbs message \<Rightarrow> users cbs | _ \<Rightarrow> []) (fst (post_signal env message cache infos))"
    by simp
  show ?thesis unfolding queued_calls_def map_map e ..
qed

lemma reply_unhandled_no_call: "reply_unhandled env message st = (ev, st', r) \<Longrightarrow> filter is_call ev = []"
  by (auto simp: reply_unhandled_def SendMessageNoReplyImpl_def SendMessageNoReplyImpl_continue_def Let_def
      split: sum.splits prod.splits if_splits)

lemma start_shares:
  assumes reg: "registries st' = registries st" and r: "\<forall>h m. \<not> isl (env_runs env h m)"
    and t: "user_task t \<or> (\<exists>m. t = ReplyUnhandled m) \<or> (\<exists>m. t = HandleMessage m)"
  shows "shares env st (calls_of env st t) (start_task env t st')"
proof (cases t)
  case (HandleMessage m)
  have e: "st_matchRules st' = st_matchRules st" "st_nameCache st' = st_nameCache st" "filters_in_order env st' = filters_in_order env st"
    using reg by (simp_all add: registries_def filters_in_order_def)
  obtain ts res where p: "post_signal env m (st_nameCache st) (st_matchRules st) = (ts, res)" by fastforce
  have "shares env st (asked env m (filters_in_order env st) @
      (if takes env m (filters_in_order env st) then [] else calls_after_filters env st m)) (ask_filters m (filters_in_order env st) st')"
    using r by (intro shares_ask_filters reg) simp
  then show ?thesis
    using shares_signal [of env st m "st_nameCache st" "st_matchRules st"] HandleMessage p
    by (cases res) (auto simp: HandleReadMessage_threads_def e shares_def [of _ _ _ "([], _, _, _)"] split: option.splits sum.splits)
next
  case (ReplyUnhandled m)
  obtain ev st1 res where e: "reply_unhandled env m st' = (ev, st1, res)" by (metis prod_cases3)
  show ?thesis
    using reply_unhandled_no_call [OF e] e ReplyUnhandled by (cases res) (simp_all add: shares_def del: mset_filter)
next
  case (RunSignalHandlers cbs m)
  then show ?thesis using shares_signal_handlers t by simp
next
  case (RunPathHandlers m)
  then show ?thesis using shares_path_handlers reg by (simp add: registries_def all_path_handlers_def)
next
  case (RunReceivers m)
  then show ?thesis using shares_receivers reg by (simp add: registries_def)
qed

lemma resume_shares:
  assumes reg: "registries st' = registries st" and r: "\<forall>h m. \<not> isl (env_runs env h m)" and s: "user_suspended s"
  shows "shares env st (calls_left env st s) (resume env s st')"
proof -
  obtain y where y: "env_runs env (callee s) (awaited_message s) = Inr y"
    using r by (cases "env_runs env (callee s) (awaited_message s)") (auto simp: isl_def)
  have a: "shares env st (asked env m hs @ (if takes env m hs then [] else calls_after_filters env st m)) (ask_filters m hs st')" for m hs
    using r by (intro shares_ask_filters reg) simp
  have none: "shares env st [] ([], [], st', Inr None)" by (simp add: shares_def)
  show ?thesis
    using y s a none shares_signal_handlers shares_path_handlers shares_receivers
    by (cases s; cases y) simp_all
qed

text \<open>The calls that were made and those that will be.\<close>

definition all_calls :: "('c, 'h) environment \<Rightarrow> ('c, 'h) InternalState \<Rightarrow> ('c, 'h) threads \<Rightarrow> 'h event multiset" where
  "all_calls env st x = mset (calls_made x) + queued_calls env st (th_queue x ActiveContext) +
     queued_calls env st (th_queue x UserContext) + queued_calls env st (th_queue x InternalContext) +
     (\<Sum>i < length (th_started x). later_calls env st (th_suspended x i))"

lemma calls_made_settle:
  "calls_made (settle c i (map Returns hs) (ev, ts, st, r) x) = calls_made x @ filter is_call ev"
proof -
  have "concat (map ((\<lambda>o'. case snd o' of Does e \<Rightarrow> if is_call e then [e] else [] | Returns h \<Rightarrow> []) \<circ> Pair i) (map Does ev)) =
      filter is_call ev"
    by (induction ev) auto
  moreover have "concat (map ((\<lambda>o'. case snd o' of Does e \<Rightarrow> if is_call e then [e] else [] | Returns h \<Rightarrow> []) \<circ> Pair i) (map Returns hs)) = []"
    by (induction hs) auto
  ultimately show ?thesis by (simp add: calls_made_def settle_def comp_assoc)
qed

lemma queued_posted:
  "queued_calls env st (tasks_for ActiveContext ts) + queued_calls env st (tasks_for UserContext ts) +
   queued_calls env st (tasks_for InternalContext ts) = queued_calls env st (map snd ts)"
proof (induction ts)
  case (Cons t ts)
  then show ?case by (cases "fst t") (simp_all add: ac_simps del: mset_map)
qed simp

lemma settle_all_calls:
  fixes x :: "('c, 'h) threads"
  assumes "i < length (th_started x)"
  shows "all_calls env st (settle c i (map Returns hs) (ev, ts, st', r) x) + later_calls env st (th_suspended x i) =
    all_calls env st x + (mset (filter is_call ev) + queued_calls env st (map snd ts) +
      later_calls env st (case r of Inl e \<Rightarrow> None | Inr s \<Rightarrow> s))"
proof -
  let ?f = "\<lambda>i. later_calls env st (th_suspended x i)" and ?new = "case r of Inl e \<Rightarrow> None | Inr s \<Rightarrow> s"
  have "(\<Sum>j < length (th_started x). later_calls env st (((th_suspended x)(i := ?new)) j)) =
      later_calls env st ?new + (\<Sum>j \<in> {..<length (th_started x)} - {i}. ?f j)"
    using assms by (subst sum.remove [of _ i]) (auto intro!: sum.cong)
  moreover have "(\<Sum>j < length (th_started x). ?f j) = ?f i + (\<Sum>j \<in> {..<length (th_started x)} - {i}. ?f j)"
    using assms by (subst sum.remove [of _ i]) auto
  ultimately show ?thesis
    unfolding all_calls_def calls_made_settle settle_simps queued_calls_simps mset_append queued_posted [of env st ts, symmetric]
    by (simp only: ac_simps)
qed

lemma take_task_all_calls:
  assumes q: "th_queue x c = t # ts" and "th_suspended x (length (th_started x)) = None"
  shows "all_calls env st (x\<lparr> th_queue := (th_queue x)(c := ts), th_started := th_started x @ [(c, t)] \<rparr>) +
    mset (map Called (calls_of env st t)) = all_calls env st x"
proof -
  have "calls_made (x\<lparr> th_queue := a, th_started := b \<rparr>) = calls_made x" for a b by (simp add: calls_made_def)
  then show ?thesis using assms by (cases c) (simp_all add: all_calls_def ac_simps del: mset_map)
qed

lemma all_calls_step:
  assumes r: "\<forall>h m. \<not> isl (env_runs env h m)"
  shows "thread_step env x y \<Longrightarrow> threads_inv env st x \<Longrightarrow>
    all_calls env st x = queued_calls env st (map HandleMessage (th_received x)) \<Longrightarrow>
    all_calls env st y = queued_calls env st (map HandleMessage (th_received y))"
proof (induction rule: thread_step.induct)
  case (receive x m)
  have "all_calls env st (x\<lparr> th_queue := (th_queue x)(ActiveContext := th_queue x ActiveContext @ [HandleMessage m]), th_received := ms \<rparr>) =
      all_calls env st x + mset (map Called (calls_of env st (HandleMessage m)))" for ms
    by (simp add: all_calls_def calls_made_def ac_simps del: mset_map calls_of.simps)
  then show ?case using receive.prems(2) by (simp del: calls_of.simps)
next
  case (start x c t ts)
  let ?x = "x\<lparr> th_queue := (th_queue x)(c := ts), th_started := th_started x @ [(c, t)] \<rparr>"
  obtain ev posted st' res where s: "start_task env t (th_state x) = (ev, posted, st', res)" by (metis prod_cases4)
  have reg: "registries (th_state x) = registries st" and new: "th_suspended x (length (th_started x)) = None"
    using start.prems(1) by (auto simp: threads_inv_def) (cases "th_suspended x (length (th_started x))"; auto)
  have "user_task t \<or> (\<exists>m. t = ReplyUnhandled m) \<or> (\<exists>m. t = HandleMessage m)"
    using start.prems(1) start.hyps(1) by (cases "c = ActiveContext") (fastforce simp: threads_inv_def)+
  then have "mset (map Called (calls_of env st t)) = mset (filter is_call ev) + queued_calls env st (map snd posted) +
      later_calls env st (case res of Inl e \<Rightarrow> None | Inr s \<Rightarrow> s)"
    using start_shares [OF reg r, of t] s by (simp add: shares_def)
  then have "all_calls env st (settle c (length (th_started x)) [] (ev, posted, st', res) ?x) = all_calls env st x"
    using settle_all_calls [of "length (th_started x)" ?x env st c "[]" ev posted st' res] new
      take_task_all_calls [OF start.hyps(1) new, of env st] by (simp del: mset_map)
  then show ?case using start.prems(2) by (simp add: s)
next
  case (go_on x i s c)
  obtain ev posted st' res where e: "resume env s (th_state x) = (ev, posted, st', res)" by (metis prod_cases4)
  have reg: "registries (th_state x) = registries st" and i: "i < length (th_started x)" "user_suspended s"
    using go_on by (simp_all add: threads_inv_def)
  have "mset (map Called (calls_left env st s)) = mset (filter is_call ev) + queued_calls env st (map snd posted) +
      later_calls env st (case res of Inl e \<Rightarrow> None | Inr s \<Rightarrow> s)"
    using resume_shares [OF reg r i(2)] e by (simp add: shares_def)
  then have "all_calls env st (settle c i [Returns (callee s)] (ev, posted, st', res) x) = all_calls env st x"
    using settle_all_calls [OF i(1), of env st c "[callee s]" ev posted st' res] go_on.hyps(1) by (simp del: mset_map)
  then show ?case using go_on.prems(2) by (simp add: e)
next
  case (elsewhere s x)
  then show ?case by (simp add: all_calls_def calls_made_def)
qed

lemma all_calls_reachable:
  assumes r: "\<forall>h m. \<not> isl (env_runs env h m)"
  shows "(thread_step env)\<^sup>*\<^sup>* (start_threads st) x \<Longrightarrow> \<forall>m \<in> set (th_received x). unrelated env st m \<Longrightarrow>
    all_calls env st x = queued_calls env st (map HandleMessage (th_received x))"
proof (induction rule: rtranclp_induct)
  case base
  show ?case by (simp add: all_calls_def start_threads_def calls_made_def)
next
  case (step y z)
  then have u: "\<forall>m \<in> set (th_received y). unrelated env st m" using received_mono by blast
  show ?case by (rule all_calls_step [OF r step.hyps(2) threads_inv_reachable [OF step.hyps(1) u] step.IH [OF u]])
qed

text \<open>The single-threaded connection calls the same callbacks for a message.\<close>

definition matching :: "('c, 'h) environment \<Rightarrow> IncomingDBusMessage \<Rightarrow> name_cache \<Rightarrow> 'h MatchRuleInfo \<Rightarrow> bool" where
  "matching env message cache info \<longleftrightarrow>
     Matches (env_fuel env) (mri_rule info) message (sender_names message cache) = Inr True"

lemma single_threaded_signal:
  assumes r: "\<And>h. \<not> isl (env_runs env h message)"
    and "\<And>info. info \<in> set infos \<Longrightarrow> matching env message (st_nameCache st) info \<Longrightarrow> NameCacheCallback \<notin> set (mri_callback info)"
  shows "fst (dispatch_signal env message infos st) =
    map Called (concat (map (\<lambda>t. case snd t of RunSignalHandlers cbs message \<Rightarrow> users cbs | _ \<Rightarrow> [])
      (fst (post_signal env message (st_nameCache st) infos))))"
  using assms(2)
proof (induction infos)
  case (Cons info infos)
  have "invokeSignalHandlers env message (mri_callback info) st = (map Called (users (mri_callback info)), st, Inr ())"
    if "matching env message (st_nameCache st) info"
    using invoke_user_callbacks [OF r] Cons.prems [of info] that by (simp add: users_def)
  then show ?case
    using Cons by (auto simp: matching_def post_rule_def after_events_def Let_def split: sum.splits bool.splits prod.splits)
qed simp

lemma single_threaded_calls:
  assumes r: "\<forall>h m. \<not> isl (env_runs env h m)" and u: "unrelated env st message"
  shows "filter is_call (fst (HandleReadMessage env message st)) = map Called (calls_of env st (HandleMessage message))"
proof (cases "rd_replySerial (m_header message)")
  case Some
  then show ?thesis by (simp add: HandleReadMessage_def split: sum.splits)
next
  case None
  have throws: "\<And>h. \<not> isl (env_runs env h message)" using r by blast
  have calls: "filter is_call (map Called hs) = map Called hs" for hs by (induction hs) auto
  show ?thesis
  proof (cases "rd_messageType (m_header message) = MT_SIGNAL")
    case True
    have "NameCacheCallback \<notin> set (mri_callback info)"
      if "info \<in> set (st_matchRules st)" "matching env message (st_nameCache st) info" for info
      using u that by (auto simp: unrelated_def matching_def)
    from single_threaded_signal [OF throws this] show ?thesis
      using None True by (simp add: HandleReadMessage_def calls)
  next
    case False
    obtain ev st' res where e: "reply_unhandled env message st = (ev, st', res)" by (metis prod_cases3)
    show ?thesis
      using HandleReadMessage_call [OF None False throws, of st] None False e reply_unhandled_no_call [OF e]
      by (auto simp: calls_after_filters_def after_events_def Let_def calls asked_all [OF throws])
  qed
qed

text \<open>C13: Several threads call no other callbacks than one: as long as no callback throws and the messages do not concern
  the name cache, once nothing is queued or suspended any more, whatever the interleaving was, the callbacks that have been
  called are together those that the single-threaded connection calls for the messages received, each as often.\<close>

theorem threads_same_callbacks:
  assumes "(thread_step env)\<^sup>*\<^sup>* (start_threads st) x" and "idle x"
    and "\<forall>m \<in> set (th_received x). unrelated env st m" and "\<forall>h m. \<not> isl (env_runs env h m)"
  shows "mset (calls_made x) = (\<Sum>m \<leftarrow> th_received x. mset (filter is_call (fst (HandleReadMessage env m st))))"
proof -
  have "mset (calls_made x) = all_calls env st x" using assms(2) by (simp add: all_calls_def idle_def)
  also have "\<dots> = queued_calls env st (map HandleMessage (th_received x))" by (rule all_calls_reachable [OF assms(4,1,3)])
  also have "\<dots> = (\<Sum>m \<leftarrow> th_received x. mset (filter is_call (fst (HandleReadMessage env m st))))"
    using assms(3)
  proof (induction "th_received x" arbitrary: x)
    case (Cons m ms)
    have "queued_calls env st (map HandleMessage ms) = (\<Sum>m \<leftarrow> ms. mset (filter is_call (fst (HandleReadMessage env m st))))"
      using Cons.hyps(1) [of "x\<lparr> th_received := ms \<rparr>"] Cons.hyps(2) [symmetric] Cons.prems by (simp del: mset_filter)
    then show ?case
      using Cons.hyps(2) [symmetric] Cons.prems single_threaded_calls [OF assms(4), of st m] by (simp del: calls_of.simps mset_map mset_filter)
  qed simp
  finally show ?thesis .
qed

theorem threads_same_callbacks_witness:
  "\<exists>x. (thread_step example_env)\<^sup>*\<^sup>* (start_threads (listening_connection NameCache_empty example_criteria)) x \<and> idle x \<and>
     th_received x = [example_incoming] \<and>
     mset (calls_made x) =
       mset (filter is_call (fst (HandleReadMessage example_env example_incoming (listening_connection NameCache_empty example_criteria)))) \<and>
     calls_made x = [Called ''cb'']"
proof -
  let ?st = "listening_connection NameCache_empty example_criteria" and ?s = "InSignalHandler ''cb'' [] example_incoming"
  let ?y = "example_suspended (start_threads ?st)"
  let ?x = "settle UserContext 1 [Returns (callee ?s)] (resume example_env ?s (th_state ?y)) ?y"
  have "(thread_step example_env)\<^sup>*\<^sup>* (start_threads ?st) ?y"
    by (rule example_run) (simp_all add: start_threads_def)
  moreover have "thread_step example_env ?y ?x"
    by (rule thread_step.go_on) (simp_all add: example_suspended_def start_threads_def comes_back_def example_env_def)
  ultimately have reach: "(thread_step example_env)\<^sup>*\<^sup>* (start_threads ?st) ?x" by (rule rtranclp.rtrancl_into_rtrancl)
  have x: "idle ?x" "th_received ?x = [example_incoming]" "calls_made ?x = [Called ''cb'']"
    by (simp_all add: idle_def calls_made_def settle_def example_suspended_def start_threads_def example_env_def)
  have "mset (calls_made ?x) = (\<Sum>m \<leftarrow> th_received ?x. mset (filter is_call (fst (HandleReadMessage example_env m ?st))))"
    by (rule threads_same_callbacks [OF reach x(1)]) (simp_all add: listening_unrelated example_env_def)
  then show ?thesis using reach x by (intro exI [of _ ?x]) simp
qed

section \<open>Exceptions, and shared rules\<close>

text \<open>A coroutine to its end, when nothing else runs in between: what it calls.\<close>

fun callbacks_behind :: "'h suspended \<Rightarrow> nat" where
  "callbacks_behind (InFilter h hs message) = length hs"
| "callbacks_behind (InSignalHandler h cbs message) = length cbs"
| "callbacks_behind (InPathHandler h hs message) = length hs"
| "callbacks_behind (InReceiver h hs message) = length hs"

lemma signal_handlers_behind:
  "run_signal_handlers env message cbs st = (ev, ts, st', Inr (Some s)) \<Longrightarrow> callbacks_behind s < length cbs"
  by (induction env message cbs st rule: run_signal_handlers.induct) (auto split: sum.splits)

lemma resume_behind: "resume env s st = (ev, ts, st', Inr (Some s')) \<Longrightarrow> callbacks_behind s' < callbacks_behind s"
proof (cases s)
  case (InFilter h hs message)
  then show "resume env s st = (ev, ts, st', Inr (Some s')) \<Longrightarrow> ?thesis"
    by (cases hs) (auto split: sum.splits MessageHandled.splits)
next
  case (InSignalHandler h cbs message)
  then show "resume env s st = (ev, ts, st', Inr (Some s')) \<Longrightarrow> ?thesis"
    using signal_handlers_behind by (auto split: sum.splits)
next
  case (InPathHandler h hs message)
  then show "resume env s st = (ev, ts, st', Inr (Some s')) \<Longrightarrow> ?thesis"
    by (cases hs) (auto split: sum.splits)
next
  case (InReceiver h hs message)
  then show "resume env s st = (ev, ts, st', Inr (Some s')) \<Longrightarrow> ?thesis"
    by (cases hs) (auto split: sum.splits MessageHandled.splits)
qed

function run_to_end :: "('c, 'h) environment \<Rightarrow> ('c, 'h) stretch \<Rightarrow> 'h event list" where
  "run_to_end env (ev, ts, st, Inr (Some s)) = ev @ run_to_end env (resume env s st)"
| "run_to_end env (ev, ts, st, Inr None) = ev"
| "run_to_end env (ev, ts, st, Inl e) = ev"
  by pat_completeness auto

termination
  by (relation "measure (\<lambda>(env, ev, ts, st, r). case r of Inr (Some s) \<Rightarrow> Suc (callbacks_behind s) | _ \<Rightarrow> 0)")
    (auto split: prod.splits sum.splits option.splits dest: resume_behind)

definition user_tasks :: "('c, 'h) environment \<Rightarrow> ('c, 'h) InternalState \<Rightarrow> IncomingDBusMessage \<Rightarrow> 'h task list" where
  "user_tasks env st message = tasks_for UserContext (fst (snd (HandleReadMessage_threads env message st)))"

definition user_calls :: "('c, 'h) environment \<Rightarrow> ('c, 'h) InternalState \<Rightarrow> IncomingDBusMessage \<Rightarrow> 'h event list" where
  "user_calls env st message = concat (map (\<lambda>t. run_to_end env (start_task env t st)) (user_tasks env st message))"

lemma rule_to_end: "run_to_end env (run_signal_handlers env message cbs st) = fst (invokeSignalHandlers env message cbs st)"
  by (induction env message cbs st rule: invokeSignalHandlers.induct) (auto simp: after_events_def split: sum.splits)

text \<open>C24: With several threads an exception of a callback stays with its match rule: the callbacks of that rule that come
  after it are not called, those of the other rules are, whatever happens to it (with one thread it ends the dispatch).\<close>

theorem exception_stays_with_rule:
  assumes "rd_replySerial (m_header message) = None" and "rd_messageType (m_header message) = MT_SIGNAL"
    and "\<forall>info \<in> set (st_matchRules st).
      \<not> isl (Matches (env_fuel env) (mri_rule info) message (sender_names message (st_nameCache st)))"
  shows "user_calls env st message =
    concat (map (\<lambda>info. fst (invokeSignalHandlers env message (mri_callback info) st))
      (filter (\<lambda>info. matching env message (st_nameCache st) info \<and> mri_executeOnUserContext info) (st_matchRules st)))"
proof -
  have "concat (map (\<lambda>t. run_to_end env (start_task env t st))
        (tasks_for UserContext (fst (post_signal env message (st_nameCache st) infos)))) =
      concat (map (\<lambda>info. fst (invokeSignalHandlers env message (mri_callback info) st))
        (filter (\<lambda>info. matching env message (st_nameCache st) info \<and> mri_executeOnUserContext info) infos))"
    if "\<forall>info \<in> set infos. \<not> isl (Matches (env_fuel env) (mri_rule info) message (sender_names message (st_nameCache st)))" for infos
    using that
  proof (induction infos)
    case (Cons info infos)
    obtain b where "Matches (env_fuel env) (mri_rule info) message (sender_names message (st_nameCache st)) = Inr b"
      using Cons.prems by (cases "Matches (env_fuel env) (mri_rule info) message (sender_names message (st_nameCache st))") auto
    then show ?case
      using Cons by (cases b) (auto simp: matching_def post_rule_def rule_to_end Let_def split: prod.splits)
  qed simp
  note all = this [OF assms(3)]
  obtain ts r where "post_signal env message (st_nameCache st) (st_matchRules st) = (ts, r)" by fastforce
  then show ?thesis
    using assms(1,2) all by (cases r) (simp_all add: user_calls_def user_tasks_def HandleReadMessage_threads_def)
qed

definition throwing_env :: "(IncomingDBusMessage list, string) environment" where
  "throwing_env = example_env\<lparr> env_runs := (\<lambda>h _. if h = ''bad'' then Inl RuntimeError else Inr NO) \<rparr>"

theorem exception_stays_with_rule_witness:
  "user_calls throwing_env ((listening_connection NameCache_empty example_criteria)\<lparr> st_matchRules :=
      [\<lparr> mri_rule = example_criteria, mri_callback = [User ''bad'', User ''late''], mri_executeOnUserContext = True \<rparr>,
       \<lparr> mri_rule = example_criteria, mri_callback = [User ''cb''], mri_executeOnUserContext = True \<rparr>] \<rparr>) example_incoming =
   [Called ''bad'', Called ''cb'']"
proof -
  have "matching throwing_env example_incoming NameCache_empty info" if "mri_rule info = example_criteria" for info :: "string MatchRuleInfo"
    using example_matches that by (simp add: matching_def throwing_env_def example_env_def)
  then show ?thesis
    using example_matches
    by (subst exception_stays_with_rule)
      (simp_all add: listening_connection_def, simp_all add: throwing_env_def example_env_def after_events_def
        example_incoming_def [THEN arg_cong, of "\<lambda>m. rd_replySerial (m_header m)"]
        example_incoming_def [THEN arg_cong, of "\<lambda>m. rd_messageType (m_header m)"] example_header_def)
qed

text \<open>A rule that is already there keeps its context: a user's callback added under the rule of the name cache is called in the
  internal context, although it was registered for the user's.\<close>

theorem shared_rule_keeps_context:
  assumes "info \<in> set rules" and "\<not> mri_executeOnUserContext info" and "rules_inv rules"
  shows "\<exists>info' \<in> set (add_rule (mri_rule info) (User h) True rules).
    post_rule message info' = [(InternalContext, RunSignalHandlers (mri_callback info @ [User h]) message)]"
proof -
  have "distinct (map mri_rule rules)" using assms(3) by (simp add: rules_inv_def)
  then have "info\<lparr> mri_callback := mri_callback info @ [User h] \<rparr> \<in> set (add_rule (mri_rule info) (User h) True rules)"
    using assms(1) by (induction rules) force+
  then show ?thesis using assms(2) by (intro bexI) (simp_all add: post_rule_def)
qed

theorem shared_rule_keeps_context_witness:
  "\<exists>info' \<in> set (add_rule example_criteria (User ''cb'') True
       [\<lparr> mri_rule = example_criteria, mri_callback = [NameCacheCallback], mri_executeOnUserContext = False \<rparr>]).
    post_rule example_incoming info' = [(InternalContext, RunSignalHandlers [NameCacheCallback, User ''cb''] example_incoming)]"
  using shared_rule_keeps_context [of "\<lparr> mri_rule = example_criteria, mri_callback = [NameCacheCallback], mri_executeOnUserContext = False \<rparr>"
      "[\<lparr> mri_rule = example_criteria, mri_callback = [NameCacheCallback], mri_executeOnUserContext = False \<rparr>]" "''cb''" example_incoming]
  by (simp add: rules_inv_def)

end
