(* ===== verification/Lifecycle.thy ===== *)
theory Lifecycle
  imports Dispatch
begin

text \<open>
  From connecting to closing, in \<^verbatim>\<open>src/src/DBusConnection.txx\<close>: authentication, the handshake of \<^verbatim>\<open>Connect\<close>,
  coroutines that wait for it, \<^verbatim>\<open>SendMessage\<close>, \<^verbatim>\<open>Close\<close>, the loss of the connection and the end of the read
  loop. The socket is a parameter: the bytes sent are results, and the daemon's answers are arguments.
\<close>

section \<open>Connecting\<close>

text \<open>The path of the daemon's socket.\<close>

definition connect_endpoint :: "(string \<Rightarrow> string option) \<Rightarrow> BusType \<Rightarrow> string result" where
  "connect_endpoint getenv busType =
     (if busType = SESSION then ParseDBusAddress getenv busType
      else bindE (ParseDBusAddress getenv busType) (\<lambda>address.
        Inr (if address = [] then ''/var/run/dbus/system_bus_socket'' else address)))"

definition CRLF :: string where
  "CRLF = [CHR 0x0D, CHR 0x0A]"

text \<open>What is sent, and how the coroutine ends, given the user's id and the line \<^verbatim>\<open>async_read_until\<close> has read, or the
  exception it has thrown; an error of the socket shows in the reading at the latest.\<close>

definition AuthenticateDBusConnectionImpl :: "nat \<Rightarrow> string result \<Rightarrow> 8 word list list \<times> unit result" where
  "AuthenticateDBusConnectionImpl uid reply =
     (let auth = HexEncodeString (decimal uid);
          sent = [[0], bytes_of_string (''AUTH EXTERNAL '' @ auth @ CRLF)]
      in case reply of
           Inl e \<Rightarrow> (sent, Inl e)
         | Inr line \<Rightarrow>
             if \<not> starts_with line ''OK'' then (sent, Inl RuntimeError)
             else (sent @ [bytes_of_string (''BEGIN'' @ CRLF)], Inr ()))"

definition Hello_call :: "DBusMessage result" where
  "Hello_call = bus_method ''Hello''"

text \<open>\<^verbatim>\<open>RequestName\<close> for each of the names; every number is only logged.\<close>

fun request_names ::
    "(nat \<Rightarrow> nat \<Rightarrow> 8 word) \<Rightarrow> nat \<Rightarrow> bus \<Rightarrow> DBusWellKnownName list \<Rightarrow> unit result" where
  "request_names junk n bus [] = Inr ()"
| "request_names junk n bus (name # names) =
     bindE (RequestName_call name (name_flag_code WKN_NONE)) (\<lambda>m. bindE (bus m) (\<lambda>reply.
       bindE (IncomingDBusMessage_Get junk n (TFixed U32) reply) (\<lambda>_. request_names junk n bus names)))"

text \<open>\<^verbatim>\<open>connectionReady\<close> is set, and one of the waiting coroutines is let go.\<close>

definition connection_completed :: "('c, 'h) InternalState \<Rightarrow> nat \<times> ('c, 'h) InternalState" where
  "connection_completed st = (if st_nrOfWaiters st > 0 then 1 else 0, st\<lparr> st_connectionReady := True \<rparr>)"

text \<open>\<^verbatim>\<open>Connect\<close> after the authentication: the number of coroutines let go, the state, and the exception.\<close>

definition Connect_handshake ::
    "(nat \<Rightarrow> nat \<Rightarrow> 8 word) \<Rightarrow> nat \<Rightarrow> bus \<Rightarrow> ('c, 'h) InternalState \<Rightarrow> nat \<times> ('c, 'h) InternalState \<times> unit result" where
  "Connect_handshake junk n bus st =
     (case bindE Hello_call (\<lambda>m. bindE (bus m) (\<lambda>reply.
         bindE (IncomingDBusMessage_Get junk n (TString StdString) reply) (\<lambda>v.
           make_DBusUniqueConnectionName (the_string v)))) of
        Inl e \<Rightarrow> (0, st, Inl e)
      | Inr unique \<Rightarrow>
          let st1 = st\<lparr> st_uniqueConnection := Some unique \<rparr> in
          (case request_names junk n bus (st_wellKnownNames st1) of
             Inl e \<Rightarrow> (0, st1, Inl e)
           | Inr _ \<Rightarrow>
               let (woken, st2) = connection_completed st1 in
               (case SubscribeToNameChanges bus st2 of
                  Inl e \<Rightarrow> (woken, st2, Inl e)
                | Inr st3 \<Rightarrow> (woken, st3, Inr ()))))"

text \<open>The whole of \<^verbatim>\<open>Connect\<close>, with the bytes it sends before the handshake. Connecting opens the socket; whether
  it succeeded is not looked at, so a daemon that is not there is an error of the authentication.\<close>

definition Connect ::
    "(string \<Rightarrow> string option) \<Rightarrow> BusType \<Rightarrow> nat \<Rightarrow> string result \<Rightarrow> (nat \<Rightarrow> nat \<Rightarrow> 8 word) \<Rightarrow> nat \<Rightarrow> bus \<Rightarrow>
     ('c, 'h) InternalState \<Rightarrow> 8 word list list \<times> nat \<times> ('c, 'h) InternalState \<times> unit result" where
  "Connect getenv busType uid reply junk n bus st =
     (case connect_endpoint getenv busType of
        Inl e \<Rightarrow> ([], 0, st, Inl e)
      | Inr address \<Rightarrow>
          let st1 = st\<lparr> st_socketOpen := True \<rparr> in
          (case AuthenticateDBusConnectionImpl uid reply of
             (sent, Inl e) \<Rightarrow> (sent, 0, st1, Inl e)
           | (sent, Inr _) \<Rightarrow> (sent, Connect_handshake junk n bus st1)))"

section \<open>Sending a call\<close>

text \<open>\<^verbatim>\<open>SendMessage\<close> once the connection is ready, and up to its first suspension: the message is checked only when
  it is ready.\<close>

definition SendMessageImpl_continue ::
    "'c channel_ops \<Rightarrow> DBusMessage \<Rightarrow> ('c, 'h) InternalState \<Rightarrow> ('c, 'h) outcome \<times> ticket option" where
  "SendMessageImpl_continue ops message st =
     (if \<not> ExpectsReply message then (([], st, Inl RuntimeError), None)
      else (case SendMessageInternal_begin ops message st of
          (st', Inl e) \<Rightarrow> (([], st', Inl e), None)
        | (st', Inr (bytes, t)) \<Rightarrow> (([Sent bytes], st', Inr ()), Some t)))"

definition SendMessageImpl_start ::
    "'c channel_ops \<Rightarrow> DBusMessage \<Rightarrow> ('c, 'h) InternalState \<Rightarrow> ('c, 'h) outcome \<times> ticket option" where
  "SendMessageImpl_start ops message st =
     (if \<not> st_connectionReady st
      then (([WaitsForConnection], st\<lparr> st_nrOfWaiters := st_nrOfWaiters st + 1 \<rparr>, Inr ()), None)
      else SendMessageImpl_continue ops message st)"

text \<open>The end of \<^verbatim>\<open>SendMessage\<close>, and of \<^verbatim>\<open>SendMessageSync\<close>, once \<^verbatim>\<open>SendMessageInternal\<close> has returned.\<close>

definition reply_or_error :: "IncomingDBusMessage option result \<Rightarrow> IncomingDBusMessage result" where
  "reply_or_error reply = bindE reply (\<lambda>r. case r of None \<Rightarrow> Inl InternalError | Some m \<Rightarrow> Inr m)"

definition SendMessageImpl_finish ::
    "(nat \<Rightarrow> nat \<Rightarrow> 8 word) \<Rightarrow> nat \<Rightarrow> 'c channel_ops \<Rightarrow> ticket \<Rightarrow> ('c, 'h) InternalState \<Rightarrow>
     (('c, 'h) InternalState \<times> IncomingDBusMessage result) option" where
  "SendMessageImpl_finish junk n ops t st =
     map_option (\<lambda>(st', r). (st', reply_or_error r)) (SendMessageInternal_finish junk n ops t st)"

text \<open>The synchronous functions call \<^verbatim>\<open>SendMessageInternal\<close> directly: they do not wait for the connection to be ready,
  and a message that expects no reply is noticed after it has been sent.\<close>

definition SendMessageSync_start ::
    "'c channel_ops \<Rightarrow> DBusMessage \<Rightarrow> ('c, 'h) InternalState \<Rightarrow> ('c, 'h) outcome \<times> ticket option" where
  "SendMessageSync_start ops message st =
     (case SendMessageInternal_begin ops message st of
        (st', Inl e) \<Rightarrow> (([], st', Inl e), None)
      | (st', Inr (bytes, t)) \<Rightarrow> (([Sent bytes], st', Inr ()), Some t))"

definition SendMessageSync_finish ::
    "(nat \<Rightarrow> nat \<Rightarrow> 8 word) \<Rightarrow> nat \<Rightarrow> 'c channel_ops \<Rightarrow> ticket \<Rightarrow> ('c, 'h) InternalState \<Rightarrow>
     (('c, 'h) InternalState \<times> IncomingDBusMessage result) option" where
  "SendMessageSync_finish junk n ops t st =
     map_option (\<lambda>(st', r). (st', reply_or_error r)) (SendMessageInternal_finish junk n ops t st)"

definition SendMessageNoReplySync ::
    "'c channel_ops \<Rightarrow> DBusMessage \<Rightarrow> ('c, 'h) InternalState \<Rightarrow> ('c, 'h) outcome" where
  "SendMessageNoReplySync ops message st =
     (case SendMessageInternal_begin ops
         (if ExpectsReply message then DBusMessage_Flag FL_NO_REPLY_EXPECTED message else message) st of
        (st', Inl e) \<Rightarrow> ([], st', Inl e)
      | (st', Inr (bytes, _)) \<Rightarrow> ([Sent bytes], st', Inr ()))"

section \<open>Closing\<close>

definition CloseData :: "('c, 'h) InternalState \<Rightarrow> ('c, 'h) InternalState" where
  "CloseData st = st\<lparr> st_onIncomingSignal := [], st_objectPathHandlers := Map.empty, st_shouldQuit := True,
     st_connectionReady := False, st_socketOpen := False \<rparr>"

text \<open>The loops over copies of the rules and names; the first exception ends them and \<^verbatim>\<open>Close\<close>.\<close>

fun remove_rules :: "bus \<Rightarrow> DBusMatchRule list \<Rightarrow> ('c, 'h) InternalState \<Rightarrow> ('c, 'h) InternalState \<times> unit result" where
  "remove_rules bus [] st = (st, Inr ())"
| "remove_rules bus (rule # rs) st =
     (case RemoveMatchRuleImpl bus rule st of Inl e \<Rightarrow> (st, Inl e) | Inr st' \<Rightarrow> remove_rules bus rs st')"

fun release_names ::
    "(nat \<Rightarrow> nat \<Rightarrow> 8 word) \<Rightarrow> nat \<Rightarrow> bus \<Rightarrow> DBusWellKnownName list \<Rightarrow> ('c, 'h) InternalState \<Rightarrow>
     ('c, 'h) InternalState \<times> unit result" where
  "release_names junk n bus [] st = (st, Inr ())"
| "release_names junk n bus (name # names) st =
     (case ReleaseWellKnownNameImpl junk n bus name st of Inl e \<Rightarrow> (st, Inl e) | Inr st' \<Rightarrow> release_names junk n bus names st')"

definition CloseImpl ::
    "(nat \<Rightarrow> nat \<Rightarrow> 8 word) \<Rightarrow> nat \<Rightarrow> bus \<Rightarrow> ('c, 'h) InternalState \<Rightarrow> ('c, 'h) InternalState \<times> unit result" where
  "CloseImpl junk n bus st =
     (if \<not> st_socketOpen st then (st, Inr ())
      else if \<not> st_connectionReady st then (CloseData st, Inr ())
      else (case remove_rules bus (map mri_rule (st_matchRules st)) st of
          (st1, Inl e) \<Rightarrow> (st1, Inl e)
        | (st1, Inr _) \<Rightarrow>
            (case release_names junk n bus (st_wellKnownNames st1) st1 of
               (st2, Inl e) \<Rightarrow> (st2, Inl e)
             | (st2, Inr _) \<Rightarrow> (CloseData st2, Inr ()))))"

text \<open>Whether the user's disconnect callbacks are called, and the state.\<close>

definition HandleConnectionLost ::
    "(nat \<Rightarrow> nat \<Rightarrow> 8 word) \<Rightarrow> nat \<Rightarrow> bus \<Rightarrow> ('c, 'h) InternalState \<Rightarrow> bool \<times> ('c, 'h) InternalState" where
  "HandleConnectionLost junk n bus st =
     (if st_shouldQuit st then (False, st)
      else (case CloseImpl junk n bus (st\<lparr> st_connectionReady := False \<rparr>) of
          (st', Inl e) \<Rightarrow> (False, st')
        | (st', Inr _) \<Rightarrow> (True, st')))"

text \<open>What the read loop does with an error of the socket, by the category and the value of its code.\<close>

datatype loop_exit = ExitLoop | ConnectionLost

definition ReadLoop_catch :: "bool \<Rightarrow> string \<Rightarrow> int \<Rightarrow> loop_exit" where
  "ReadLoop_catch shouldQuit category code =
     (if shouldQuit then ExitLoop
      else if category = ''asio.channel'' \<and> code = 1 then ExitLoop
      else if category = ''system'' \<and> code = 125 then ExitLoop
      else ConnectionLost)"

section \<open>Properties of connecting\<close>

text \<open>The daemon's view: pairs of hexadecimal digits, each a character.\<close>

fun unhex :: "string \<Rightarrow> string option" where
  "unhex [] = Some []"
| "unhex [c] = None"
| "unhex (c # d # s) =
     (case (List.find (\<lambda>n. hex_digit n = c) [0..<16], List.find (\<lambda>n. hex_digit n = d) [0..<16]) of
        (Some h, Some l) \<Rightarrow> map_option ((#) (char_of (16 * h + l))) (unhex s)
      | _ \<Rightarrow> None)"

lemma find_hex_digit: "h < 16 \<Longrightarrow> List.find (\<lambda>n. hex_digit n = hex_digit h) [0..<16] = Some h"
proof -
  have "\<forall>h \<in> set [0..<16]. List.find (\<lambda>n. hex_digit n = hex_digit h) [0..<16] = Some h" by code_simp
  then show "h < 16 \<Longrightarrow> ?thesis" by simp
qed

lemma unhex_encode: "\<forall>c \<in> set s. 16 \<le> (of_char c :: nat) \<Longrightarrow> unhex (HexEncodeString s) = Some s"
proof (induction s)
  case (Cons c s)
  have "(of_char c :: nat) < 256" by simp
  then have "of_char c div 16 < (16 :: nat)" by (intro less_mult_imp_div_less) simp
  moreover have "of_char c mod 16 < (16 :: nat)" by simp
  ultimately show ?case
    using Cons by (simp add: HexEncodeString_def hex_format_def Let_def find_hex_digit)
qed (simp add: HexEncodeString_def)

lemma decimal_digit_chars: "\<forall>c \<in> set (decimal n). \<exists>d < 10. c = char_of (48 + d :: nat)"
proof (induction n rule: decimal.induct)
  case (1 n)
  then show ?case by (subst decimal.simps) (auto intro: exI [of _ "n mod 10"] exI [of _ n])
qed

text \<open>C39: Authentication sends the null byte, then one line from whose hexadecimal part the daemon reads back the
  user's id in decimal, and \<^verbatim>\<open>BEGIN\<close> exactly when the daemon's line starts with \<^verbatim>\<open>OK\<close>; otherwise it throws.\<close>

theorem authentication_line:
  "\<exists>auth. unhex auth = Some (decimal uid) \<and>
    AuthenticateDBusConnectionImpl uid (Inr reply) =
      ([[0], bytes_of_string (''AUTH EXTERNAL '' @ auth @ CRLF)] @
         (if prefix ''OK'' reply then [bytes_of_string (''BEGIN'' @ CRLF)] else []),
       if prefix ''OK'' reply then Inr () else Inl RuntimeError)"
proof -
  have "\<forall>c \<in> set (decimal uid). 16 \<le> (of_char c :: nat)"
    using decimal_digit_chars [of uid] by auto
  then show ?thesis
    using unhex_encode by (auto simp: AuthenticateDBusConnectionImpl_def Let_def starts_with_prefix)
qed

text \<open>The daemon accepts the handshake: its answer to \<^verbatim>\<open>Hello\<close> carries the string \<open>u\<close>, and the other calls
  are answered with numbers.\<close>

definition string_reply :: "ReplyData \<Rightarrow> string \<Rightarrow> IncomingDBusMessage" where
  "string_reply header s =
     \<lparr> m_header = header\<lparr> rd_signature := Some (MkSignature ''s'') \<rparr>,
       in_messageBody = wires GA GA [VString StdString s] 0 \<rparr>"

definition daemon :: "ReplyData \<Rightarrow> string \<Rightarrow> 32 word \<Rightarrow> bus" where
  "daemon header u w m = Inr (if m_method m = Some ''Hello'' then string_reply header u else code_reply header w)"

lemma string_reply_read:
  assumes "plain s" and "length (wires GA GA [VString StdString s] 0) < n" and "length (wires GA GA [VString StdString s] 0) < 67108864"
  shows "IncomingDBusMessage_Get junk n (TString StdString) (string_reply header s) = Inr (VString StdString s)"
proof -
  let ?v = "VString StdString s"
  have b: "wires GA GA [?v] 0 = body GA ?v 0" by (rule wires_aligned) simp
  have "wt ?v" "accepts (type_of ?v) ?v" using assms(1) by (simp_all add: plain_def valid_string_def)
  then have "UnmarshalDBusType junk n (type_of ?v) (body GA ?v 0) (GetTypeSignature (type_of ?v)) = Inr ?v"
    using assms(2,3) b by (intro body_read_back) simp_all
  moreover have "GetTypeSignature (TString StdString) = ''s''" by code_simp
  ultimately show ?thesis
    using b by (simp add: IncomingDBusMessage_Get_def string_reply_def
        del: GetTypeSignature.simps UnmarshalDBusTypeImpl.simps body.simps wires.simps(2))
qed

lemma call_methods:
  "RequestName_call name flags = Inr m \<Longrightarrow> m_method m = Some ''RequestName''"
  "ReleaseName_call name = Inr m \<Longrightarrow> m_method m = Some ''ReleaseName''"
  "AddMatch_call rule = Inr m \<Longrightarrow> m_method m = Some ''AddMatch''"
  "RemoveMatch_call rule = Inr m \<Longrightarrow> m_method m = Some ''RemoveMatch''"
  by (auto simp: RequestName_call_def ReleaseName_call_def AddMatch_call_def RemoveMatch_call_def bus_method_simp
      DBusMessage_Parameters_def DBusMessage_Parameter_def bindE_Inr_iff)

lemma daemon_answers:
  "RequestName_call name flags = Inr m \<Longrightarrow> daemon header u w m = Inr (code_reply header w)"
  "ReleaseName_call name = Inr m \<Longrightarrow> daemon header u w m = Inr (code_reply header w)"
  "AddMatch_call rule = Inr m \<Longrightarrow> daemon header u w m = Inr (code_reply header w)"
  "RemoveMatch_call rule = Inr m \<Longrightarrow> daemon header u w m = Inr (code_reply header w)"
  by (auto simp: daemon_def dest!: call_methods)

lemma request_names_answered:
  "4 < n \<Longrightarrow> \<forall>name \<in> set names. \<exists>m. RequestName_call name (name_flag_code WKN_NONE) = Inr m \<Longrightarrow>
   request_names junk n (daemon header u w) names = Inr ()"
proof (induction names)
  case (Cons name names)
  then obtain m where m: "RequestName_call name (name_flag_code WKN_NONE) = Inr m" by auto
  then show ?case using Cons daemon_answers(1) [OF m] by (simp add: code_reply_read del: name_flag_code.simps)
qed simp

lemma name_rule_call: "\<exists>rule m. name_change_rule = Inr rule \<and> AddMatch_call rule = Inr m"
proof -
  have "\<not> isl (bindE name_change_rule AddMatch_call)" by code_simp
  then obtain m where "bindE name_change_rule AddMatch_call = Inr m" by (cases "bindE name_change_rule AddMatch_call") simp_all
  then show ?thesis unfolding bindE_Inr_iff by blast
qed

lemma handshake_makes_ready:
  assumes u: "make_DBusUniqueConnectionName u = Inr unique" "plain u"
    and n: "4 < n" "length (wires GA GA [VString StdString u] 0) < n" "length (wires GA GA [VString StdString u] 0) < 67108864"
    and names: "\<forall>name \<in> set (st_wellKnownNames st). \<exists>m. RequestName_call name (name_flag_code WKN_NONE) = Inr m"
  shows "\<exists>rule. name_change_rule = Inr rule \<and>
    Connect_handshake junk n (daemon header u w) st =
      (if st_nrOfWaiters st > 0 then 1 else 0,
       st\<lparr> st_uniqueConnection := Some unique, st_connectionReady := True,
         st_matchRules := add_rule rule NameCacheCallback False (st_matchRules st) \<rparr>, Inr ())"
proof -
  obtain rule m where r: "name_change_rule = Inr rule" "AddMatch_call rule = Inr m" using name_rule_call by blast
  have hello: "bindE Hello_call (\<lambda>m. bindE (daemon header u w m) (\<lambda>reply.
         bindE (IncomingDBusMessage_Get junk n (TString StdString) reply) (\<lambda>v.
           make_DBusUniqueConnectionName (the_string v)))) = Inr unique"
    using string_reply_read [OF u(2) n(2,3), of junk header] u(1) by (simp add: Hello_call_def bus_method_simp daemon_def)
  have "SubscribeToNameChanges (daemon header u w) st' =
      Inr (st'\<lparr> st_matchRules := add_rule rule NameCacheCallback False (st_matchRules st') \<rparr>)" for st' :: "('a, 'b) InternalState"
    unfolding SubscribeToNameChanges_def r(1) by (simp add: AddMatchRuleImpl_def r(2) daemon_answers(3) [OF r(2)])
  note steps = this request_names_answered [OF n(1) names, of junk header u w]
  have "Connect_handshake junk n (daemon header u w) st =
      (if st_nrOfWaiters st > 0 then 1 else 0,
       st\<lparr> st_uniqueConnection := Some unique, st_connectionReady := True,
         st_matchRules := add_rule rule NameCacheCallback False (st_matchRules st) \<rparr>, Inr ())"
    unfolding Connect_handshake_def hello by (simp add: connection_completed_def steps)
  then show ?thesis using r(1) by blast
qed

text \<open>C20: When the daemon accepts the authentication and greets the connection with a unique name, connecting ends with
  the connection ready under that name, whatever it answers to the requests for names; the name cache listens; and
  however many coroutines were waiting for the connection, one is let go. When it does not accept, an exception
  leaves the socket open and the connection not ready.\<close>

theorem connect_makes_ready:
  assumes u: "make_DBusUniqueConnectionName u = Inr unique" "plain u"
    and n: "4 < n" "length (wires GA GA [VString StdString u] 0) < n" "length (wires GA GA [VString StdString u] 0) < 67108864"
    and names: "\<forall>name \<in> set (st_wellKnownNames st). \<exists>m. RequestName_call name (name_flag_code WKN_NONE) = Inr m"
    and address: "connect_endpoint getenv busType = Inr address"
  shows "\<exists>rule sent. name_change_rule = Inr rule \<and>
    Connect getenv busType uid (Inr reply) junk n (daemon header u w) st =
      (if prefix ''OK'' reply
       then (sent, if st_nrOfWaiters st > 0 then 1 else 0,
         st\<lparr> st_socketOpen := True, st_uniqueConnection := Some unique, st_connectionReady := True,
           st_matchRules := add_rule rule NameCacheCallback False (st_matchRules st) \<rparr>, Inr ())
       else (sent, 0, st\<lparr> st_socketOpen := True \<rparr>, Inl RuntimeError))"
proof -
  obtain rule where "name_change_rule = Inr rule" "Connect_handshake junk n (daemon header u w) (st\<lparr> st_socketOpen := True \<rparr>) =
      (if st_nrOfWaiters st > 0 then 1 else 0,
       st\<lparr> st_socketOpen := True, st_uniqueConnection := Some unique, st_connectionReady := True,
         st_matchRules := add_rule rule NameCacheCallback False (st_matchRules st) \<rparr>, Inr ())"
    using handshake_makes_ready [OF u n, of "st\<lparr> st_socketOpen := True \<rparr>" junk header w] names by auto
  then show ?thesis
    by (intro exI [of _ rule]) (simp add: Connect_def address AuthenticateDBusConnectionImpl_def Let_def starts_with_prefix)
qed

theorem connect_makes_ready_witness:
  "\<exists>sent st. Connect (\<lambda>_. None) SYSTEM 1000 (Inr ''OK 1234'') no_junk 50 (daemon example_header '':1.5'' 1)
       (example_connection\<lparr> st_nrOfWaiters := 3 \<rparr>) = (sent, 1, st, Inr ()) \<and>
     st_connectionReady st \<and> st_uniqueConnection st = Some (MkUniqueName '':1.5'')"
proof -
  have "make_DBusUniqueConnectionName '':1.5'' = Inr (MkUniqueName '':1.5'')" "plain '':1.5''"
    "length (wires GA GA [VString StdString '':1.5''] 0) < 50"
    "connect_endpoint (\<lambda>_. None) SYSTEM = Inr ''/var/run/dbus/system_bus_socket''"
    by code_simp+
  from connect_makes_ready [OF this(1,2) _ this(3) _ _ this(4), of "example_connection\<lparr> st_nrOfWaiters := 3 \<rparr>" 1000 "''OK 1234''"
      no_junk example_header 1] this(3)
  show ?thesis by (auto simp: new_connection_def)
qed

section \<open>Waiting for the connection\<close>

text \<open>
  The coroutines that wait for the connection on \<^verbatim>\<open>connectionCompleted\<close>, a channel without a buffer: those blocked in
  \<^verbatim>\<open>async_receive\<close>, and the sends that nobody has received. The last three fields record who has waited, in order,
  what those let go have sent, and whether \<^verbatim>\<open>Connect\<close>, which runs once for each object, has yet to complete.
\<close>

datatype waiter = WaitsInSendMessage DBusMessage | WaitsInSendMessageNoReply DBusMessage

record ('c, 'h) waiting_room =
  wr_state :: "('c, 'h) InternalState"
  wr_blocked :: "waiter list"
  wr_sends :: nat
  wr_waited :: "waiter list"
  wr_events :: "'h event list"
  wr_connecting :: bool

definition start_waiting :: "('c, 'h) InternalState \<Rightarrow> ('c, 'h) waiting_room" where
  "start_waiting st = \<lparr> wr_state = st, wr_blocked = [], wr_sends = 0, wr_waited = [], wr_events = [], wr_connecting = True \<rparr>"

definition after_start :: "waiter \<Rightarrow> ('c, 'h) outcome \<Rightarrow> ('c, 'h) waiting_room \<Rightarrow> ('c, 'h) waiting_room" where
  "after_start w out x =
     (case out of (ev, st, r) \<Rightarrow>
        if WaitsForConnection \<in> set ev then x\<lparr> wr_state := st, wr_blocked := wr_blocked x @ [w], wr_waited := wr_waited x @ [w] \<rparr>
        else x\<lparr> wr_state := st \<rparr>)"

text \<open>A coroutine that is let go goes on with its message, on whatever the state is by then.\<close>

definition resume_waiter :: "'c channel_ops \<Rightarrow> waiter \<Rightarrow> ('c, 'h) waiting_room \<Rightarrow> ('c, 'h) waiting_room" where
  "resume_waiter ops w x =
     (case (case w of
          WaitsInSendMessage message \<Rightarrow> fst (SendMessageImpl_continue ops message (wr_state x))
        | WaitsInSendMessageNoReply message \<Rightarrow> SendMessageNoReplyImpl_continue ops message (wr_state x)) of
        (ev, st, r) \<Rightarrow> x\<lparr> wr_state := st, wr_events := wr_events x @ ev \<rparr>)"

definition complete_connection :: "('c, 'h) waiting_room \<Rightarrow> ('c, 'h) waiting_room" where
  "complete_connection x =
     (case connection_completed (wr_state x) of (sends, st) \<Rightarrow>
        x\<lparr> wr_state := st, wr_sends := wr_sends x + sends, wr_connecting := False \<rparr>)"

text \<open>The last rule stands for everything else the library does: it may change the state of the connection in any way, but
  nothing else in the source uses this channel.\<close>

inductive waiting_step :: "'c channel_ops \<Rightarrow> ('c, 'h) waiting_room \<Rightarrow> ('c, 'h) waiting_room \<Rightarrow> bool" for ops where
  call: "waiting_step ops x (after_start (WaitsInSendMessage message) (fst (SendMessageImpl_start ops message (wr_state x))) x)"
| no_reply: "waiting_step ops x (after_start (WaitsInSendMessageNoReply message) (SendMessageNoReplyImpl ops message (wr_state x)) x)"
| completed: "wr_connecting x \<Longrightarrow> waiting_step ops x (complete_connection x)"
| let_go: "wr_sends x = Suc n \<Longrightarrow> wr_blocked x = w # ws \<Longrightarrow>
    waiting_step ops x (resume_waiter ops w (x\<lparr> wr_sends := n, wr_blocked := ws \<rparr>))"
| other: "waiting_step ops x (x\<lparr> wr_state := st \<rparr>)"

lemma after_start_fields [simp]:
  "wr_sends (after_start w out x) = wr_sends x" "wr_connecting (after_start w out x) = wr_connecting x"
  "wr_events (after_start w out x) = wr_events x"
  by (simp_all add: after_start_def split: prod.split)

lemma resume_waiter_fields [simp]:
  "wr_blocked (resume_waiter ops w x) = wr_blocked x" "wr_sends (resume_waiter ops w x) = wr_sends x"
  "wr_waited (resume_waiter ops w x) = wr_waited x" "wr_connecting (resume_waiter ops w x) = wr_connecting x"
  by (simp_all add: resume_waiter_def split: prod.split)

text \<open>One coroutine has been let go at most, and the sends that are left make up the difference.\<close>

definition waiting_inv :: "('c, 'h) waiting_room \<Rightarrow> bool" where
  "waiting_inv x \<longleftrightarrow> (\<exists>k \<le> length (wr_waited x). wr_blocked x = drop k (wr_waited x) \<and>
     wr_sends x + k \<le> (if wr_connecting x then 0 else 1))"

lemma after_start_inv:
  assumes "waiting_inv x" shows "waiting_inv (after_start w out x)"
proof -
  obtain k where "k \<le> length (wr_waited x)" "wr_blocked x = drop k (wr_waited x)"
      "wr_sends x + k \<le> (if wr_connecting x then 0 else 1)"
    using assms by (auto simp: waiting_inv_def)
  then show ?thesis unfolding waiting_inv_def after_start_fields
    by (intro exI [of _ k]) (auto simp: after_start_def split: prod.split)
qed

lemma waiting_inv_step: "waiting_step ops x y \<Longrightarrow> waiting_inv x \<Longrightarrow> waiting_inv y"
proof (induction rule: waiting_step.induct)
  case (call x message)
  then show ?case by (intro after_start_inv)
next
  case (no_reply x message)
  then show ?case by (intro after_start_inv)
next
  case (completed x)
  then show ?case by (auto simp: waiting_inv_def complete_connection_def connection_completed_def)
next
  case (let_go x n w ws)
  then obtain k where k: "wr_blocked x = drop k (wr_waited x)" "wr_sends x + k \<le> (if wr_connecting x then 0 else 1)"
    by (auto simp: waiting_inv_def)
  have "Suc k \<le> length (wr_waited x)" using k(1) let_go(2) by (metis Suc_leI drop_all linorder_not_less list.distinct(1))
  moreover have "ws = drop (Suc k) (wr_waited x)" using k(1) let_go(2) by (metis drop_Suc list.sel(3) tl_drop)
  ultimately show ?case using k(2) let_go(1) by (auto simp: waiting_inv_def intro!: exI [of _ "Suc k"])
next
  case (other x st)
  then show ?case by (simp add: waiting_inv_def)
qed

text \<open>C35: Of the coroutines that began to wait for the connection only the first is ever let go, once the connection has completed; all
  others stay blocked, whatever is done with the connection then, by them or anybody else. The documentation says that what was
  sent before is processed once the connection is established.\<close>

theorem waiters_stay_blocked:
  assumes "(waiting_step ops)\<^sup>*\<^sup>* (start_waiting st) x"
  shows "wr_blocked x = wr_waited x \<or> \<not> wr_connecting x \<and> wr_waited x \<noteq> [] \<and> wr_blocked x = tl (wr_waited x)"
proof -
  have "waiting_inv x"
    using assms
  proof (induction rule: rtranclp_induct)
    case base
    show ?case by (simp add: waiting_inv_def start_waiting_def)
  next
    case (step y z)
    then show ?case using waiting_inv_step by blast
  qed
  then obtain k where k: "k \<le> length (wr_waited x)" "wr_blocked x = drop k (wr_waited x)"
      "wr_sends x + k \<le> (if wr_connecting x then 0 else 1)"
    by (auto simp: waiting_inv_def)
  then consider "k = 0" | "k = 1" "\<not> wr_connecting x" by (auto split: if_splits) linarith
  then show ?thesis using k by cases (auto simp: drop_Suc)
qed

theorem waiters_stay_blocked_witness:
  "\<exists>x. (waiting_step list_channel)\<^sup>*\<^sup>* (start_waiting example_connection) x \<and> st_connectionReady (wr_state x) \<and> wr_sends x = 0 \<and>
     wr_blocked x = [WaitsInSendMessageNoReply example_call]"
proof -
  have new: "\<not> st_connectionReady example_connection" "st_nrOfWaiters example_connection = 0"
    by (simp_all add: new_connection_def)
  let ?w1 = "WaitsInSendMessage example_call" and ?w2 = "WaitsInSendMessageNoReply example_call"
  define x0 where "x0 = start_waiting example_connection"
  define x1 where "x1 = after_start ?w1 (fst (SendMessageImpl_start list_channel example_call (wr_state x0))) x0"
  define x2 where "x2 = after_start ?w2 (SendMessageNoReplyImpl list_channel example_call (wr_state x1)) x1"
  define x3 where "x3 = complete_connection x2"
  define x4 where "x4 = resume_waiter list_channel ?w1 (x3\<lparr> wr_sends := 0, wr_blocked := [?w2] \<rparr>)"
  define x5 where "x5 = x4\<lparr> wr_state := example_connection\<lparr> st_connectionReady := True \<rparr> \<rparr>"
  have x2: "wr_blocked x2 = [?w1, ?w2]" "wr_waited x2 = [?w1, ?w2]" "wr_sends x2 = 0" "wr_connecting x2" "st_nrOfWaiters (wr_state x2) = 2"
    by (simp_all add: x2_def x1_def x0_def after_start_def start_waiting_def SendMessageImpl_start_def SendMessageNoReplyImpl_def new)
  have x3: "wr_blocked x3 = [?w1, ?w2]" "wr_waited x3 = [?w1, ?w2]" "wr_sends x3 = Suc 0"
    using x2 by (simp_all add: x3_def complete_connection_def connection_completed_def)
  have "waiting_step list_channel x0 x1" unfolding x1_def by (rule waiting_step.call)
  moreover have "waiting_step list_channel x1 x2" unfolding x2_def by (rule waiting_step.no_reply)
  moreover have "waiting_step list_channel x2 x3" unfolding x3_def by (rule waiting_step.completed [OF x2(4)])
  moreover have "waiting_step list_channel x3 x4" unfolding x4_def by (rule waiting_step.let_go [OF x3(3,1)])
  moreover have "waiting_step list_channel x4 x5" unfolding x5_def by (rule waiting_step.other)
  ultimately have run: "(waiting_step list_channel)\<^sup>*\<^sup>* x0 x5" by (meson rtranclp.rtrancl_into_rtrancl rtranclp.rtrancl_refl)
  have "wr_blocked x5 = wr_waited x5 \<or> \<not> wr_connecting x5 \<and> wr_waited x5 \<noteq> [] \<and> wr_blocked x5 = tl (wr_waited x5)"
    by (rule waiters_stay_blocked [OF run [unfolded x0_def]])
  moreover have "wr_waited x5 = [?w1, ?w2]" "wr_sends x5 = 0" "length (wr_blocked x5) = 1" "st_connectionReady (wr_state x5)"
    using x3 by (simp_all add: x5_def x4_def)
  ultimately show ?thesis using run unfolding x0_def by (intro exI [of _ x5]) auto
qed

text \<open>A message that expects no reply is refused by \<^verbatim>\<open>SendMessage\<close> before anything is sent; \<^verbatim>\<open>SendMessageSync\<close> sends
  it, also on a connection that is not ready, and then throws an internal error.\<close>

theorem sync_send_unchecked:
  assumes "message_ok message" and "message_small message" and "\<not> ExpectsReply message"
  shows "\<exists>t. SendMessageSync_start ops message st =
      (([Sent (message_bytes message (st_serial st))], st\<lparr> st_serial := st_serial st + 1 \<rparr>, Inr ()), Some t) \<and>
    SendMessageSync_finish junk n ops t st' = Some (st', Inl InternalError) \<and>
    (st_connectionReady st \<longrightarrow> SendMessageImpl_start ops message st = (([], st, Inl RuntimeError), None))"
proof -
  have "Serialize message (st_serial st) = Inr (message_bytes message (st_serial st))"
    using assms by (intro serialize_message) (simp_all add: message_small_def)
  then show ?thesis
    using assms(3) by (simp add: SendMessageSync_start_def SendMessageInternal_begin_def Let_def SendMessageSync_finish_def
        SendMessageInternal_finish_def reply_or_error_def SendMessageImpl_start_def SendMessageImpl_continue_def)
qed

theorem sync_send_unchecked_witness:
  "\<exists>t. snd (SendMessageSync_start list_channel (DBusMessage_Flag FL_NO_REPLY_EXPECTED example_call) example_connection) = Some t \<and>
     SendMessageSync_finish no_junk 9 list_channel t example_connection = Some (example_connection, Inl InternalError)"
  using sync_send_unchecked [of "DBusMessage_Flag FL_NO_REPLY_EXPECTED example_call" list_channel example_connection no_junk 9 example_connection]
    example_no_reply by auto

section \<open>Closing\<close>

text \<open>The bus has been called and has answered; the answer to \<^verbatim>\<open>ReleaseName\<close> must be a number, too.\<close>

definition rule_withdrawn :: "bus \<Rightarrow> DBusMatchRule \<Rightarrow> bool" where
  "rule_withdrawn bus rule \<longleftrightarrow> (\<exists>call reply. RemoveMatch_call rule = Inr call \<and> bus call = Inr reply)"

definition name_released :: "(nat \<Rightarrow> nat \<Rightarrow> 8 word) \<Rightarrow> nat \<Rightarrow> bus \<Rightarrow> DBusWellKnownName \<Rightarrow> bool" where
  "name_released junk n bus name \<longleftrightarrow> (\<exists>call reply v. ReleaseName_call name = Inr call \<and> bus call = Inr reply \<and>
     IncomingDBusMessage_Get junk n (TFixed U32) reply = Inr v)"

lemma remove_rule_result:
  assumes "st_matchRules st = info # infos"
  shows "rule_withdrawn bus (mri_rule info) \<Longrightarrow> RemoveMatchRuleImpl bus (mri_rule info) st = Inr (st\<lparr> st_matchRules := infos \<rparr>)"
    and "\<not> rule_withdrawn bus (mri_rule info) \<Longrightarrow> \<exists>e. RemoveMatchRuleImpl bus (mri_rule info) st = Inl e"
  using assms by (cases "RemoveMatch_call (mri_rule info)"; cases "bindE (RemoveMatch_call (mri_rule info)) bus";
      force simp: rule_withdrawn_def RemoveMatchRuleImpl_def)+

lemma remove_rules_result:
  "if \<forall>info \<in> set (st_matchRules st). rule_withdrawn bus (mri_rule info)
   then remove_rules bus (map mri_rule (st_matchRules st)) st = (st\<lparr> st_matchRules := [] \<rparr>, Inr ())
   else \<exists>e infos. remove_rules bus (map mri_rule (st_matchRules st)) st = (st\<lparr> st_matchRules := infos \<rparr>, Inl e)"
proof (induction "st_matchRules st" arbitrary: st)
  case (Cons info infos)
  have e: "st_matchRules st = info # infos" using Cons.hyps(2) by simp
  note IH = Cons.hyps(1) [of "st\<lparr> st_matchRules := infos \<rparr>"]
  show ?case
  proof (cases "rule_withdrawn bus (mri_rule info)")
    case True
    then show ?thesis using IH e remove_rule_result(1) [OF e] by (auto split: if_splits)
  next
    case False
    then obtain err where "RemoveMatchRuleImpl bus (mri_rule info) st = Inl err" using remove_rule_result(2) [OF e] by blast
    then show ?thesis using False e by (auto intro!: exI [of _ "st_matchRules st"])
  qed
qed simp

lemma release_name_result:
  assumes "name \<in> set (st_wellKnownNames st)"
  shows "name_released junk n bus name \<Longrightarrow>
      ReleaseWellKnownNameImpl junk n bus name st = Inr (st\<lparr> st_wellKnownNames := removeAll name (st_wellKnownNames st) \<rparr>)"
    and "\<not> name_released junk n bus name \<Longrightarrow> \<exists>e. ReleaseWellKnownNameImpl junk n bus name st = Inl e"
  using assms by (cases "ReleaseName_call name"; cases "bindE (ReleaseName_call name) bus";
      cases "bindE (bindE (ReleaseName_call name) bus) (IncomingDBusMessage_Get junk n (TFixed U32))";
      force simp: name_released_def ReleaseWellKnownNameImpl_def ReleaseName_before_def ReleaseName_after_def)+

lemma release_names_result:
  "if distinct names \<and> set names \<subseteq> set (st_wellKnownNames st) \<and> (\<forall>name \<in> set names. name_released junk n bus name)
   then release_names junk n bus names st =
     (st\<lparr> st_wellKnownNames := filter (\<lambda>name. name \<notin> set names) (st_wellKnownNames st) \<rparr>, Inr ())
   else \<exists>e left. release_names junk n bus names st = (st\<lparr> st_wellKnownNames := left \<rparr>, Inl e)"
proof (induction names arbitrary: st)
  case (Cons name names)
  let ?st = "st\<lparr> st_wellKnownNames := removeAll name (st_wellKnownNames st) \<rparr>"
  show ?case
  proof (cases "name \<in> set (st_wellKnownNames st) \<and> name_released junk n bus name")
    case True
    then have r: "release_names junk n bus (name # names) st = release_names junk n bus names ?st"
      using release_name_result(1) [of name st junk n bus] by simp
    have f: "filter (\<lambda>x. x \<notin> set names) (removeAll name (st_wellKnownNames st)) =
        filter (\<lambda>x. x \<notin> set (name # names)) (st_wellKnownNames st)"
      by (auto simp: removeAll_filter_not_eq intro: filter_cong)
    show ?thesis
      using Cons.IH [of ?st] True unfolding r by (auto simp: f split: if_splits)
  next
    case False
    then obtain e where "ReleaseWellKnownNameImpl junk n bus name st = Inl e"
      using release_name_result(2) [of name st junk n bus]
      by (cases "name \<in> set (st_wellKnownNames st)") (auto simp: ReleaseWellKnownNameImpl_def ReleaseName_before_def)
    then show ?thesis using False by (auto intro!: exI [of _ "st_wellKnownNames st"])
  qed
qed simp

text \<open>C21: Closing a ready connection returns normally exactly when the bus has answered a \<^verbatim>\<open>RemoveMatch\<close> call for every rule and a
  \<^verbatim>\<open>ReleaseName\<close> call for every name, which must be recorded once each. Then no rule and no name is left, the handlers of paths and the
  receivers are cleared, the message filters stay, the socket is closed, and closing again does nothing.
  Otherwise it does not return normally: an exception, or a call that is never answered, leaves the socket open and the connection
  ready. (A rule that was added twice is recorded once, and one
  \<^verbatim>\<open>RemoveMatch\<close> is sent for it.)\<close>

theorem close_withdraws_everything:
  assumes "st_socketOpen st" and "st_connectionReady st"
  shows "if (\<forall>info \<in> set (st_matchRules st). rule_withdrawn bus (mri_rule info)) \<and> distinct (st_wellKnownNames st) \<and>
      (\<forall>name \<in> set (st_wellKnownNames st). name_released junk n bus name)
    then \<exists>st'. CloseImpl junk n bus st = (st', Inr ()) \<and>
      st_matchRules st' = [] \<and> st_wellKnownNames st' = [] \<and> st_objectPathHandlers st' = Map.empty \<and>
      st_onIncomingSignal st' = [] \<and> \<not> st_socketOpen st' \<and> \<not> st_connectionReady st' \<and> st_shouldQuit st' \<and>
      st_messageFilters st' = st_messageFilters st \<and> CloseImpl junk n bus st' = (st', Inr ())
    else \<exists>st' e. CloseImpl junk n bus st = (st', Inl e) \<and> st_socketOpen st' \<and> st_connectionReady st'"
proof (cases "\<forall>info \<in> set (st_matchRules st). rule_withdrawn bus (mri_rule info)")
  case True
  let ?st = "st\<lparr> st_matchRules := [] \<rparr>"
  have "remove_rules bus (map mri_rule (st_matchRules st)) st = (?st, Inr ())" using remove_rules_result [of st bus] True by simp
  then show ?thesis
    using release_names_result [of "st_wellKnownNames st" ?st junk n bus] assms True
    by (auto simp: CloseImpl_def CloseData_def split: if_splits)
next
  case False
  then obtain e infos where "remove_rules bus (map mri_rule (st_matchRules st)) st = (st\<lparr> st_matchRules := infos \<rparr>, Inl e)"
    using remove_rules_result [of st bus] by (auto split: if_splits)
  then show ?thesis using assms False by (auto simp: CloseImpl_def)
qed

definition named_connection :: "DBusWellKnownName list \<Rightarrow> (IncomingDBusMessage list, string) InternalState" where
  "named_connection names = example_connection
     \<lparr> st_socketOpen := True, st_connectionReady := True, st_wellKnownNames := names \<rparr>"

lemma example_release: "\<exists>m. ReleaseName_call (MkWellKnownName ''org.a'') = Inr m"
proof -
  have "\<not> isl (MarshalDBusType (VString StdString ''org.a''))" by code_simp
  then show ?thesis
    by (cases "MarshalDBusType (VString StdString ''org.a'')") (simp_all add: ReleaseName_call_def bus_method_simp DBusMessage_Parameter_def)
qed

lemma example_released: "name_released no_junk 9 (daemon example_header '':1.5'' 1) (MkWellKnownName ''org.a'')"
proof -
  obtain m where m: "ReleaseName_call (MkWellKnownName ''org.a'') = Inr m" using example_release by blast
  then show ?thesis using daemon_answers(2) [OF m] by (simp add: name_released_def code_reply_read)
qed

theorem close_withdraws_everything_witness:
  "\<exists>st'. CloseImpl no_junk 9 (daemon example_header '':1.5'' 1) (named_connection [MkWellKnownName ''org.a'']) = (st', Inr ()) \<and>
     st_wellKnownNames st' = [] \<and> \<not> st_socketOpen st'"
  using close_withdraws_everything [of "named_connection [MkWellKnownName ''org.a'']" "daemon example_header '':1.5'' 1" no_junk 9]
    example_released
  by (auto simp: named_connection_def new_connection_def)

lemma release_twice_fails:
  assumes "st_socketOpen st" and "st_connectionReady st" and "4 < n" and "st_matchRules st = []"
    and "st_wellKnownNames st = [name, name]" and "ReleaseName_call name = Inr m"
  shows "CloseImpl junk n (daemon header u w) st = (st\<lparr> st_wellKnownNames := [] \<rparr>, Inl RuntimeError)"
proof -
  have "ReleaseWellKnownNameImpl junk n (daemon header u w) name st = Inr (st\<lparr> st_wellKnownNames := [] \<rparr>)"
    using assms by (simp add: ReleaseWellKnownNameImpl_def ReleaseName_before_def ReleaseName_after_def
        daemon_answers(2) [OF assms(6)] code_reply_read)
  moreover have "ReleaseWellKnownNameImpl junk n (daemon header u w) name (st\<lparr> st_wellKnownNames := [] \<rparr>) = Inl RuntimeError"
    by (simp add: ReleaseWellKnownNameImpl_def ReleaseName_before_def)
  ultimately show ?thesis using assms(1,2,4,5) by (simp add: CloseImpl_def)
qed

text \<open>A name recorded twice, as by requests that overlap, makes closing fail: after the first release the name is
  gone, the second one throws, and the socket stays open with the connection ready.\<close>

theorem duplicate_name_prevents_close:
  assumes "st_socketOpen st" and "st_connectionReady st" and "4 < n" and "st_matchRules st = []"
    and "st_wellKnownNames st = [name, name]" and "ReleaseName_call name = Inr m"
  shows "CloseImpl junk n (daemon header u w) st = (st\<lparr> st_wellKnownNames := [] \<rparr>, Inl RuntimeError)"
  using assms by (rule release_twice_fails)

theorem duplicate_name_prevents_close_witness:
  "CloseImpl no_junk 9 (daemon example_header '':1.5'' 1) (named_connection [MkWellKnownName ''org.a'', MkWellKnownName ''org.a'']) =
     (named_connection [], Inl RuntimeError)"
proof -
  obtain m where "ReleaseName_call (MkWellKnownName ''org.a'') = Inr m" using example_release by blast
  from duplicate_name_prevents_close [OF _ _ _ _ _ this, of "named_connection [MkWellKnownName ''org.a'', MkWellKnownName ''org.a'']"
      9 no_junk example_header "'':1.5''" 1]
  show ?thesis by (simp add: named_connection_def new_connection_def)
qed

text \<open>When the daemon is lost, the connection becomes unusable without a call to the bus, its rules and names stay
  recorded, and the user's disconnect callbacks run, unless the user was closing it already.\<close>

theorem connection_lost_closes:
  "HandleConnectionLost junk n bus st =
     (if st_shouldQuit st then (False, st)
      else if st_socketOpen st then (True, CloseData (st\<lparr> st_connectionReady := False \<rparr>))
      else (True, st\<lparr> st_connectionReady := False \<rparr>)) \<and>
   st_matchRules (snd (HandleConnectionLost junk n bus st)) = st_matchRules st \<and>
   st_wellKnownNames (snd (HandleConnectionLost junk n bus st)) = st_wellKnownNames st"
  by (simp add: HandleConnectionLost_def CloseImpl_def CloseData_def)

section \<open>Closing and the read loop\<close>

text \<open>
  \<^verbatim>\<open>CloseData\<close> closes the socket and then waits on \<^verbatim>\<open>readLoopFinished\<close>, which the read loop sends to when it ends:
  because the socket is closed, or because the daemon is lost. \<^verbatim>\<open>Connect\<close> starts the loop on the open socket,
  once the authentication has succeeded.
\<close>

datatype loop_status = NotStarted | Running | Ended
datatype close_status = NotClosing | AwaitingLoop | Closed

record shutdown =
  sd_socketOpen :: bool
  sd_loop :: loop_status
  sd_close :: close_status

inductive shutdown_step :: "shutdown \<Rightarrow> shutdown \<Rightarrow> bool" where
  start: "sd_socketOpen x \<Longrightarrow> sd_loop x = NotStarted \<Longrightarrow> shutdown_step x (x\<lparr> sd_loop := Running \<rparr>)"
| lost: "sd_loop x = Running \<Longrightarrow> shutdown_step x (x\<lparr> sd_loop := Ended \<rparr>)"
| close: "sd_socketOpen x \<Longrightarrow> sd_close x = NotClosing \<Longrightarrow>
    shutdown_step x (x\<lparr> sd_socketOpen := False, sd_close := AwaitingLoop \<rparr>)"
| finish: "sd_close x = AwaitingLoop \<Longrightarrow> sd_loop x = Ended \<Longrightarrow> shutdown_step x (x\<lparr> sd_close := Closed \<rparr>)"

inductive_cases shutdown_stepE: "shutdown_step x y"

text \<open>A coroutine that closes the connection can come to its end exactly when the read loop has been started: after
  a failed authentication nobody sends on the channel it waits for, and closing never returns.\<close>

theorem close_returns_iff_loop_started:
  assumes "sd_close x = AwaitingLoop" and "\<not> sd_socketOpen x"
  shows "(\<exists>y. shutdown_step\<^sup>*\<^sup>* x y \<and> sd_close y = Closed) \<longleftrightarrow> sd_loop x \<noteq> NotStarted"
proof
  assume "sd_loop x \<noteq> NotStarted"
  define z where "z = x\<lparr> sd_loop := Ended \<rparr>"
  have "shutdown_step\<^sup>*\<^sup>* x z"
  proof (cases "sd_loop x")
    case Running
    then show ?thesis unfolding z_def by (intro r_into_rtranclp shutdown_step.lost)
  next
    case Ended
    then have "z = x" unfolding z_def by (cases x) simp
    then show ?thesis by simp
  qed (use \<open>sd_loop x \<noteq> NotStarted\<close> in simp)
  moreover have "shutdown_step z (z\<lparr> sd_close := Closed \<rparr>)"
    by (rule shutdown_step.finish) (simp_all add: z_def assms(1))
  ultimately have "shutdown_step\<^sup>*\<^sup>* x (z\<lparr> sd_close := Closed \<rparr>)" by (rule rtranclp.rtrancl_into_rtrancl)
  then show "\<exists>y. shutdown_step\<^sup>*\<^sup>* x y \<and> sd_close y = Closed"
    by (intro exI [of _ "z\<lparr> sd_close := Closed \<rparr>"]) simp
next
  assume "\<exists>y. shutdown_step\<^sup>*\<^sup>* x y \<and> sd_close y = Closed"
  then obtain y where y: "shutdown_step\<^sup>*\<^sup>* x y" "sd_close y = Closed" by blast
  show "sd_loop x \<noteq> NotStarted"
  proof
    assume n: "sd_loop x = NotStarted"
    have "sd_loop y = NotStarted \<and> \<not> sd_socketOpen y \<and> sd_close y = AwaitingLoop"
      using y(1) by (induction rule: rtranclp_induct) (auto simp: n assms elim!: shutdown_stepE)
    then show False using y(2) by simp
  qed
qed

theorem close_returns_iff_loop_started_witness:
  "\<not> (\<exists>y. shutdown_step\<^sup>*\<^sup>* \<lparr> sd_socketOpen = False, sd_loop = NotStarted, sd_close = AwaitingLoop \<rparr> y \<and> sd_close y = Closed) \<and>
   (\<exists>y. shutdown_step\<^sup>*\<^sup>* \<lparr> sd_socketOpen = False, sd_loop = Running, sd_close = AwaitingLoop \<rparr> y \<and> sd_close y = Closed)"
  using close_returns_iff_loop_started [of "\<lparr> sd_socketOpen = False, sd_loop = NotStarted, sd_close = AwaitingLoop \<rparr>"]
    close_returns_iff_loop_started [of "\<lparr> sd_socketOpen = False, sd_loop = Running, sd_close = AwaitingLoop \<rparr>"]
  by simp

end
