(* ===== verification/Sync.thy ===== *)
theory Sync
  imports Threads Lifecycle
begin

text \<open>
  The multi-threaded connection of \<^verbatim>\<open>src/src/DBusConnection.txx\<close> as its user's threads see it: \<^verbatim>\<open>WaitOnAsyncWork\<close>
  and the functions that block on it, the creation of a connection, \<^verbatim>\<open>CloseSync\<close>, the destructor, and the
  callbacks for a lost connection. The strand's work is done by one thread, the connection's IO thread.
\<close>

section \<open>Blocking on the strand\<close>

datatype thread_id = IOThread | UserThread nat

text \<open>The work is spawned on the strand and the caller waits for its end. A thread other than the IO thread gets what the
  coroutine returned or threw, if it ends; the IO thread waits for itself. The strand is a null
  pointer for the single-threaded connection, which must not call these functions.\<close>

definition WaitOnAsyncWork :: "thread_id \<Rightarrow> ('s \<Rightarrow> 's \<times> 'a result) \<Rightarrow> 's \<Rightarrow> ('s \<times> 'a result) option" where
  "WaitOnAsyncWork caller work st =
     (if caller = IOThread then None
      else (case work st of
          (st', Inl e) \<Rightarrow> if endless e then None else Some (st', Inl e)
        | (st', Inr r) \<Rightarrow> Some (st', Inr r)))"

definition coroutine :: "('s \<Rightarrow> 's result) \<Rightarrow> 's \<Rightarrow> 's \<times> unit result" where
  "coroutine f st = (case f st of Inl e \<Rightarrow> (st, Inl e) | Inr st' \<Rightarrow> (st', Inr ()))"

definition AddMatchRuleSync ::
    "thread_id \<Rightarrow> bus \<Rightarrow> DBusMatchRule \<Rightarrow> 'h \<Rightarrow> ('c, 'h) InternalState \<Rightarrow> (('c, 'h) InternalState \<times> unit result) option" where
  "AddMatchRuleSync caller bus rule cb = WaitOnAsyncWork caller (coroutine (AddMatchRuleImpl bus rule (User cb) True))"

definition RemoveMatchRuleSync ::
    "thread_id \<Rightarrow> bus \<Rightarrow> DBusMatchRule \<Rightarrow> ('c, 'h) InternalState \<Rightarrow> (('c, 'h) InternalState \<times> unit result) option" where
  "RemoveMatchRuleSync caller bus rule = WaitOnAsyncWork caller (coroutine (RemoveMatchRuleImpl bus rule))"

definition RegisterObjectPathHandlerSync ::
    "thread_id \<Rightarrow> ObjectPath \<Rightarrow> 'h \<Rightarrow> ('c, 'h) InternalState \<Rightarrow> (('c, 'h) InternalState \<times> unit result) option" where
  "RegisterObjectPathHandlerSync caller path cb =
     WaitOnAsyncWork caller (\<lambda>st. (RegisterObjectPathHandlerImpl path cb st, Inr ()))"

definition UnregisterObjectPathHandlerSync ::
    "thread_id \<Rightarrow> ObjectPath \<Rightarrow> ('c, 'h) InternalState \<Rightarrow> (('c, 'h) InternalState \<times> unit result) option" where
  "UnregisterObjectPathHandlerSync caller path =
     WaitOnAsyncWork caller (\<lambda>st. (UnregisterObjectPathHandlerImpl path st, Inr ()))"

definition RequestWellKnownNameSync ::
    "thread_id \<Rightarrow> (nat \<Rightarrow> nat \<Rightarrow> 8 word) \<Rightarrow> nat \<Rightarrow> bus \<Rightarrow> DBusWellKnownName \<Rightarrow> 8 word \<Rightarrow> ('c, 'h) InternalState \<Rightarrow>
     (('c, 'h) InternalState \<times> unit result) option" where
  "RequestWellKnownNameSync caller junk n bus name flags =
     WaitOnAsyncWork caller (coroutine (RequestWellKnownNameImpl junk n bus name flags))"

definition ReleaseWellKnownNameSync ::
    "thread_id \<Rightarrow> (nat \<Rightarrow> nat \<Rightarrow> 8 word) \<Rightarrow> nat \<Rightarrow> bus \<Rightarrow> DBusWellKnownName \<Rightarrow> ('c, 'h) InternalState \<Rightarrow>
     (('c, 'h) InternalState \<times> unit result) option" where
  "ReleaseWellKnownNameSync caller junk n bus name =
     WaitOnAsyncWork caller (coroutine (ReleaseWellKnownNameImpl junk n bus name))"

text \<open>A synchronous registration undoes itself: after a handler of a path, or a rule that was not there, has been added and
  removed again from a user's thread, with a bus that answers, the connection is as before; on the IO thread neither returns.\<close>

theorem sync_registration_undone:
  assumes "caller \<noteq> IOThread" and "st_objectPathHandlers st (GetPath path) = None"
    and "rule \<notin> mri_rule ` set (st_matchRules st)" and "\<not> isl (bindE (AddMatch_call rule) bus)" and "\<not> isl (bindE (RemoveMatch_call rule) bus)"
  shows "Option.bind (RegisterObjectPathHandlerSync caller path cb st) (\<lambda>(st1, _). UnregisterObjectPathHandlerSync caller path st1) = Some (st, Inr ())"
    and "Option.bind (AddMatchRuleSync caller bus rule cb st) (\<lambda>(st1, _). RemoveMatchRuleSync caller bus rule st1) = Some (st, Inr ())"
    and "RegisterObjectPathHandlerSync IOThread path cb st = None \<and> AddMatchRuleSync IOThread bus rule cb st = None"
proof -
  have "(st_objectPathHandlers st)(GetPath path := None) = st_objectPathHandlers st" using assms(2) by (simp add: fun_upd_idem)
  then show "Option.bind (RegisterObjectPathHandlerSync caller path cb st) (\<lambda>(st1, _). UnregisterObjectPathHandlerSync caller path st1) = Some (st, Inr ())"
    using assms(1,2) by (simp add: RegisterObjectPathHandlerSync_def UnregisterObjectPathHandlerSync_def WaitOnAsyncWork_def
        RegisterObjectPathHandlerImpl_def UnregisterObjectPathHandlerImpl_def)
  have "erase_rule rule (add_rule rule c b rules) = rules" if "rule \<notin> mri_rule ` set rules" for rules :: "'d MatchRuleInfo list" and c b
    using that by (induction rules) auto
  then have "erase_rule rule (add_rule rule (User cb) True (st_matchRules st)) = st_matchRules st" using assms(3) .
  moreover obtain m r where "AddMatch_call rule = Inr m" "bus m = Inr r"
    using assms(4) by (cases "AddMatch_call rule") (auto simp: isl_def split: sum.splits, metis sum.exhaust)
  moreover obtain m' r' where "RemoveMatch_call rule = Inr m'" "bus m' = Inr r'"
    using assms(5) by (cases "RemoveMatch_call rule") (auto simp: isl_def split: sum.splits, metis sum.exhaust)
  ultimately show "Option.bind (AddMatchRuleSync caller bus rule cb st) (\<lambda>(st1, _). RemoveMatchRuleSync caller bus rule st1) = Some (st, Inr ())"
    using assms(1) by (simp add: AddMatchRuleSync_def RemoveMatchRuleSync_def WaitOnAsyncWork_def coroutine_def
        AddMatchRuleImpl_def RemoveMatchRuleImpl_def)
  show "RegisterObjectPathHandlerSync IOThread path cb st = None \<and> AddMatchRuleSync IOThread bus rule cb st = None"
    by (simp add: RegisterObjectPathHandlerSync_def AddMatchRuleSync_def WaitOnAsyncWork_def)
qed

lemma example_rule_calls: "\<not> isl (AddMatch_call example_criteria)" "\<not> isl (RemoveMatch_call example_criteria)"
  by code_simp+

theorem sync_registration_undone_witness:
  "Option.bind (AddMatchRuleSync (UserThread 0) (\<lambda>_. Inr example_incoming) example_criteria ''cb'' example_connection)
     (\<lambda>(st, _). RemoveMatchRuleSync (UserThread 0) (\<lambda>_. Inr example_incoming) example_criteria st) = Some (example_connection, Inr ())"
proof (rule sync_registration_undone(2) [where path = "MkObjectPath ''/a''"])
  show "\<not> isl (bindE (AddMatch_call example_criteria) (\<lambda>_. Inr example_incoming))"
    using example_rule_calls(1) by (cases "AddMatch_call example_criteria") simp_all
  show "\<not> isl (bindE (RemoveMatch_call example_criteria) (\<lambda>_. Inr example_incoming))"
    using example_rule_calls(2) by (cases "RemoveMatch_call example_criteria") simp_all
qed (simp_all add: new_connection_def)

section \<open>Creating and closing\<close>

text \<open>The object with what the lifetime of the connection needs: whether there is a strand with its thread, whether
  that thread can still be joined, whether the read loop was started, and the callbacks for a lost connection.\<close>

record ('c, 'h) connection =
  cn_state :: "('c, 'h) InternalState"
  cn_strand :: bool
  cn_joinable :: bool
  cn_loopStarted :: bool
  cn_onDisconnected :: "'h list"
  cn_shutdown :: bool

definition DBusConnectionImpl :: "bool \<Rightarrow> 'c channel_ops \<Rightarrow> DBusWellKnownName option \<Rightarrow> ('c, 'h) connection" where
  "DBusConnectionImpl singleThreaded ops wellKnownName =
     \<lparr> cn_state = new_connection ops wellKnownName, cn_strand = (\<not> singleThreaded), cn_joinable = (\<not> singleThreaded),
       cn_loopStarted = False, cn_onDisconnected = [], cn_shutdown = False \<rparr>"

text \<open>\<^verbatim>\<open>Connect\<close> starts the read loop between the authentication and the handshake.\<close>

definition connect_object ::
    "(string \<Rightarrow> string option) \<Rightarrow> BusType \<Rightarrow> nat \<Rightarrow> string result \<Rightarrow> (nat \<Rightarrow> nat \<Rightarrow> 8 word) \<Rightarrow> nat \<Rightarrow> bus \<Rightarrow>
     ('c, 'h) connection \<Rightarrow> ('c, 'h) connection \<times> unit result" where
  "connect_object getenv busType uid reply junk n bus conn =
     (case Connect getenv busType uid reply junk n bus (cn_state conn) of
        (_, _, st, res) \<Rightarrow> (conn\<lparr> cn_state := st,
          cn_loopStarted := (\<not> isl (connect_endpoint getenv busType) \<and> \<not> isl (snd (AuthenticateDBusConnectionImpl uid reply))) \<rparr>, res))"

text \<open>How a call of a user's thread ends: with an object and a result, in \<^verbatim>\<open>std::terminate\<close>, or not at all.\<close>

datatype 's ended = Ended 's "unit result" | Terminated | NeverReturns

definition CloseSync ::
    "thread_id \<Rightarrow> (nat \<Rightarrow> nat \<Rightarrow> 8 word) \<Rightarrow> nat \<Rightarrow> bus \<Rightarrow> ('c, 'h) connection \<Rightarrow> ('c, 'h) connection ended" where
  "CloseSync caller junk n bus conn =
     (if \<not> cn_strand conn then Ended conn (Inr ())
      else if caller = IOThread then Ended conn (Inl LogicError)
      else if \<not> cn_joinable conn then Ended conn (Inr ())
      else (case CloseImpl junk n bus (cn_state conn) of
          (st, Inl e) \<Rightarrow> if endless e then NeverReturns else Ended (conn\<lparr> cn_state := st \<rparr>) (Inl e)
        | (st, Inr _) \<Rightarrow>
            if st_socketOpen (cn_state conn) \<and> \<not> cn_loopStarted conn then NeverReturns
            else Ended (conn\<lparr> cn_state := st, cn_joinable := False \<rparr>) (Inr ())))"

text \<open>
  The destructor. With one thread it spawns \<^verbatim>\<open>Close()\<close>, a coroutine that goes on with the object after its destruction: even if
  it starts at once it is suspended in the first call to the bus, when there is a rule or a name to withdraw, and then uses the destroyed object.
  With several threads it calls \<^verbatim>\<open>CloseSync\<close>, and an exception ends the program, because destructors are \<^verbatim>\<open>noexcept\<close>.
\<close>

definition destroy ::
    "thread_id \<Rightarrow> (nat \<Rightarrow> nat \<Rightarrow> 8 word) \<Rightarrow> nat \<Rightarrow> bus \<Rightarrow> ('c, 'h) connection \<Rightarrow> ('c, 'h) connection ended" where
  "destroy caller junk n bus conn =
     (if \<not> cn_strand conn
      then let st = cn_state conn in
        if st_socketOpen st \<and> st_connectionReady st \<and> (st_matchRules st \<noteq> [] \<or> st_wellKnownNames st \<noteq> [])
        then Ended conn (Inl UndefinedBehaviour)
        else Ended (conn\<lparr> cn_state := fst (CloseImpl junk n bus st) \<rparr>) (Inr ())
      else (case CloseSync caller junk n bus conn of Ended conn' (Inl e) \<Rightarrow> Terminated | r \<Rightarrow> r))"

text \<open>\<^verbatim>\<open>CreateSync\<close> of the multi-threaded connection; an exception destroys the object on its way. It waits as long as
  \<^verbatim>\<open>Connect\<close> does.\<close>

definition CreateSync ::
    "(string \<Rightarrow> string option) \<Rightarrow> BusType \<Rightarrow> nat \<Rightarrow> string result \<Rightarrow> (nat \<Rightarrow> nat \<Rightarrow> 8 word) \<Rightarrow> nat \<Rightarrow> bus \<Rightarrow>
     nat \<Rightarrow> 'c channel_ops \<Rightarrow> DBusWellKnownName option \<Rightarrow> ('c, 'h) connection ended" where
  "CreateSync getenv busType uid reply junk n bus caller ops wellKnownName =
     (case connect_object getenv busType uid reply junk n bus (DBusConnectionImpl False ops wellKnownName) of
        (conn, Inr _) \<Rightarrow> Ended conn (Inr ())
      | (conn, Inl e) \<Rightarrow>
          if endless e then NeverReturns
          else (case destroy (UserThread caller) junk n bus conn of Ended conn' _ \<Rightarrow> Ended conn' (Inl e) | r \<Rightarrow> r))"

text \<open>\<^verbatim>\<open>Create\<close> is a coroutine of the user's context; an exception destroys the object there.
  \<^verbatim>\<open>CreateDetached\<close> hands the object out at once; the completion handler of \<^verbatim>\<open>Connect\<close> posts the user's callback or throws
  again, out of the function of the IO thread or out of the user's \<^verbatim>\<open>run\<close>; it is not called while the daemon does not answer.\<close>

definition Create ::
    "(string \<Rightarrow> string option) \<Rightarrow> BusType \<Rightarrow> nat \<Rightarrow> string result \<Rightarrow> (nat \<Rightarrow> nat \<Rightarrow> 8 word) \<Rightarrow> nat \<Rightarrow> bus \<Rightarrow>
     bool \<Rightarrow> nat \<Rightarrow> 'c channel_ops \<Rightarrow> DBusWellKnownName option \<Rightarrow> ('c, 'h) connection ended" where
  "Create getenv busType uid reply junk n bus singleThreaded caller ops wellKnownName =
     (case connect_object getenv busType uid reply junk n bus (DBusConnectionImpl singleThreaded ops wellKnownName) of
        (conn, Inr _) \<Rightarrow> Ended conn (Inr ())
      | (conn, Inl e) \<Rightarrow>
          if endless e then NeverReturns
          else (case destroy (UserThread caller) junk n bus conn of
              Ended conn' (Inr _) \<Rightarrow> Ended conn' (Inl e)
            | r \<Rightarrow> r))"

lemma Create_sync:
  "Create getenv busType uid reply junk n bus False caller ops name =
   (CreateSync getenv busType uid reply junk n bus caller ops name :: ('c, 'h) connection ended)"
proof -
  obtain conn res where c: "connect_object getenv busType uid reply junk n bus 
      (DBusConnectionImpl False ops name :: ('c, 'h) connection) = (conn, res)"
    by fastforce
  then have "cn_strand conn" by (auto simp: connect_object_def DBusConnectionImpl_def split: prod.splits)
  then show ?thesis
    by (auto simp: Create_def CreateSync_def c destroy_def split: sum.splits ended.splits)
qed

definition CreateDetached ::
    "(string \<Rightarrow> string option) \<Rightarrow> BusType \<Rightarrow> nat \<Rightarrow> string result \<Rightarrow> (nat \<Rightarrow> nat \<Rightarrow> 8 word) \<Rightarrow> nat \<Rightarrow> bus \<Rightarrow>
     bool \<Rightarrow> 'c channel_ops \<Rightarrow> DBusWellKnownName option \<Rightarrow> 'h option \<Rightarrow> 'h event list \<times> ('c, 'h) connection ended" where
  "CreateDetached getenv busType uid reply junk n bus singleThreaded ops wellKnownName onConnected =
     (case connect_object getenv busType uid reply junk n bus (DBusConnectionImpl singleThreaded ops wellKnownName) of
        (conn, Inl e) \<Rightarrow>
          ([], if endless e then Ended conn (Inr ()) else if singleThreaded then Ended conn (Inl e) else Terminated)
      | (conn, Inr _) \<Rightarrow> (map Called (case onConnected of None \<Rightarrow> [] | Some cb \<Rightarrow> [cb]), Ended conn (Inr ())))"

definition IsConnected :: "('c, 'h) connection \<Rightarrow> bool" where
  "IsConnected conn = st_connectionReady (cn_state conn)"

definition OwnWellKnownNames :: "('c, 'h) connection \<Rightarrow> DBusWellKnownName list" where
  "OwnWellKnownNames conn = st_wellKnownNames (cn_state conn)"

text \<open>A signal of Boost.Signals2 calls its slots in the order in which they were connected.\<close>

definition OnDisconnected :: "'h \<Rightarrow> ('c, 'h) connection \<Rightarrow> ('c, 'h) connection" where
  "OnDisconnected cb conn = conn\<lparr> cn_onDisconnected := cn_onDisconnected conn @ [cb] \<rparr>"

definition SimulateConnectionLoss :: "('c, 'h) connection \<Rightarrow> ('c, 'h) connection" where
  "SimulateConnectionLoss conn = (if st_socketOpen (cn_state conn) then conn\<lparr> cn_shutdown := True \<rparr> else conn)"

text \<open>The end of the read loop on an error of the socket, with what it spawns: the callbacks that are called.\<close>

definition socket_failed ::
    "(nat \<Rightarrow> nat \<Rightarrow> 8 word) \<Rightarrow> nat \<Rightarrow> bus \<Rightarrow> string \<Rightarrow> int \<Rightarrow> ('c, 'h) connection \<Rightarrow> 'h event list \<times> ('c, 'h) connection" where
  "socket_failed junk n bus category code conn =
     (case ReadLoop_catch (st_shouldQuit (cn_state conn)) category code of
        ExitLoop \<Rightarrow> ([], conn)
      | ConnectionLost \<Rightarrow> (let (calls, st) = HandleConnectionLost junk n bus (cn_state conn) in
          (if calls then map Called (cn_onDisconnected conn) else [], conn\<lparr> cn_state := st \<rparr>)))"
lemma connect_endpoint_error: "connect_endpoint getenv busType = Inl e \<Longrightarrow> \<not> endless e"
  by (auto simp: connect_endpoint_def ParseDBusAddress_def bindE_Inl_iff Let_def endless_def split: if_splits option.splits)

text \<open>The daemon that never answers some of the methods, as when it is lost after the call was written: nothing tells the coroutine
  that waits for the reply.\<close>

definition lossy :: "string set \<Rightarrow> bus \<Rightarrow> bus" where
  "lossy lost bus m = (if \<exists>method. m_method m = Some method \<and> method \<in> lost then Inl NoAnswer else bus m)"

lemma lossy_request_names:
  "4 < n \<Longrightarrow> \<forall>name \<in> set names. \<exists>m. RequestName_call name (name_flag_code WKN_NONE) = Inr m \<Longrightarrow>
   request_names junk n (lossy lost (daemon header u w)) names =
     (if names \<noteq> [] \<and> ''RequestName'' \<in> lost then Inl NoAnswer else Inr ())"
proof (induction names)
  case (Cons name names)
  then obtain m where m: "RequestName_call name (name_flag_code WKN_NONE) = Inr m" by auto
  then show ?case
    using Cons daemon_answers(1) [OF m] call_methods(1) [OF m] by (simp add: lossy_def code_reply_read del: name_flag_code.simps)
qed simp

lemma lossy_handshake:
  assumes u: "make_DBusUniqueConnectionName u = Inr unique" "plain u"
    and n: "4 < n" "length (wires GA GA [VString StdString u] 0) < n" "length (wires GA GA [VString StdString u] 0) < 67108864"
    and names: "\<forall>name \<in> set (st_wellKnownNames st). \<exists>m. RequestName_call name (name_flag_code WKN_NONE) = Inr m"
  shows "snd (snd (Connect_handshake junk n (lossy lost (daemon header u w)) st)) =
    (if ''Hello'' \<in> lost \<or> st_wellKnownNames st \<noteq> [] \<and> ''RequestName'' \<in> lost \<or> ''AddMatch'' \<in> lost
     then Inl NoAnswer else Inr ())"
proof -
  obtain rule m where r: "name_change_rule = Inr rule" "AddMatch_call rule = Inr m" using name_rule_call by blast
  have hello: "bindE Hello_call (\<lambda>m. bindE (lossy lost (daemon header u w) m) (\<lambda>reply.
         bindE (IncomingDBusMessage_Get junk n (TString StdString) reply) (\<lambda>v.
           make_DBusUniqueConnectionName (the_string v)))) = (if ''Hello'' \<in> lost then Inl NoAnswer else Inr unique)"
    using string_reply_read [OF u(2) n(2,3), of junk header] u(1)
    by (simp add: Hello_call_def bus_method_simp daemon_def lossy_def)
  have subscribed: "SubscribeToNameChanges (lossy lost (daemon header u w)) st' =
      (if ''AddMatch'' \<in> lost then Inl NoAnswer
       else Inr (st'\<lparr> st_matchRules := add_rule rule NameCacheCallback False (st_matchRules st') \<rparr>))"
    for st' :: "('a, 'b) InternalState"
    unfolding SubscribeToNameChanges_def r(1)
    by (simp add: AddMatchRuleImpl_def r(2) lossy_def daemon_answers(3) [OF r(2)] call_methods(3) [OF r(2)])
  show ?thesis
    unfolding Connect_handshake_def hello
    using lossy_request_names [OF n(1) names, of junk lost header u w]
    by (auto simp: connection_completed_def Let_def subscribed)
qed

text \<open>C22: Creating a multi-threaded connection synchronously never returns exactly in these cases: the address could be parsed
  (whether a daemon listens there is not looked at) and the authentication does not succeed, because the daemon refuses it or the
  socket fails, when the destructor waits for a read loop that was never started, or because its line never comes; or the
  daemon never answers one of the calls of the handshake, \<^verbatim>\<open>Hello\<close>, \<^verbatim>\<open>RequestName\<close> if a name is asked for, and
  \<^verbatim>\<open>AddMatch\<close>. (Of the daemon it is assumed that those answers that come are good ones.)\<close>

theorem create_sync_hangs_iff:
  fixes ops :: "'c channel_ops"
  assumes "make_DBusUniqueConnectionName u = Inr unique" and "plain u" and "4 < n"
    and "length (wires GA GA [VString StdString u] 0) < n" and "length (wires GA GA [VString StdString u] 0) < 67108864"
    and "\<forall>name. wellKnownName = Some name \<longrightarrow> (\<exists>m. RequestName_call name (name_flag_code WKN_NONE) = Inr m)"
  shows "CreateSync getenv busType uid reply junk n (lossy lost (daemon header u w)) caller ops wellKnownName =
      (NeverReturns :: ('c, 'h) connection ended) \<longleftrightarrow>
    \<not> isl (connect_endpoint getenv busType) \<and>
    (\<not> (\<exists>line. reply = Inr line \<and> prefix ''OK'' line) \<or>
     ''Hello'' \<in> lost \<or> wellKnownName \<noteq> None \<and> ''RequestName'' \<in> lost \<or> ''AddMatch'' \<in> lost)"
proof (cases "connect_endpoint getenv busType")
  case (Inl e)
  then show ?thesis
    using connect_endpoint_error [OF Inl]
    by (simp add: CreateSync_def connect_object_def Connect_def destroy_def CloseSync_def CloseImpl_def DBusConnectionImpl_def
        new_connection_def)
next
  case (Inr address)
  show ?thesis
  proof (cases "\<exists>line. reply = Inr line \<and> prefix ''OK'' line")
    case False
    then show ?thesis
      using Inr by (auto simp: CreateSync_def connect_object_def Connect_def AuthenticateDBusConnectionImpl_def Let_def
          starts_with_prefix destroy_def CloseSync_def CloseImpl_def DBusConnectionImpl_def new_connection_def split: sum.splits)
  next
    case True
    then obtain line where l: "reply = Inr line" "prefix ''OK'' line" by blast
    let ?st = "(new_connection ops wellKnownName)\<lparr> st_socketOpen := True \<rparr> :: ('c, 'h) InternalState"
    obtain woken st res where c: "Connect_handshake junk n (lossy lost (daemon header u w)) ?st = (woken, st, res)"
      by (metis prod_cases3)
    have names: "st_wellKnownNames ?st = (case wellKnownName of None \<Rightarrow> [] | Some name \<Rightarrow> [name])"
      by (simp add: new_connection_def)
    have calls: "\<forall>name \<in> set (st_wellKnownNames ?st). \<exists>m. RequestName_call name (name_flag_code WKN_NONE) = Inr m"
      unfolding names using assms(6) by (auto split: option.splits)
    have "res = (if ''Hello'' \<in> lost \<or> wellKnownName \<noteq> None \<and> ''RequestName'' \<in> lost \<or> ''AddMatch'' \<in> lost
        then Inl NoAnswer else Inr ())"
      using lossy_handshake [OF assms(1-5) calls, of junk lost header w] c names by (auto split: option.splits)
    then show ?thesis
      using Inr l c
      by (auto simp: CreateSync_def connect_object_def Connect_def AuthenticateDBusConnectionImpl_def Let_def
          starts_with_prefix DBusConnectionImpl_def endless_def)
  qed
qed

theorem create_sync_hangs_iff_witness:
  "CreateSync (\<lambda>_. None) SYSTEM 1000 (Inr ''OK 1234'') no_junk 50 (lossy {''Hello''} (daemon example_header '':1.5'' 1)) 0 list_channel None =
     (NeverReturns :: (IncomingDBusMessage list, string) connection ended) \<and>
   CreateSync (\<lambda>_. None) SYSTEM 1000 (Inr ''OK 1234'') no_junk 50 (lossy {} (daemon example_header '':1.5'' 1)) 0 list_channel None \<noteq>
     (NeverReturns :: (IncomingDBusMessage list, string) connection ended)"
proof -
  have c: "make_DBusUniqueConnectionName '':1.5'' = Inr (MkUniqueName '':1.5'')" "plain '':1.5''"
    "length (wires GA GA [VString StdString '':1.5''] 0) < 50"
    "connect_endpoint (\<lambda>_. None) SYSTEM = Inr ''/var/run/dbus/system_bus_socket''"
    by code_simp+
  have n: "4 < (50 :: nat)" "length (wires GA GA [VString StdString '':1.5''] 0) < 67108864"
    "\<forall>name. None = Some name \<longrightarrow> (\<exists>m. RequestName_call name (name_flag_code WKN_NONE) = Inr m)"
    using c(3) by simp_all
  show ?thesis by (simp add: create_sync_hangs_iff [OF c(1,2) n(1) c(3) n(2,3)] c(4) del: wires.simps)
qed

text \<open>\<^verbatim>\<open>CloseSync\<close>, when it returns, leaves a multi-threaded connection closed with its thread joined, and calling it again
  is harmless; called on the IO thread it throws and changes nothing.\<close>

theorem close_sync_closes:
  assumes "cn_strand conn" and "cn_joinable conn" and "caller \<noteq> IOThread"
    and "CloseSync caller junk n bus conn = Ended conn' (Inr ())"
  shows "\<not> cn_joinable conn' \<and> \<not> st_socketOpen (cn_state conn') \<and>
    CloseSync caller junk n bus conn' = Ended conn' (Inr ()) \<and> destroy caller junk n bus conn' = Ended conn' (Inr ()) \<and>
    CloseSync IOThread junk n bus conn = Ended conn (Inl LogicError)"
proof -
  obtain st where st: "CloseImpl junk n bus (cn_state conn) = (st, Inr ())" "conn' = conn\<lparr> cn_state := st, cn_joinable := False \<rparr>"
    using assms by (auto simp: CloseSync_def split: prod.splits sum.splits if_splits)
  have "\<not> st_socketOpen st"
    using st(1) by (auto simp: CloseImpl_def CloseData_def split: prod.splits sum.splits if_splits)
  then show ?thesis using assms(1,3) st(2) by (simp add: destroy_def CloseSync_def)
qed

definition open_connection :: "DBusWellKnownName list \<Rightarrow> (IncomingDBusMessage list, string) connection" where
  "open_connection names = (DBusConnectionImpl False list_channel None)
     \<lparr> cn_state := named_connection names, cn_loopStarted := True \<rparr>"

lemma open_connection_closes: "CloseSync (UserThread 0) no_junk 9 (daemon example_header '':1.5'' 1) (open_connection []) =
    Ended ((open_connection [])\<lparr> cn_state := CloseData (named_connection []), cn_joinable := False \<rparr>) (Inr ())"
  by (simp add: CloseSync_def CloseImpl_def open_connection_def DBusConnectionImpl_def named_connection_def new_connection_def)

theorem close_sync_closes_witness:
  "\<exists>conn'. CloseSync (UserThread 0) no_junk 9 (daemon example_header '':1.5'' 1) (open_connection []) = Ended conn' (Inr ()) \<and>
     \<not> cn_joinable conn' \<and> \<not> st_socketOpen (cn_state conn')"
  using close_sync_closes [OF _ _ _ open_connection_closes] open_connection_closes
  by (auto simp: open_connection_def DBusConnectionImpl_def)

text \<open>With several threads a detached connection that cannot be made ends the program, whatever the user does.\<close>

lemma detached_failure_terminates:
  "snd (CreateDetached getenv busType uid reply junk n bus False ops name (cb :: 'h option)) = Terminated \<longleftrightarrow>
     (\<exists>e. snd (connect_object getenv busType uid reply junk n bus
       (DBusConnectionImpl False ops name :: ('c, 'h) connection)) = Inl e \<and> \<not> endless e)"
  by (auto simp: CreateDetached_def split: prod.splits sum.splits)

text \<open>A single-threaded connection that is destroyed when it is ready, with the rule of its name cache, is used after its destruction.\<close>

lemma ready_destroyed_undefined:
  fixes conn :: "('c, 'h) connection"
  assumes "\<not> cn_strand conn" and "st_socketOpen (cn_state conn)" and "st_connectionReady (cn_state conn)"
    and "SubscribeToNameChanges bus' st = Inr (cn_state conn)"
  shows "destroy caller junk n bus conn = Ended conn (Inl UndefinedBehaviour)"
proof -
  have some_rule: "add_rule rule cb exec rules \<noteq> []" for rule cb exec and rules :: "'h MatchRuleInfo list"
    by (cases rules) simp_all
  obtain rule where "st\<lparr> st_matchRules := add_rule rule NameCacheCallback False (st_matchRules st) \<rparr> = cn_state conn"
    using assms(4) by (auto simp: SubscribeToNameChanges_def AddMatchRuleImpl_def bindE_Inr_iff)
  then have "st_matchRules (cn_state conn) \<noteq> []" using some_rule by (metis InternalState.select_convs(12) InternalState.update_convs(12) InternalState.surjective)
  then show ?thesis using assms(1-3) by (simp add: destroy_def)
qed

text \<open>The destructor ends the program when a name is recorded twice, and when the last owner is on the IO thread.\<close>

theorem destructor_terminates:
  assumes "cn_strand conn" and "cn_joinable conn"
    and "st_socketOpen (cn_state conn)" and "st_connectionReady (cn_state conn)" and "4 < n" and "st_matchRules (cn_state conn) = []"
    and "st_wellKnownNames (cn_state conn) = [name, name]" and "ReleaseName_call name = Inr m"
  shows "destroy caller junk n (daemon header u w) conn = Terminated"
  using assms release_twice_fails [OF assms(3-8), of junk header u w] by (simp add: destroy_def CloseSync_def endless_def)

theorem destructor_terminates_witness:
  "destroy (UserThread 0) no_junk 9 (daemon example_header '':1.5'' 1)
     (open_connection [MkWellKnownName ''org.a'', MkWellKnownName ''org.a'']) = Terminated"
proof -
  obtain m where "ReleaseName_call (MkWellKnownName ''org.a'') = Inr m" using example_release by blast
  then show ?thesis
    by (intro destructor_terminates)
      (simp_all add: open_connection_def DBusConnectionImpl_def named_connection_def new_connection_def)
qed

text \<open>C38: When the socket fails unexpectedly, every callback for a lost connection is called, in the order of registration and
  once: the connection is then closed, and a further failure, or one while closing, calls nobody.\<close>

theorem disconnect_callbacks_once:
  assumes "st_socketOpen (cn_state conn)" and "\<not> st_shouldQuit (cn_state conn)"
    and "\<not> (category = ''asio.channel'' \<and> code = 1)" and "\<not> (category = ''system'' \<and> code = 125)"
    and "socket_failed junk n bus category code (fold OnDisconnected cbs (SimulateConnectionLoss conn)) = (ev, conn')"
  shows "ev = map Called (cn_onDisconnected conn @ cbs) \<and> \<not> IsConnected conn' \<and> \<not> st_socketOpen (cn_state conn') \<and>
    OwnWellKnownNames conn' = OwnWellKnownNames conn \<and>
    socket_failed junk n bus category' code' conn' = ([], conn')"
proof -
  have f: "cn_state (fold OnDisconnected cbs c) = cn_state c"
    "cn_onDisconnected (fold OnDisconnected cbs c) = cn_onDisconnected c @ cbs" for c :: "('a, 'b) connection"
    by (induction cbs arbitrary: c) (simp_all add: OnDisconnected_def)
  have "ReadLoop_catch False category code = ConnectionLost"
    using assms(3,4) by (auto simp: ReadLoop_catch_def)
  then show ?thesis
    using assms(1,2,5)
    by (auto simp: socket_failed_def f SimulateConnectionLoss_def HandleConnectionLost_def CloseImpl_def CloseData_def
        IsConnected_def OwnWellKnownNames_def ReadLoop_catch_def)
qed

theorem disconnect_callbacks_once_witness:
  "fst (socket_failed no_junk 9 (daemon example_header '':1.5'' 1) ''asio.misc'' 2
     (fold OnDisconnected [''a'', ''b''] (SimulateConnectionLoss (open_connection [])))) = [Called ''a'', Called ''b'']"
proof -
  obtain ev conn' where e: "socket_failed no_junk 9 (daemon example_header '':1.5'' 1) ''asio.misc'' 2
     (fold OnDisconnected [''a'', ''b''] (SimulateConnectionLoss (open_connection []))) = (ev, conn')" by fastforce
  have "ev = [Called ''a'', Called ''b'']"
    using disconnect_callbacks_once [OF _ _ _ _ e]
    by (simp add: open_connection_def DBusConnectionImpl_def named_connection_def new_connection_def)
  then show ?thesis unfolding e by simp
qed

end
