(* ===== verification/Log.thy ===== *)
theory Log
  imports Prelude
begin

text \<open>
  The log of \<^verbatim>\<open>src/src/Log.h\<close> and \<^verbatim>\<open>src/src/Log.cpp\<close>: which messages are written, and how. The text of a
  level is the name of its enumerator.
\<close>

datatype LogLevel = TRACE | DEBUG | INFO | ERROR | OFF | FATAL

fun log_level_code :: "LogLevel \<Rightarrow> nat" where
  "log_level_code TRACE = 0"
| "log_level_code DEBUG = 1"
| "log_level_code INFO = 2"
| "log_level_code ERROR = 3"
| "log_level_code OFF = 4"
| "log_level_code FATAL = 5"

lemma log_level_code_inj: "log_level_code a = log_level_code b \<Longrightarrow> a = b"
  by (cases a; cases b) simp_all

instantiation LogLevel :: linorder
begin

definition less_eq_LogLevel :: "LogLevel \<Rightarrow> LogLevel \<Rightarrow> bool" where
  "less_eq_LogLevel a b = (log_level_code a \<le> log_level_code b)"

definition less_LogLevel :: "LogLevel \<Rightarrow> LogLevel \<Rightarrow> bool" where
  "less_LogLevel a b = (log_level_code a < log_level_code b)"

instance
  by standard (auto simp: less_eq_LogLevel_def less_LogLevel_def dest: log_level_code_inj)

end

definition ESC :: string where
  "ESC = [CHR 0x1B]"

fun GetLogColour :: "LogLevel \<Rightarrow> string result" where
  "GetLogColour OFF = Inl RuntimeError"
| "GetLogColour TRACE = Inr (ESC @ ''[0;36m'')"
| "GetLogColour DEBUG = Inr (ESC @ ''[0;34m'')"
| "GetLogColour INFO = Inr (ESC @ ''[0;32m'')"
| "GetLogColour ERROR = Inr (ESC @ ''[0;31m'')"
| "GetLogColour FATAL = Inr (ESC @ ''[0;1;4;31m'')"

fun log_level_name :: "LogLevel \<Rightarrow> string" where
  "log_level_name TRACE = ''TRACE''"
| "log_level_name DEBUG = ''DEBUG''"
| "log_level_name INFO = ''INFO''"
| "log_level_name ERROR = ''ERROR''"
| "log_level_name OFF = ''OFF''"
| "log_level_name FATAL = ''FATAL''"

text \<open>What is written to \<^verbatim>\<open>std::cout\<close>.\<close>

definition LogImpl :: "LogLevel \<Rightarrow> LogLevel \<Rightarrow> string \<Rightarrow> string result" where
  "LogImpl logLevel wantedLogLevel message =
     (if wantedLogLevel \<noteq> FATAL \<and> logLevel > wantedLogLevel then Inr []
      else bindE (GetLogColour wantedLogLevel) (\<lambda>colour.
        Inr (colour @ ''['' @ log_level_name wantedLogLevel @ '']'' @ (ESC @ ''[0m'') @ '' '' @ message @ [CHR 0x0A])))"

definition LOG_IMPL :: "LogLevel \<Rightarrow> LogLevel \<Rightarrow> string \<Rightarrow> string result" where
  "LOG_IMPL logLevel wantedLogLevel message =
     (if logLevel \<le> wantedLogLevel then LogImpl logLevel wantedLogLevel message else Inr [])"

text \<open>A message of one of the five logging macros is written exactly when its level is at least the logger's, at
  which nothing throws; a fatal one is written at every level, also when logging is off.\<close>

theorem logged_iff:
  assumes "wanted \<noteq> OFF"
  shows "\<exists>out. LOG_IMPL level wanted message = Inr out \<and> (out \<noteq> [] \<longleftrightarrow> level \<le> wanted) \<and> (wanted = FATAL \<longrightarrow> out \<noteq> [])"
  using assms
  by (cases wanted; cases level) (simp_all add: LOG_IMPL_def LogImpl_def less_eq_LogLevel_def less_LogLevel_def)

theorem logged_iff_witness: "\<exists>out. LOG_IMPL OFF FATAL ''x'' = Inr out \<and> out \<noteq> []"
  using logged_iff [of FATAL OFF "''x''"] by auto

end
