(* ===== verification/Inspect.thy ===== *)
theory Inspect
  imports MatchRule
begin

text \<open>
  The descriptions \<^verbatim>\<open>GetInfo\<close> of outgoing and incoming messages (\<^verbatim>\<open>src/src/DBusMessage.cpp\<close>,
  \<^verbatim>\<open>src/src/IncomingDBusMessage.cpp\<close>). The names of enumerators come from a vendored library and are a parameter.
\<close>

definition value_or_NA :: "string option \<Rightarrow> string" where
  "value_or_NA s = (case s of None \<Rightarrow> ''N/A'' | Some str \<Rightarrow> str)"

definition DBusMessage_GetInfo :: "(DBusMessageType \<Rightarrow> string) \<Rightarrow> DBusMessage \<Rightarrow> string" where
  "DBusMessage_GetInfo enum_name m =
     ''DBusMessage Info: Message Type: '' @ enum_name (m_messageType m) @ '', Method: '' @ value_or_NA (m_method m) @
     '', Path: '' @ value_or_NA (map_option GetPath (m_path m)) @
     '', Interface: '' @ value_or_NA (map_option interface_name (m_interface m)) @
     '', Destination: '' @ value_or_NA (m_destination m) @
     '', Signature: '' @ value_or_NA (map_option GetSignature (m_signature m)) @
     '', Error Name: '' @ value_or_NA (m_errorName m) @
     '', Reply Serial: '' @ value_or_NA (map_option (\<lambda>s. decimal (unat s)) (m_replySerial m))"

definition IncomingDBusMessage_GetInfo :: "(DBusMessageType \<Rightarrow> string) \<Rightarrow> IncomingDBusMessage \<Rightarrow> string" where
  "IncomingDBusMessage_GetInfo enum_name m =
     (let h = m_header m in
      ''IncomingDBusMessage Info: Message Type: '' @ enum_name (rd_messageType h) @ '', Method: '' @ value_or_NA (rd_member h) @
      '', Path: '' @ value_or_NA (map_option GetPath (rd_objectPath h)) @
      '', Interface: '' @ value_or_NA (map_option interface_name (rd_interface h)) @
      '', Destination: '' @ value_or_NA (rd_destination h) @
      '', Signature: '' @ value_or_NA (map_option GetSignature (rd_signature h)) @
      '', Error Name: '' @ value_or_NA (rd_errorName h) @
      '', Reply Serial: '' @ value_or_NA (map_option (\<lambda>s. decimal (unat s)) (rd_replySerial h)))"

text \<open>What the fields are that a message of each type sends.\<close>

definition only_sent_fields :: "DBusMessage \<Rightarrow> bool" where
  "only_sent_fields m \<longleftrightarrow>
     (m_messageType m \<notin> {MT_METHOD_CALL, MT_SIGNAL} \<longrightarrow> m_path m = None \<and> m_method m = None) \<and>
     (m_messageType m \<noteq> MT_ERROR \<longrightarrow> m_errorName m = None) \<and>
     (m_messageType m \<notin> {MT_ERROR, MT_METHOD_RETURN} \<longrightarrow> m_replySerial m = None) \<and>
     (m_messageBody m = [] \<longrightarrow> m_signature m = None)"

text \<open>The receiver describes a message as the sender does, if it has no destination and no field that is not
  sent: the read loop finds in the bytes a message with the same description, but for its first word.\<close>

theorem received_info_same:
  assumes "message_ok m" and "message_small m" and "length (message_bytes m serial) < n"
    and "only_sent_fields m" and "m_destination m = None"
  shows "\<exists>incoming. ReadLoop_round junk n (message_bytes m serial @ rest) = Finished (Inr incoming) rest \<and>
    IncomingDBusMessage_GetInfo enum_name incoming = ''Incoming'' @ DBusMessage_GetInfo enum_name m"
  using round_reads_message [OF assms(1-3), of junk rest] assms(4,5)
  by (auto simp: IncomingDBusMessage_GetInfo_def DBusMessage_GetInfo_def sent_message_def received_header_def Let_def
      only_sent_fields_def)

theorem received_info_same_witness:
  "\<exists>incoming. ReadLoop_round no_junk 200 (message_bytes example_signal 3 @ []) = Finished (Inr incoming) [] \<and>
    IncomingDBusMessage_GetInfo (\<lambda>_. ''SIGNAL'') incoming = ''Incoming'' @ DBusMessage_GetInfo (\<lambda>_. ''SIGNAL'') example_signal"
  using example_signal_ok
  by (intro received_info_same) (simp_all add: only_sent_fields_def example_signal_def DBusMessage_Signal_def new_DBusMessage_def)

end
