(* ===== verification/VariantObjects.thy ===== *)
theory VariantObjects
  imports Safety
begin

text \<open>
  Variants as objects, from \<^verbatim>\<open>src/src/DBus.h\<close>: \<^verbatim>\<open>Variant::MarshalData\<close>, copying, moving, assigning and comparing. A
  \<open>dval\<close> says what a variant contains; what it stores is a buffer of its own or a pointer, the address of
  content it shares with its copies.
\<close>

section \<open>Marshalling\<close>

text \<open>The content is marshalled through the virtual table, from the shared object or from the buffer.\<close>

definition Variant_MarshalData :: "dval \<Rightarrow> 8 word list \<Rightarrow> 8 word list result" where
  "Variant_MarshalData variant dbusType =
     (let with_content = (\<lambda>sg al content. bindE (MarshalDBusTypeImpl (VString SignatureString sg) dbusType) (\<lambda>d1.
            MarshalDBusTypeImpl content (ApplyPadding d1 al)))
      in case variant of
           VHeap sg al v \<Rightarrow> with_content sg al v
         | VInlineObj sg al v \<Rightarrow> with_content sg al v
         | VInlineStr sg al buf st \<Rightarrow> with_content sg al (VString st (c_string buf))
         | _ \<Rightarrow> Inl RuntimeError)"

lemma MarshalDBusTypeImpl_variant:
  "type_of v = TVariant \<Longrightarrow> MarshalDBusTypeImpl v dbusType = Variant_MarshalData v dbusType"
  by (cases v) (simp_all add: Variant_MarshalData_def)

section \<open>Objects\<close>

datatype storage = SharedAt nat | Buffer "8 word list" | NullPointer

datatype variant_object =
    HoldsData string nat storage
  | HoldsDeserialized string storage
  | HoldsNothing

text \<open>The object representation of a trivially copyable value.\<close>

definition memory_fixed :: "fixval \<Rightarrow> 8 word list" where
  "memory_fixed x = le_bytes (mem_size (fix_type x)) (fix_nat x)"

fun object_bytes :: "dval \<Rightarrow> 8 word list" where
  "object_bytes (VFixed x) = memory_fixed x"
| "object_bytes (VArr n t vs) = concat (map object_bytes vs)"
| "object_bytes _ = []"

definition object_buffer :: "dval \<Rightarrow> 8 word list" where
  "object_buffer v = object_bytes v @ replicate (SMALL_BUFFER_SIZE - length (object_bytes v)) 0"

text \<open>The object that holds a variant, with its shared content, if it has any, at the address \<open>a\<close>.\<close>

fun object_at :: "nat \<Rightarrow> dval \<Rightarrow> variant_object" where
  "object_at a (VHeap sg al v) = HoldsData sg al (SharedAt a)"
| "object_at a (VInlineObj sg al v) = HoldsData sg al (Buffer (object_buffer v))"
| "object_at a (VInlineStr sg al buf st) = HoldsData sg al (Buffer buf)"
| "object_at a (VDeser sg bs) = HoldsDeserialized sg (if length bs > SMALL_BUFFER_SIZE then SharedAt a else Buffer bs)"
| "object_at a _ = HoldsNothing"

text \<open>The move constructor and the move assignment take the pointer and leave a null pointer and a signature \<open>sg'\<close> the
  standard does not specify; a buffer is copied.\<close>

fun moved_storage :: "storage \<Rightarrow> storage" where
  "moved_storage (SharedAt a) = NullPointer"
| "moved_storage data = data"

fun Variant_moved_from :: "string \<Rightarrow> variant_object \<Rightarrow> variant_object" where
  "Variant_moved_from sg' (HoldsData sg al data) = HoldsData sg' al (moved_storage data)"
| "Variant_moved_from sg' (HoldsDeserialized sg data) = HoldsDeserialized sg' (moved_storage data)"
| "Variant_moved_from sg' HoldsNothing = HoldsNothing"

text \<open>The copy constructor, and the copy assignment, which has no branch for an empty source.\<close>

fun Variant_copy :: "variant_object \<Rightarrow> variant_object" where
  "Variant_copy (HoldsData sg al data) = HoldsData sg al data"
| "Variant_copy (HoldsDeserialized sg data) = HoldsDeserialized sg data"
| "Variant_copy HoldsNothing = HoldsNothing"

fun Variant_assign :: "variant_object \<Rightarrow> variant_object \<Rightarrow> variant_object" where
  "Variant_assign this (HoldsData sg al data) = HoldsData sg al data"
| "Variant_assign this (HoldsDeserialized sg data) = HoldsDeserialized sg data"
| "Variant_assign this HoldsNothing = this"

text \<open>\<^verbatim>\<open>operator==\<close>: a shared pointer is compared by its address, a buffer by its bytes.\<close>

definition storage_equal :: "storage \<Rightarrow> storage \<Rightarrow> bool" where
  "storage_equal x y =
     (case (x, y) of (SharedAt a, SharedAt b) \<Rightarrow> a = b | (Buffer bs, Buffer cs) \<Rightarrow> bs = cs
      | (NullPointer, NullPointer) \<Rightarrow> True | _ \<Rightarrow> False)"

definition VariantData_equal :: "string \<times> nat \<times> storage \<Rightarrow> string \<times> nat \<times> storage \<Rightarrow> bool" where
  "VariantData_equal x y =
     (case (x, y) of ((sg, al, data), (sg', al', data')) \<Rightarrow> sg = sg' \<and> al = al' \<and> storage_equal data data')"

definition Variant_equal :: "variant_object \<Rightarrow> variant_object \<Rightarrow> bool" where
  "Variant_equal x y =
     (case (x, y) of
        (HoldsData sg al data, HoldsData sg' al' data') \<Rightarrow> VariantData_equal (sg, al, data) (sg', al', data')
      | (HoldsDeserialized sg data, HoldsDeserialized sg' data') \<Rightarrow> sg = sg' \<and> storage_equal data data'
      | (HoldsNothing, HoldsNothing) \<Rightarrow> True
      | _ \<Rightarrow> False)"

lemma storage_equal_iff [simp]: "storage_equal x y \<longleftrightarrow> x = y"
  by (cases x; cases y) (simp_all add: storage_equal_def)

lemma Variant_equal_iff [simp]: "Variant_equal x y \<longleftrightarrow> x = y"
  by (cases x; cases y) (simp_all add: Variant_equal_def VariantData_equal_def)

section \<open>Which variants are equal\<close>

lemma length_memory_fixed [simp]: "length (memory_fixed x) = mem_size (fix_type x)"
  by (simp add: memory_fixed_def)

lemma length_object_bytes:
  "wt v \<Longrightarrow> trivially_copyable (type_of v) \<Longrightarrow> length (object_bytes v) = cpp_sizeof (type_of v)"
proof (induction v rule: object_bytes.induct)
  case (2 n t vs)
  from 2(3) obtain k where n: "n = Some k" "trivially_copyable t" by (cases n) auto
  have "map (length \<circ> object_bytes) vs = replicate (length vs) (cpp_sizeof t)"
    using 2 n by (intro map_replicate_const [THEN trans [rotated]] map_cong) (auto simp: wt_elems_iff)
  then show ?case using 2(2) n by (simp add: length_concat sum_list_replicate)
qed simp_all

lemma fix_nat_memory: "fix_nat x < 256 ^ mem_size (fix_type x)"
  using fix_nat_less [of x] by (cases x) (simp_all add: mem_size_def)

lemma memory_fixed_inj: "memory_fixed x = memory_fixed y \<Longrightarrow> fix_type x = fix_type y \<Longrightarrow> x = y"
  by (metis fix_nat_memory fix_of_nat le_nat_le_bytes memory_fixed_def)

lemma concat_inj:
  assumes "concat (map f vs) = concat (map f ws)" and "length vs = length ws"
    and "\<And>v w. v \<in> set vs \<Longrightarrow> w \<in> set ws \<Longrightarrow> length (f v) = length (f w) \<and> (f v = f w \<longrightarrow> v = w)"
  shows "vs = ws"
  using assms(2,1,3)
proof (induction vs ws rule: list_induct2)
  case (Cons v vs w ws)
  have h: "length (f v) = length (f w)" "f v = f w \<Longrightarrow> v = w" using Cons.prems(2) [of v w] by simp_all
  have "f v @ concat (map f vs) = f w @ concat (map f ws)" using Cons.prems(1) by simp
  then have e: "f v = f w" "concat (map f vs) = concat (map f ws)"
    unfolding append_eq_append_conv [OF disjI1 [OF h(1)]] by blast+
  have "vs = ws" by (rule Cons.IH [OF e(2)]) (use Cons.prems(2) in simp)
  then show ?case using h(2) [OF e(1)] by simp
qed simp

lemma object_bytes_inj:
  "object_bytes v = object_bytes w \<Longrightarrow> wt v \<Longrightarrow> wt w \<Longrightarrow> type_of v = t \<Longrightarrow> type_of w = t \<Longrightarrow>
   trivially_copyable t \<Longrightarrow> v = w"
proof (induction t arbitrary: v w rule: trivially_copyable.induct)
  case (1 f)
  obtain x where x: "v = VFixed x" using 1(4) by (cases v) simp_all
  obtain y where y: "w = VFixed y" using 1(5) by (cases w) simp_all
  have "x = y" by (rule memory_fixed_inj) (use 1(1,4,5) x y in simp_all)
  then show ?case using x y by simp
next
  case (2 k t)
  obtain vs where vs: "v = VArr (Some k) t vs" using 2(5) by (cases v) simp_all
  obtain ws where ws: "w = VArr (Some k) t ws" using 2(6) by (cases w) simp_all
  note v = vs ws
  have "vs = ws"
  proof (rule concat_inj)
    show "concat (map object_bytes vs) = concat (map object_bytes ws)" "length vs = length ws"
      using 2(2-4) v by simp_all
    fix x y assume xy: "x \<in> set vs" "y \<in> set ws"
    then have "wt x" "wt y" "type_of x = t" "type_of y = t" "trivially_copyable t"
      using 2(3,4,7) v by (simp_all add: wt_elems_iff)
    then show "length (object_bytes x) = length (object_bytes y) \<and> (object_bytes x = object_bytes y \<longrightarrow> x = y)"
      using 2(1) length_object_bytes by simp
  qed
  then show ?case using v by simp
qed simp_all

text \<open>Values that \<^verbatim>\<open>Variant::Create\<close> stores in the buffer of the object.\<close>

definition stored_inline :: "dval \<Rightarrow> bool" where
  "stored_inline v \<longleftrightarrow>
     trivially_copyable (type_of v) \<and> cpp_sizeof (type_of v) \<le> SMALL_BUFFER_SIZE \<or>
     (case v of VString st s \<Rightarrow> length s < SMALL_BUFFER_SIZE | _ \<Rightarrow> False)"

lemma object_at_string:
  assumes "length s < 4294967296"
  shows "object_at a (Variant_Create (VString st s)) = HoldsData (GetTypeSignature (TString st)) (GetAlignmentOfDBusType (TString st))
    (if length s < SMALL_BUFFER_SIZE then Buffer (small_buffer s) else SharedAt a)"
  using assms by (simp add: Variant_Create_string u32_id SMALL_BUFFER_SIZE_def less_Suc_eq_le del: GetTypeSignature.simps)

lemma object_at_other:
  assumes "\<nexists>st s. v = VString st s"
  shows "object_at a (Variant_Create v) = HoldsData (GetTypeSignature (type_of v)) (GetAlignmentOfDBusType (type_of v))
    (if stored_inline v then Buffer (object_buffer v) else SharedAt a)"
  using assms
  by (cases v) (simp_all add: Variant_Create_def stored_inline_def Let_def del: GetTypeSignature.simps trivially_copyable.simps cpp_sizeof.simps)

lemma small_buffer_inj:
  assumes "small_buffer s = small_buffer t" and "length s < SMALL_BUFFER_SIZE" "length t < SMALL_BUFFER_SIZE"
    and "CHR 0x00 \<notin> set s" "CHR 0x00 \<notin> set t"
  shows "s = t"
  using c_string_small_buffer_id [OF assms(2,4)] c_string_small_buffer_id [OF assms(3,5)] assms(1) by metis

lemma stored_inline_other:
  "\<nexists>st s. v = VString st s \<Longrightarrow>
   stored_inline v \<longleftrightarrow> trivially_copyable (type_of v) \<and> cpp_sizeof (type_of v) \<le> SMALL_BUFFER_SIZE"
  by (cases v) (simp_all add: stored_inline_def)

text \<open>C37: Two variants created from values of one type are equal exactly when the values are equal and small enough for the
  buffer: above 32 bytes, and for every container but small arrays of numbers, variants with the same content are
  different, because \<^verbatim>\<open>operator==\<close> compares the addresses of their contents.\<close>

theorem created_variants_equal_iff:
  assumes "wt v" and "wt w" and "type_of v = type_of w" and "sendable v" and "sendable w" and "a \<noteq> b"
    and "\<And>st s. v = VString st s \<or> w = VString st s \<Longrightarrow> length s < 4294967296"
  shows "Variant_equal (object_at a (Variant_Create v)) (object_at b (Variant_Create w)) \<longleftrightarrow> v = w \<and> stored_inline v"
proof (cases "\<exists>st s. v = VString st s")
  case True
  then obtain st s t where v: "v = VString st s" "w = VString st t" using assms(3) by (cases w) auto
  then have l: "length s < 4294967296" "length t < 4294967296" using assms(7) [of st s] assms(7) [of st t] v by simp_all
  show ?thesis
    using small_buffer_inj [of s t] assms(4-6) v
    by (auto simp: object_at_string [OF l(1)] object_at_string [OF l(2)] stored_inline_def)
next
  case False
  then have n: "\<nexists>st s. v = VString st s" "\<nexists>st s. w = VString st s" using assms(3) by (cases v; auto)+
  note s = stored_inline_other [OF n(1)] stored_inline_other [OF n(2)]
  have "v = w" if "object_buffer v = object_buffer w" "stored_inline v"
  proof -
    have t: "trivially_copyable (type_of v)" using that(2) s by simp
    then have "length (object_bytes v) = length (object_bytes w)"
      using assms(1-3) length_object_bytes [of v] length_object_bytes [of w] by simp
    then have "object_bytes v = object_bytes w" using that(1) by (simp add: object_buffer_def)
    then show ?thesis using object_bytes_inj [OF _ assms(1,2)] assms(3) t by simp
  qed
  then show ?thesis
    using s assms(3,6) by (auto simp: object_at_other [OF n(1)] object_at_other [OF n(2)] simp del: GetTypeSignature.simps)
qed

theorem created_variants_equal_iff_witness:
  "\<not> Variant_equal (object_at 1 (Variant_Create (VArr None (TFixed U8) [VFixed (FU8 1)])))
     (object_at 2 (Variant_Create (VArr None (TFixed U8) [VFixed (FU8 1)]))) \<and>
   Variant_equal (object_at 1 (Variant_Create (VString StdString ''a''))) (object_at 2 (Variant_Create (VString StdString ''a'')))"
  using created_variants_equal_iff [of "VArr None (TFixed U8) [VFixed (FU8 1)]" "VArr None (TFixed U8) [VFixed (FU8 1)]" 1 2]
    created_variants_equal_iff [of "VString StdString ''a''" "VString StdString ''a''" 1 2]
  by (simp add: stored_inline_def SMALL_BUFFER_SIZE_def valid_string_def del: Variant_equal_iff)

text \<open>Copies are equal to what they are copied from; assigning from an empty variant does not empty the target.\<close>

lemma copies_equal: "Variant_equal (Variant_copy x) x"
  by (cases x) simp_all

lemma empty_not_assigned: "Variant_equal (Variant_assign x y) y \<longleftrightarrow> y \<noteq> HoldsNothing \<or> x = HoldsNothing"
  by (cases y) auto

section \<open>Variables that hold variants\<close>

text \<open>Assignments between variables, which may be the same one. \<^verbatim>\<open>emplace\<close> destroys the old value before it constructs the
  new one from references into the source; a variable moved to itself keeps its content.\<close>

definition copy_variable :: "nat \<Rightarrow> nat \<Rightarrow> (nat \<Rightarrow> variant_object) \<Rightarrow> (nat \<Rightarrow> variant_object) result" where
  "copy_variable x y vars =
     (if x = y \<and> vars y \<noteq> HoldsNothing then Inl UndefinedBehaviour
      else Inr (vars(x := Variant_assign (vars x) (vars y))))"

fun with_signature :: "string \<Rightarrow> variant_object \<Rightarrow> variant_object" where
  "with_signature sg' (HoldsData sg al data) = HoldsData sg' al data"
| "with_signature sg' (HoldsDeserialized sg data) = HoldsDeserialized sg' data"
| "with_signature sg' HoldsNothing = HoldsNothing"

definition move_variable :: "string \<Rightarrow> nat \<Rightarrow> nat \<Rightarrow> (nat \<Rightarrow> variant_object) \<Rightarrow> (nat \<Rightarrow> variant_object)" where
  "move_variable sg' x y vars =
     (if x = y then vars(x := with_signature sg' (vars x))
      else vars(x := vars y, y := Variant_moved_from sg' (vars y)))"

text \<open>The variables that keep the content at an address alive.\<close>

fun holds_content :: "nat \<Rightarrow> variant_object \<Rightarrow> bool" where
  "holds_content a (HoldsData sg al data) \<longleftrightarrow> data = SharedAt a"
| "holds_content a (HoldsDeserialized sg data) \<longleftrightarrow> data = SharedAt a"
| "holds_content a HoldsNothing \<longleftrightarrow> False"

definition holders :: "nat \<Rightarrow> (nat \<Rightarrow> variant_object) \<Rightarrow> nat set" where
  "holders a vars = {x. holds_content a (vars x)}"

lemma moved_from_holds_nothing: "\<not> holds_content a (Variant_moved_from sg' v)"
  by (cases v; cases "case v of HoldsData _ _ d \<Rightarrow> d | HoldsDeserialized _ d \<Rightarrow> d | HoldsNothing \<Rightarrow> NullPointer") simp_all

lemma with_signature_holds [simp]: "holds_content a (with_signature sg' v) = holds_content a v"
  by (cases v) simp_all

text \<open>A move hands the content on, and what the target held loses this holder; a copy adds a holder, unless the source is
  empty. Assigning a variable to itself reads the object it has destroyed.\<close>

lemma move_hands_on:
  "x \<noteq> y \<Longrightarrow> holders a (move_variable sg' x y vars) =
     (if y \<in> holders a vars then insert x (holders a vars - {y}) else holders a vars - {x})"
  by (auto simp: holders_def move_variable_def moved_from_holds_nothing)

lemma copy_adds_holder:
  "copy_variable x y vars = Inr vars' \<Longrightarrow> holders a vars' =
     (if y \<in> holders a vars then insert x (holders a vars)
      else if vars y = HoldsNothing then holders a vars else holders a vars - {x})"
  by (cases "vars y") (auto simp: holders_def copy_variable_def split: if_splits)

lemma self_assignment_undefined: "copy_variable x x vars = Inl UndefinedBehaviour \<longleftrightarrow> vars x \<noteq> HoldsNothing"
  by (simp add: copy_variable_def)

lemma self_move_keeps_holders: "holders a (move_variable sg' x x vars) = holders a vars"
  by (auto simp: holders_def move_variable_def)

end
