(* ===== verification/Accessors.thy ===== *)
theory Accessors
  imports Inspect VariantObjects
begin

text \<open>
  What the objects of the library tell about themselves: the members of the string classes
  (\<^verbatim>\<open>src/src/DBusTypes.h/.cpp\<close>), of outgoing and received messages (\<^verbatim>\<open>src/src/DBusMessage.cpp\<close>,
  \<^verbatim>\<open>src/src/IncomingDBusMessage.cpp\<close>), of exceptions, and \<^verbatim>\<open>FastVariant\<close> (\<^verbatim>\<open>src/src/DBus.h\<close>) as an object that
  refers to bytes it does not own.
\<close>

section \<open>The string classes\<close>

text \<open>\<^verbatim>\<open>size()\<close> returns a \<^verbatim>\<open>uint32_t\<close>; \<^verbatim>\<open>data()\<close> points to the characters.\<close>

definition ObjectPath_size :: "ObjectPath \<Rightarrow> 32 word" where
  "ObjectPath_size this = word_of_nat (length (GetPath this))"

definition ObjectPath_string :: "ObjectPath \<Rightarrow> string" where
  "ObjectPath_string this = GetPath this"

definition ObjectPath_data :: "ObjectPath \<Rightarrow> string" where
  "ObjectPath_data this = GetPath this"

definition ObjectPath_contains :: "ObjectPath \<Rightarrow> char \<Rightarrow> bool" where
  "ObjectPath_contains this c \<longleftrightarrow> c \<in> set (GetPath this)"

definition ObjectPath_equals :: "ObjectPath \<Rightarrow> string \<Rightarrow> bool" where
  "ObjectPath_equals this str \<longleftrightarrow> GetPath this = str"

definition Signature_size :: "Signature \<Rightarrow> 32 word" where
  "Signature_size this = word_of_nat (length (GetSignature this))"

definition Signature_string :: "Signature \<Rightarrow> string" where
  "Signature_string this = GetSignature this"

definition Signature_data :: "Signature \<Rightarrow> string" where
  "Signature_data this = GetSignature this"

definition Signature_contains :: "Signature \<Rightarrow> char \<Rightarrow> bool" where
  "Signature_contains this c \<longleftrightarrow> c \<in> set (GetSignature this)"

definition Signature_equals :: "Signature \<Rightarrow> string \<Rightarrow> bool" where
  "Signature_equals this str \<longleftrightarrow> GetSignature this = str"

definition UniqueName_size :: "DBusUniqueConnectionName \<Rightarrow> 32 word" where
  "UniqueName_size this = word_of_nat (length (unique_name this))"

definition UniqueName_string :: "DBusUniqueConnectionName \<Rightarrow> string" where
  "UniqueName_string this = unique_name this"

definition UniqueName_data :: "DBusUniqueConnectionName \<Rightarrow> string" where
  "UniqueName_data this = unique_name this"

definition UniqueName_contains :: "DBusUniqueConnectionName \<Rightarrow> char \<Rightarrow> bool" where
  "UniqueName_contains this c \<longleftrightarrow> c \<in> set (unique_name this)"

definition UniqueName_empty :: "DBusUniqueConnectionName \<Rightarrow> bool" where
  "UniqueName_empty this \<longleftrightarrow> unique_name this = []"

definition WellKnownName_size :: "DBusWellKnownName \<Rightarrow> 32 word" where
  "WellKnownName_size this = word_of_nat (length (well_known_name this))"

definition WellKnownName_string :: "DBusWellKnownName \<Rightarrow> string" where
  "WellKnownName_string this = well_known_name this"

definition WellKnownName_data :: "DBusWellKnownName \<Rightarrow> string" where
  "WellKnownName_data this = well_known_name this"

definition WellKnownName_contains :: "DBusWellKnownName \<Rightarrow> char \<Rightarrow> bool" where
  "WellKnownName_contains this c \<longleftrightarrow> c \<in> set (well_known_name this)"

definition WellKnownName_empty :: "DBusWellKnownName \<Rightarrow> bool" where
  "WellKnownName_empty this \<longleftrightarrow> well_known_name this = []"

definition InterfaceName_size :: "DBusInterfaceName \<Rightarrow> 32 word" where
  "InterfaceName_size this = word_of_nat (length (interface_name this))"

definition InterfaceName_string :: "DBusInterfaceName \<Rightarrow> string" where
  "InterfaceName_string this = interface_name this"

definition InterfaceName_data :: "DBusInterfaceName \<Rightarrow> string" where
  "InterfaceName_data this = interface_name this"

definition InterfaceName_contains :: "DBusInterfaceName \<Rightarrow> char \<Rightarrow> bool" where
  "InterfaceName_contains this c \<longleftrightarrow> c \<in> set (interface_name this)"

definition InterfaceName_equals :: "DBusInterfaceName \<Rightarrow> string \<Rightarrow> bool" where
  "InterfaceName_equals this str \<longleftrightarrow> interface_name this = str"

definition ErrorName_size :: "DBusErrorName \<Rightarrow> 32 word" where
  "ErrorName_size this = word_of_nat (length (error_name this))"

definition ErrorName_string :: "DBusErrorName \<Rightarrow> string" where
  "ErrorName_string this = error_name this"

definition ErrorName_data :: "DBusErrorName \<Rightarrow> string" where
  "ErrorName_data this = error_name this"

definition ErrorName_contains :: "DBusErrorName \<Rightarrow> char \<Rightarrow> bool" where
  "ErrorName_contains this c \<longleftrightarrow> c \<in> set (error_name this)"

definition ErrorName_empty :: "DBusErrorName \<Rightarrow> bool" where
  "ErrorName_empty this \<longleftrightarrow> error_name this = []"

definition ErrorName_equals :: "DBusErrorName \<Rightarrow> string \<Rightarrow> bool" where
  "ErrorName_equals this str \<longleftrightarrow> error_name this = str"

text \<open>What the marshaller asks of a class.\<close>

locale string_class =
  fixes get :: "'n \<Rightarrow> string" and size_of :: "'n \<Rightarrow> 32 word" and data_of :: "'n \<Rightarrow> string"
    and has :: "'n \<Rightarrow> char \<Rightarrow> bool" and string_of :: "'n \<Rightarrow> string"
  assumes size_get: "size_of x = word_of_nat (length (get x))"
    and data_get: "data_of x = get x"
    and has_get: "has x c \<longleftrightarrow> c \<in> set (get x)"
    and string_get: "string_of x = get x"
    and get_eq: "get x = get y \<Longrightarrow> x = y"
begin

lemma string_eq_iff: "string_of x = string_of y \<longleftrightarrow> x = y"
  using get_eq by (auto simp: string_get)

lemma view: "take (unat (size_of x)) (data_of x) = take (length (get x) mod 4294967296) (get x)"
  by (simp add: size_get data_get unat_of_nat)

lemma view_short: "length (get x) < 4294967296 \<Longrightarrow> take (unat (size_of x)) (data_of x) = get x"
  by (simp add: view)

lemma no_null: "\<not> has x (CHR 0x00) \<longleftrightarrow> CHR 0x00 \<notin> set (string_of x)"
  by (simp add: has_get string_get)

end

interpretation object_path_class: string_class GetPath ObjectPath_size ObjectPath_data ObjectPath_contains ObjectPath_string
  by unfold_locales (auto simp: ObjectPath_size_def ObjectPath_data_def ObjectPath_contains_def ObjectPath_string_def intro: ObjectPath.expand)

interpretation signature_class: string_class GetSignature Signature_size Signature_data Signature_contains Signature_string
  by unfold_locales (auto simp: Signature_size_def Signature_data_def Signature_contains_def Signature_string_def intro: Signature.expand)

interpretation unique_name_class: string_class unique_name UniqueName_size UniqueName_data UniqueName_contains UniqueName_string
  by unfold_locales (auto simp: UniqueName_size_def UniqueName_data_def UniqueName_contains_def UniqueName_string_def intro: DBusUniqueConnectionName.expand)

interpretation well_known_class: string_class well_known_name WellKnownName_size WellKnownName_data WellKnownName_contains WellKnownName_string
  by unfold_locales (auto simp: WellKnownName_size_def WellKnownName_data_def WellKnownName_contains_def WellKnownName_string_def intro: DBusWellKnownName.expand)

interpretation interface_class: string_class interface_name InterfaceName_size InterfaceName_data InterfaceName_contains InterfaceName_string
  by unfold_locales (auto simp: InterfaceName_size_def InterfaceName_data_def InterfaceName_contains_def InterfaceName_string_def intro: DBusInterfaceName.expand)

interpretation error_name_class: string_class error_name ErrorName_size ErrorName_data ErrorName_contains ErrorName_string
  by unfold_locales (auto simp: ErrorName_size_def ErrorName_data_def ErrorName_contains_def ErrorName_string_def intro: DBusErrorName.expand)

text \<open>The part of \<^verbatim>\<open>MarshalBasicStringlikeType\<close> for classes: \<^verbatim>\<open>std::string_view{value.data(), value.size()}\<close>.\<close>

definition Marshal_string_object :: "strty \<Rightarrow> string \<Rightarrow> 32 word \<Rightarrow> 8 word list \<Rightarrow> 8 word list result" where
  "Marshal_string_object st value_data value_size dbusType =
     MarshalBasicStringlikeType st (take (unat value_size) value_data) dbusType"

text \<open>An object path, a signature or an interface name is marshalled through \<^verbatim>\<open>data()\<close> and \<^verbatim>\<open>size()\<close> as its text, when that is
  shorter than 4 GiB, as a validated interface name always is; a longer one is silently cut, because \<^verbatim>\<open>size()\<close> has 32 bits.\<close>

theorem string_object_marshalled:
  "Marshal_string_object ObjectPathString (ObjectPath_data p) (ObjectPath_size p) out =
     MarshalBasicStringlikeType ObjectPathString (take (length (GetPath p) mod 4294967296) (GetPath p)) out"
  "Marshal_string_object SignatureString (Signature_data g) (Signature_size g) out =
     MarshalBasicStringlikeType SignatureString (take (length (GetSignature g) mod 4294967296) (GetSignature g)) out"
  "make_DBusInterfaceName s = Inr i \<Longrightarrow>
     Marshal_string_object InterfaceString (InterfaceName_data i) (InterfaceName_size i) out = MarshalBasicStringlikeType InterfaceString s out"
proof -
  show "Marshal_string_object ObjectPathString (ObjectPath_data p) (ObjectPath_size p) out =
     MarshalBasicStringlikeType ObjectPathString (take (length (GetPath p) mod 4294967296) (GetPath p)) out"
    by (simp add: Marshal_string_object_def object_path_class.view)
  show "Marshal_string_object SignatureString (Signature_data g) (Signature_size g) out =
     MarshalBasicStringlikeType SignatureString (take (length (GetSignature g) mod 4294967296) (GetSignature g)) out"
    by (simp add: Marshal_string_object_def signature_class.view)
  assume "make_DBusInterfaceName s = Inr i"
  then have s: "interface_name i = s" "ValidateDBusInterfaceName s = None" using interface.make_get by blast+
  have "length s < 4294967296"
    using s(2) by (auto simp: ValidateDBusInterfaceName_def MAX_DBUS_NAME_LENGTH_def split: if_splits)
  then show "Marshal_string_object InterfaceString (InterfaceName_data i) (InterfaceName_size i) out =
      MarshalBasicStringlikeType InterfaceString s out"
    using interface_class.view_short [of i] s(1) by (simp add: Marshal_string_object_def)
qed

theorem string_object_marshalled_witness:
  "\<exists>i. make_DBusInterfaceName ''a.b'' = Inr i \<and>
     Marshal_string_object InterfaceString (InterfaceName_data i) (InterfaceName_size i) [] =
       MarshalBasicStringlikeType InterfaceString ''a.b'' []"
proof -
  have m: "make_DBusInterfaceName ''a.b'' = Inr (MkInterfaceName ''a.b'')" by code_simp
  then show ?thesis using string_object_marshalled(3) [OF m, of "[]"] by blast
qed

section \<open>Messages\<close>

definition DBusMessage_GetFlags :: "DBusMessage \<Rightarrow> 8 word" where
  "DBusMessage_GetFlags this = m_flags this"

definition DBusMessage_GetPath :: "DBusMessage \<Rightarrow> ObjectPath option" where
  "DBusMessage_GetPath this = m_path this"

definition DBusMessage_GetSignature :: "DBusMessage \<Rightarrow> Signature option" where
  "DBusMessage_GetSignature this = m_signature this"

definition DBusMessage_GetInterface :: "DBusMessage \<Rightarrow> DBusInterfaceName option" where
  "DBusMessage_GetInterface this = m_interface this"

definition DBusMessage_GetDestination :: "DBusMessage \<Rightarrow> string option" where
  "DBusMessage_GetDestination this = m_destination this"

definition DBusMessage_GetMember :: "DBusMessage \<Rightarrow> string option" where
  "DBusMessage_GetMember this = m_method this"

definition DBusMessage_GetRawData :: "DBusMessage \<Rightarrow> 8 word list" where
  "DBusMessage_GetRawData this = m_messageBody this"

text \<open>\<^verbatim>\<open>DBusMessageHeader\<close> and \<^verbatim>\<open>IncomingDBusMessage\<close>, which asks its header.\<close>

definition Header_GetSerial :: "ReplyData \<Rightarrow> 32 word" where
  "Header_GetSerial this = rd_serial this"

definition Header_GetReplySerial :: "ReplyData \<Rightarrow> 32 word option" where
  "Header_GetReplySerial this = rd_replySerial this"

definition Header_GetMessageType :: "ReplyData \<Rightarrow> DBusMessageType" where
  "Header_GetMessageType this = rd_messageType this"

definition Header_GetHeaderFieldsLength :: "ReplyData \<Rightarrow> nat" where
  "Header_GetHeaderFieldsLength this = rd_headerFieldLength this"

definition Header_GetMessageLength :: "ReplyData \<Rightarrow> nat" where
  "Header_GetMessageLength this = rd_messageLength this"

definition Header_GetSignature :: "ReplyData \<Rightarrow> Signature option" where
  "Header_GetSignature this = rd_signature this"

definition Header_GetObjectPath :: "ReplyData \<Rightarrow> ObjectPath option" where
  "Header_GetObjectPath this = rd_objectPath this"

definition Header_GetInterface :: "ReplyData \<Rightarrow> DBusInterfaceName option" where
  "Header_GetInterface this = rd_interface this"

definition Header_GetMember :: "ReplyData \<Rightarrow> string option" where
  "Header_GetMember this = rd_member this"

definition Header_GetSender :: "ReplyData \<Rightarrow> string option" where
  "Header_GetSender this = rd_sender this"

definition Header_GetDestination :: "ReplyData \<Rightarrow> string option" where
  "Header_GetDestination this = rd_destination this"

definition Header_GetErrorName :: "ReplyData \<Rightarrow> string option" where
  "Header_GetErrorName this = rd_errorName this"

definition Incoming_GetHeader :: "IncomingDBusMessage \<Rightarrow> ReplyData" where
  "Incoming_GetHeader this = m_header this"

definition Incoming_GetMember :: "IncomingDBusMessage \<Rightarrow> string option" where
  "Incoming_GetMember this = Header_GetMember (m_header this)"

definition Incoming_GetSerial :: "IncomingDBusMessage \<Rightarrow> 32 word" where
  "Incoming_GetSerial this = Header_GetSerial (m_header this)"

definition Incoming_GetSender :: "IncomingDBusMessage \<Rightarrow> string option" where
  "Incoming_GetSender this = Header_GetSender (m_header this)"

definition Incoming_GetSignature :: "IncomingDBusMessage \<Rightarrow> Signature option" where
  "Incoming_GetSignature this = Header_GetSignature (m_header this)"

definition Incoming_GetRawData :: "IncomingDBusMessage \<Rightarrow> 8 word list" where
  "Incoming_GetRawData this = in_messageBody this"

lemmas accessor_defs =
  DBusMessage_GetFlags_def DBusMessage_GetPath_def DBusMessage_GetSignature_def DBusMessage_GetInterface_def
  DBusMessage_GetDestination_def DBusMessage_GetMember_def DBusMessage_GetRawData_def Header_GetSerial_def
  Header_GetReplySerial_def Header_GetMessageType_def Header_GetHeaderFieldsLength_def Header_GetMessageLength_def
  Header_GetSignature_def Header_GetObjectPath_def Header_GetInterface_def Header_GetMember_def Header_GetSender_def
  Header_GetDestination_def Header_GetErrorName_def Incoming_GetHeader_def Incoming_GetMember_def Incoming_GetSerial_def
  Incoming_GetSender_def Incoming_GetSignature_def Incoming_GetRawData_def

section \<open>Exceptions\<close>

text \<open>\<^verbatim>\<open>DBusError\<close>: its text, and its two members.\<close>

fun DBusError_what :: "error \<Rightarrow> string option" where
  "DBusError_what (DBusError errorName errorReason) = Some (''DBus error occurred: '' @ errorName @ '' - '' @ errorReason)"
| "DBusError_what _ = None"

fun DBusError_GetErrorName :: "error \<Rightarrow> string option" where
  "DBusError_GetErrorName (DBusError errorName errorReason) = Some errorName"
| "DBusError_GetErrorName _ = None"

fun DBusError_GetErrorReason :: "error \<Rightarrow> string option" where
  "DBusError_GetErrorReason (DBusError errorName errorReason) = Some errorReason"
| "DBusError_GetErrorReason _ = None"

section \<open>Fast variants\<close>

text \<open>A \<^verbatim>\<open>FastVariant\<close> holds a signature and a \<^verbatim>\<open>std::span\<close>: a block of memory that belongs to somebody else, an offset and a
  length. A block that has been freed is not in the memory.\<close>

type_synonym memory = "nat \<rightharpoonup> 8 word list"

record span =
  sp_block :: nat
  sp_offset :: nat
  sp_size :: nat

datatype fast_variant = FastDeserialized string span | FastNothing

definition span_bytes :: "memory \<Rightarrow> span \<Rightarrow> 8 word list result" where
  "span_bytes mem sp =
     (case mem (sp_block sp) of
        None \<Rightarrow> Inl UndefinedBehaviour
      | Some bs \<Rightarrow> if sp_offset sp + sp_size sp \<le> length bs then Inr (take (sp_size sp) (drop (sp_offset sp) bs)) else Inl UndefinedBehaviour)"

fun FastVariant_copy :: "fast_variant \<Rightarrow> fast_variant" where
  "FastVariant_copy (FastDeserialized sg data) = FastDeserialized sg data"
| "FastVariant_copy FastNothing = FastNothing"

fun FastVariant_assign :: "fast_variant \<Rightarrow> fast_variant \<Rightarrow> fast_variant" where
  "FastVariant_assign this (FastDeserialized sg data) = FastDeserialized sg data"
| "FastVariant_assign this FastNothing = this"

fun FastVariant_GetSignature :: "fast_variant \<Rightarrow> string result" where
  "FastVariant_GetSignature (FastDeserialized sg data) = Inr sg"
| "FastVariant_GetSignature FastNothing = Inl RuntimeError"

fun FastVariant_GetDataAlignment :: "fast_variant \<Rightarrow> nat result" where
  "FastVariant_GetDataAlignment (FastDeserialized sg data) = Inr 1"
| "FastVariant_GetDataAlignment FastNothing = Inl RuntimeError"

definition FastVariant_UnmarshalData ::
    "(nat \<Rightarrow> nat \<Rightarrow> 8 word) \<Rightarrow> nat \<Rightarrow> cty \<Rightarrow> memory \<Rightarrow> fast_variant \<Rightarrow> dval result" where
  "FastVariant_UnmarshalData junk n T mem this =
     (case this of
        FastNothing \<Rightarrow> Inl VariantUnmarshalError
      | FastDeserialized sg data \<Rightarrow>
          if GetTypeSignature T \<noteq> sg then Inl VariantUnmarshalError
          else bindE (span_bytes mem data) (\<lambda>bs. bindE (UnmarshalDBusTypeImpl junk n T bs 0) (\<lambda>(v, p). Inr v)))"

text \<open>A fast variant, and every copy of it, reads what a variant with the same bytes reads as long as the message's buffer
  lives; once the buffer is freed, reading it, or a copy made before, is undefined, and only a wrong type is still reported.\<close>

theorem fast_variant_borrows:
  assumes "span_bytes mem data = Inr bs" and "fv = FastVariant_assign x (FastVariant_copy (FastDeserialized sg data))"
  shows "FastVariant_UnmarshalData junk n T mem fv = Variant_UnmarshalData junk n T (VFastDeser sg bs)"
    and "FastVariant_UnmarshalData junk n T mem fv = Variant_UnmarshalData junk n T (VDeser sg bs)"
    and "FastVariant_UnmarshalData junk n T (mem(sp_block data := None)) fv =
      Inl (if GetTypeSignature T = sg then UndefinedBehaviour else VariantUnmarshalError)"
  using assms by (simp_all add: FastVariant_UnmarshalData_def span_bytes_def)

theorem fast_variant_borrows_witness:
  "FastVariant_UnmarshalData no_junk 9 (TFixed U8) ([1 \<mapsto> [7, 5]] (1 := None))
     (FastVariant_assign FastNothing (FastVariant_copy (FastDeserialized ''y'' \<lparr> sp_block = 1, sp_offset = 1, sp_size = 1 \<rparr>))) =
   Inl UndefinedBehaviour"
  using fast_variant_borrows(3) [of "[1 \<mapsto> [7, 5]]" "\<lparr> sp_block = 1, sp_offset = 1, sp_size = 1 \<rparr>" "[5]" _ FastNothing "''y''" no_junk 9 "TFixed U8"]
  by (simp add: span_bytes_def)

end
