(* ===== verification/ConstexprString.thy ===== *)
theory ConstexprString
  imports DBusHelpers
begin

text \<open>
  \<^verbatim>\<open>ConstexprString\<close> of \<^verbatim>\<open>src/src/DBusHelpers.h\<close>, a string of a length known at compile time in an array with a
  terminator, with its loops over indices, and the signature of a type as it is computed with these arrays.
\<close>

section \<open>The class\<close>

record const_string =
  cs_data :: "char list"
  cs_size :: nat

text \<open>The value-initialised object of a length.\<close>

definition new_ConstexprString :: "nat \<Rightarrow> const_string" where
  "new_ConstexprString N = \<lparr> cs_data = replicate (N + 1) (CHR 0x00), cs_size = N \<rparr>"

text \<open>The loop \<open>for (i = 0; i < N; ++i) dst[off + i] = src[i]\<close>, from \<open>i\<close> on.\<close>

function copy_loop :: "nat \<Rightarrow> nat \<Rightarrow> nat \<Rightarrow> char list \<Rightarrow> char list \<Rightarrow> char list" where
  "copy_loop N off i src dst = (if i < N then copy_loop N off (i + 1) src (dst[off + i := src ! i]) else dst)"
  by pat_completeness auto
termination
  by (relation "measure (\<lambda>(N, off, i, src, dst). N - i)") auto

declare copy_loop.simps [simp del]

text \<open>The constructor from a literal, an array whose last character is the terminator; every element is assigned.\<close>

definition make_ConstexprString :: "char list \<Rightarrow> const_string" where
  "make_ConstexprString str =
     (let N = length str - 1; new = new_ConstexprString N
      in new\<lparr> cs_data := (copy_loop N 0 0 str (cs_data new))[N := CHR 0x00] \<rparr>)"

definition Concat :: "const_string \<Rightarrow> const_string \<Rightarrow> const_string" where
  "Concat this str =
     (let N = cs_size this; N2 = cs_size str; newStr = new_ConstexprString (N + N2);
          d1 = copy_loop N 0 0 (cs_data this) (cs_data newStr);
          d2 = copy_loop N2 N 0 (cs_data str) d1
      in newStr\<lparr> cs_data := d2[N + N2 := CHR 0x00] \<rparr>)"

definition ConstexprString_equal :: "const_string \<Rightarrow> const_string \<Rightarrow> bool" where
  "ConstexprString_equal this other \<longleftrightarrow> cs_size this = cs_size other \<and> cs_data this = cs_data other"

function same_from :: "nat \<Rightarrow> nat \<Rightarrow> char list \<Rightarrow> string \<Rightarrow> bool" where
  "same_from N i src other = (if i < N then (if src ! i \<noteq> other ! i then False else same_from N (i + 1) src other) else True)"
  by pat_completeness auto
termination
  by (relation "measure (\<lambda>(N, i, src, other). N - i)") auto

declare same_from.simps [simp del]

definition ConstexprString_equal_string :: "const_string \<Rightarrow> string \<Rightarrow> bool" where
  "ConstexprString_equal_string this other =
     (if cs_size this \<noteq> length other then False else same_from (cs_size this) 0 (cs_data this) other)"

text \<open>The conversion constructs from a pointer and stops at the first null character.\<close>

definition ConstexprString_string :: "const_string \<Rightarrow> string" where
  "ConstexprString_string this = takeWhile (\<lambda>c. c \<noteq> CHR 0x00) (cs_data this)"

section \<open>Signatures at compile time\<close>

definition make_literal :: "string \<Rightarrow> const_string" where
  "make_literal s = make_ConstexprString (s @ [CHR 0x00])"

fun constexpr_GetTypeSignature :: "cty \<Rightarrow> const_string" and BuildStructSignatureImpl :: "cty list \<Rightarrow> const_string" where
  "constexpr_GetTypeSignature (TFixed U8) = make_literal ''y''"
| "constexpr_GetTypeSignature (TFixed Bool) = make_literal ''b''"
| "constexpr_GetTypeSignature (TFixed I16) = make_literal ''n''"
| "constexpr_GetTypeSignature (TFixed U16) = make_literal ''q''"
| "constexpr_GetTypeSignature (TFixed I32) = make_literal ''i''"
| "constexpr_GetTypeSignature (TFixed U32) = make_literal ''u''"
| "constexpr_GetTypeSignature (TFixed I64) = make_literal ''x''"
| "constexpr_GetTypeSignature (TFixed U64) = make_literal ''t''"
| "constexpr_GetTypeSignature (TFixed Double) = make_literal ''d''"
| "constexpr_GetTypeSignature (TString StdString) = make_literal ''s''"
| "constexpr_GetTypeSignature (TString InterfaceString) = make_literal ''s''"
| "constexpr_GetTypeSignature (TString ObjectPathString) = make_literal ''o''"
| "constexpr_GetTypeSignature (TString SignatureString) = make_literal ''g''"
| "constexpr_GetTypeSignature (TArr n t) = Concat (make_literal ''a'') (constexpr_GetTypeSignature t)"
| "constexpr_GetTypeSignature (TTuple ts) = Concat (make_literal ''('') (BuildStructSignatureImpl ts)"
| "constexpr_GetTypeSignature TVariant = make_literal ''v''"
| "constexpr_GetTypeSignature TFastVariant = make_literal ''v''"
| "constexpr_GetTypeSignature (TMap k v) =
     Concat (Concat (Concat (make_literal [CHR ''a'', CHR 0x7B]) (constexpr_GetTypeSignature k)) (constexpr_GetTypeSignature v))
       (make_literal [CHR 0x7D])"
| "BuildStructSignatureImpl [] = make_literal '')''"
| "BuildStructSignatureImpl (t # ts) = Concat (constexpr_GetTypeSignature t) (BuildStructSignatureImpl ts)"

fun constexpr_MultipleCompleteTypes :: "cty list \<Rightarrow> const_string" where
  "constexpr_MultipleCompleteTypes [] = new_ConstexprString 0"
| "constexpr_MultipleCompleteTypes (t # ts) = Concat (constexpr_GetTypeSignature t) (constexpr_MultipleCompleteTypes ts)"

section \<open>What the arrays hold\<close>

definition array_holds :: "const_string \<Rightarrow> string \<Rightarrow> bool" where
  "array_holds cs s \<longleftrightarrow> cs_data cs = s @ [CHR 0x00] \<and> cs_size cs = length s"

lemma copy_loop_spec:
  "N \<le> length src \<Longrightarrow> off + N \<le> length dst \<Longrightarrow> i \<le> N \<Longrightarrow>
   copy_loop N off i src dst = take (off + i) dst @ drop i (take N src) @ drop (off + N) dst"
proof (induction N off i src dst rule: copy_loop.induct)
  case (1 N off i src dst)
  show ?case
  proof (cases "i < N")
    case True
    have "drop i (take N src) = src ! i # drop (i + 1) (take N src)"
      using True 1(2) by (subst Cons_nth_drop_Suc [symmetric]) simp_all
    moreover have "take (off + (i + 1)) (dst[off + i := src ! i]) = take (off + i) dst @ [src ! i]"
      using True 1(3) by (simp add: take_Suc_conv_app_nth take_update_swap list_update_append)
    ultimately show ?thesis
      using 1(1) [OF True] 1(2,3) True by (subst copy_loop.simps) simp
  next
    case False
    then show ?thesis using 1(4) by (subst copy_loop.simps) simp
  qed
qed

lemma terminator: "n = m \<Longrightarrow> drop n (c # replicate m c) = [c]"
  by (simp add: replicate_append_same [symmetric])

lemma array_holds_new: "array_holds (new_ConstexprString 0) []"
  by (simp add: array_holds_def new_ConstexprString_def)

lemma array_holds_make_literal: "array_holds (make_literal s) s"
  by (simp add: array_holds_def make_literal_def make_ConstexprString_def new_ConstexprString_def copy_loop_spec Let_def list_update_append terminator)

lemma array_holds_Concat: "array_holds a s \<Longrightarrow> array_holds b t \<Longrightarrow> array_holds (Concat a b) (s @ t)"
  by (simp add: array_holds_def Concat_def new_ConstexprString_def copy_loop_spec Let_def list_update_append terminator)

lemma array_holds_signatures:
  "array_holds (constexpr_GetTypeSignature t) (GetTypeSignature t)"
  "array_holds (BuildStructSignatureImpl ts) (concat (map GetTypeSignature ts) @ '')'')"
proof (induction t and ts rule: constexpr_GetTypeSignature_BuildStructSignatureImpl.induct)
  case (14 n t)
  then show ?case using array_holds_Concat [OF array_holds_make_literal [of "''a''"]] by simp
next
  case (15 ts)
  then show ?case using array_holds_Concat [OF array_holds_make_literal [of "''(''"]] by simp
next
  case (18 k v)
  then show ?case
    using array_holds_Concat [OF array_holds_Concat [OF array_holds_Concat [OF array_holds_make_literal [of "[CHR ''a'', CHR 0x7B]"]]] array_holds_make_literal [of "[CHR 0x7D]"]]
    by simp
next
  case (20 t ts)
  then show ?case using array_holds_Concat by fastforce
qed (simp_all add: array_holds_make_literal)

lemma same_from_iff: "same_from N i src other \<longleftrightarrow> (\<forall>j. i \<le> j \<and> j < N \<longrightarrow> src ! j = other ! j)"
proof (induction N i src other rule: same_from.induct)
  case (1 N i src other)
  have "(\<forall>j. i \<le> j \<and> j < N \<longrightarrow> src ! j = other ! j) \<longleftrightarrow>
      src ! i = other ! i \<and> (\<forall>j. i + 1 \<le> j \<and> j < N \<longrightarrow> src ! j = other ! j)" if "i < N"
    using that by (metis Suc_eq_plus1 Suc_leI dual_order.refl le_SucI le_neq_implies_less not_less_eq_eq)
  then show ?case using 1 by (subst same_from.simps) auto
qed

lemma array_holds_equal_string: "array_holds cs s \<Longrightarrow> ConstexprString_equal_string cs other \<longleftrightarrow> other = s"
  by (auto simp: array_holds_def ConstexprString_equal_string_def same_from_iff nth_append intro: nth_equalityI)

lemma array_holds_string: "array_holds cs s \<Longrightarrow> CHR 0x00 \<notin> set s \<Longrightarrow> ConstexprString_string cs = s"
  by (auto simp: array_holds_def ConstexprString_string_def takeWhile_append2 intro: takeWhile_append2 [THEN trans])

lemma type_signature_no_null: "CHR 0x00 \<notin> set (GetTypeSignature t)"
  by (induction t rule: GetTypeSignature.induct) auto

text \<open>C23: The signature of a type that is computed at compile time, by loops over the indices of arrays, is its signature: the
  array holds it with a terminator and its length, it converts to it, and compares equal to no other string;
  two types have the same array exactly when they have the same signature.\<close>

theorem constexpr_signature:
  "ConstexprString_string (constexpr_GetTypeSignature t) = GetTypeSignature t \<and>
   cs_data (constexpr_GetTypeSignature t) = GetTypeSignature t @ [CHR 0x00] \<and>
   cs_size (constexpr_GetTypeSignature t) = length (GetTypeSignature t) \<and>
   (ConstexprString_equal_string (constexpr_GetTypeSignature t) other \<longleftrightarrow> other = GetTypeSignature t) \<and>
   (ConstexprString_equal (constexpr_GetTypeSignature t) (constexpr_GetTypeSignature u) \<longleftrightarrow> GetTypeSignature t = GetTypeSignature u) \<and>
   ConstexprString_string (constexpr_MultipleCompleteTypes ts) = BuildMultipleCompleteTypesSignature ts"
proof (intro conjI)
  note h = array_holds_signatures(1)
  have m: "array_holds (constexpr_MultipleCompleteTypes ts) (BuildMultipleCompleteTypesSignature ts)"
    by (induction ts) (simp_all add: BuildMultipleCompleteTypesSignature_def array_holds_new array_holds_Concat h)
  have n: "CHR 0x00 \<notin> set (BuildMultipleCompleteTypesSignature ts)"
    using type_signature_no_null by (auto simp: BuildMultipleCompleteTypesSignature_def)
  show "ConstexprString_string (constexpr_GetTypeSignature t) = GetTypeSignature t"
    by (rule array_holds_string [OF h type_signature_no_null])
  show "ConstexprString_equal_string (constexpr_GetTypeSignature t) other \<longleftrightarrow> other = GetTypeSignature t"
    by (rule array_holds_equal_string [OF h])
  show "cs_data (constexpr_GetTypeSignature t) = GetTypeSignature t @ [CHR 0x00]"
    "cs_size (constexpr_GetTypeSignature t) = length (GetTypeSignature t)"
    using h by (simp_all add: array_holds_def)
  show "ConstexprString_equal (constexpr_GetTypeSignature t) (constexpr_GetTypeSignature u) \<longleftrightarrow> GetTypeSignature t = GetTypeSignature u"
    using h [of t] h [of u] by (auto simp: array_holds_def ConstexprString_equal_def)
  show "ConstexprString_string (constexpr_MultipleCompleteTypes ts) = BuildMultipleCompleteTypesSignature ts"
    by (rule array_holds_string [OF m n])
qed

end
