(* ===== verification/Templates.thy ===== *)
theory Templates
  imports Messages "HOL-Library.Sublist"
begin

text \<open>
  Two small templates: the combiner of \<^verbatim>\<open>src/src/AwaitableSignal.h\<close>, with the callback wrapper of
  \<^verbatim>\<open>src/src/InvokeAsyncCallback.h\<close>, and the name of a type, which \<^verbatim>\<open>src/src/ConstexprTypeName.h\<close> cuts at compile time out of
  what the compiler says a function is called.
\<close>

section \<open>Awaitable signals\<close>

text \<open>A slot is called for a factory, the factory makes an awaitable, and awaiting that gives a value or an exception.\<close>

datatype 'f await_event = SlotCalled 'f | Awaited 'f

text \<open>\<^verbatim>\<open>AwaitAll\<close>: the value last awaited, starting from an uninitialised one; an exception leaves the loop.\<close>

fun AwaitAll :: "('f \<Rightarrow> 'r result) \<Rightarrow> 'f list \<Rightarrow> 'r \<Rightarrow> 'f await_event list \<times> 'r result" where
  "AwaitAll run [] v0 = ([], Inr v0)"
| "AwaitAll run (a # awaitables) v0 =
     (case run a of
        Inl e \<Rightarrow> ([Awaited a], Inl e)
      | Inr v \<Rightarrow> (let (ev, r) = AwaitAll run awaitables v in (Awaited a # ev, r)))"

definition AwaitableCombiner :: "('f \<Rightarrow> 'r result) \<Rightarrow> 'f list \<Rightarrow> 'r \<Rightarrow> 'f await_event list \<times> 'r result" where
  "AwaitableCombiner run slots uninitialised =
     (let (ev, r) = AwaitAll run slots uninitialised in (map SlotCalled slots @ ev, r))"

definition InvokeAsyncCallback :: "(IncomingDBusMessage \<Rightarrow> 'r result) \<Rightarrow> IncomingDBusMessage \<Rightarrow> 'r result" where
  "InvokeAsyncCallback callback message = callback message"

text \<open>An awaitable signal calls all its slots before it awaits anything, then awaits them in the order of their connection: the
  result is the value of the last one, or the exception of the first that throws, after which none is awaited.\<close>

theorem signal_awaits_in_order:
  "\<forall>s \<in> set slots. \<not> isl (run s) \<Longrightarrow>
     AwaitableCombiner run slots v0 =
       (map SlotCalled slots @ map Awaited slots, if slots = [] then Inr v0 else run (last slots))"
  "\<forall>s \<in> set before. \<not> isl (run s) \<Longrightarrow> run s = Inl e \<Longrightarrow>
     AwaitableCombiner run (before @ s # after) v0 =
       (map SlotCalled (before @ s # after) @ map Awaited (before @ [s]), Inl e)"
proof -
  show "AwaitableCombiner run slots v0 =
      (map SlotCalled slots @ map Awaited slots, if slots = [] then Inr v0 else run (last slots))"
    if "\<forall>s \<in> set slots. \<not> isl (run s)"
  proof -
    have "AwaitAll run slots v0 = (map Awaited slots, if slots = [] then Inr v0 else run (last slots))"
      using that
    proof (induction slots arbitrary: v0)
      case (Cons s slots)
      then show ?case by (cases "run s") auto
    qed simp
    then show ?thesis by (simp add: AwaitableCombiner_def)
  qed
  show "AwaitableCombiner run (before @ s # after) v0 =
      (map SlotCalled (before @ s # after) @ map Awaited (before @ [s]), Inl e)"
    if "\<forall>s \<in> set before. \<not> isl (run s)" "run s = Inl e"
  proof -
    have "AwaitAll run (before @ s # after) v0 = (map Awaited (before @ [s]), Inl e)"
      using that
    proof (induction before arbitrary: v0)
      case (Cons b before)
      then show ?case by (cases "run b") auto
    qed simp
    then show ?thesis by (simp add: AwaitableCombiner_def)
  qed
qed

theorem signal_awaits_in_order_witness:
  "AwaitableCombiner (\<lambda>f. if f = (2::nat) then Inl RuntimeError else Inr f) [1, 2, 3] 0 =
     ([SlotCalled 1, SlotCalled 2, SlotCalled 3, Awaited 1, Awaited 2], Inl RuntimeError) \<and>
   AwaitableCombiner (\<lambda>f. Inr f) [1, 2, 3::nat] 0 =
     ([SlotCalled 1, SlotCalled 2, SlotCalled 3, Awaited 1, Awaited 2, Awaited 3], Inr 3)"
  using signal_awaits_in_order(2) [of "[1]" "\<lambda>f. if f = (2::nat) then Inl RuntimeError else Inr f" 2 RuntimeError "[3]" 0]
    signal_awaits_in_order(1) [of "[1, 2, 3]" "\<lambda>f. Inr f :: nat result" 0]
  by simp

section \<open>Type names\<close>

text \<open>\<^verbatim>\<open>find\<close> and \<^verbatim>\<open>find_last_of\<close> of \<^verbatim>\<open>std::string_view\<close>.\<close>

fun find_string :: "string \<Rightarrow> string \<Rightarrow> nat option" where
  "find_string p [] = (if p = [] then Some 0 else None)"
| "find_string p (c # cs) = (if prefix p (c # cs) then Some 0 else map_option Suc (find_string p cs))"

definition find_last_of :: "char \<Rightarrow> string \<Rightarrow> nat option" where
  "find_last_of c s = (if c \<in> set s then Some (length s - 1 - length (takeWhile (\<lambda>d. d \<noteq> c) (rev s))) else None)"

text \<open>The two branches for the compilers; the name of the function is a parameter. If a mark is not found, the
  constant expression does not compile.\<close>

datatype compiler = Clang | GNUC

definition ConstexprTypeName :: "compiler \<Rightarrow> string \<Rightarrow> string option" where
  "ConstexprTypeName cc wrappedName =
     (case (find_last_of (case cc of Clang \<Rightarrow> CHR '']'' | GNUC \<Rightarrow> CHR '';'') wrappedName,
            find_string (case cc of Clang \<Rightarrow> ''[T = '' | GNUC \<Rightarrow> ''with T = '') wrappedName) of
        (Some endOfType, Some i) \<Rightarrow>
          let beginOfType = i + (case cc of Clang \<Rightarrow> 4 | GNUC \<Rightarrow> 8)
          in if beginOfType + 1 \<le> endOfType
             then Some (take (endOfType - beginOfType - 1) (drop (beginOfType + 1) wrappedName)) else None
      | _ \<Rightarrow> None)"

lemma find_string_first:
  "\<forall>i < length pre. \<not> prefix p (drop i (pre @ p @ post)) \<Longrightarrow> find_string p (pre @ p @ post) = Some (length pre)"
proof (induction pre)
  case Nil
  have "prefix p (p @ post)" by simp
  then show ?case by (cases "p @ post") (auto simp del: prefix_append)
next
  case (Cons c pre)
  have "\<not> prefix p (c # pre @ p @ post)" using Cons.prems by (metis append_Cons drop0 length_Cons zero_less_Suc)
  moreover have "\<forall>i < length pre. \<not> prefix p (drop i (pre @ p @ post))"
    using Cons.prems by (metis Suc_less_eq append_Cons drop_Suc_Cons length_Cons)
  ultimately show ?case using Cons.IH by simp
qed

lemma find_last_of_last: "c \<notin> set post \<Longrightarrow> find_last_of c (pre @ c # post) = Some (length pre)"
  by (simp add: find_last_of_def takeWhile_append)

text \<open>The name of the type is what stands between the compiler's first mark and its last delimiter.\<close>

theorem type_name_extracted:
  "\<forall>i < length pre. \<not> prefix ''[T = '' (drop i (pre @ ''[T = '' @ ty @ '']'')) \<Longrightarrow>
     ConstexprTypeName Clang (pre @ ''[T = '' @ ty @ '']'') = Some ty"
  "\<forall>i < length pre. \<not> prefix ''with T = '' (drop i (pre @ ''with T = '' @ ty @ '';'' @ post)) \<Longrightarrow> CHR '';'' \<notin> set post \<Longrightarrow>
     ConstexprTypeName GNUC (pre @ ''with T = '' @ ty @ '';'' @ post) = Some ty"
proof -
  show "ConstexprTypeName Clang (pre @ ''[T = '' @ ty @ '']'') = Some ty"
    if "\<forall>i < length pre. \<not> prefix ''[T = '' (drop i (pre @ ''[T = '' @ ty @ '']''))"
    using find_string_first [OF that] find_last_of_last [of "CHR '']''" "[]" "pre @ ''[T = '' @ ty"]
    by (simp add: ConstexprTypeName_def)
  show "ConstexprTypeName GNUC (pre @ ''with T = '' @ ty @ '';'' @ post) = Some ty"
    if "\<forall>i < length pre. \<not> prefix ''with T = '' (drop i (pre @ ''with T = '' @ ty @ '';'' @ post))" "CHR '';'' \<notin> set post"
    using find_string_first [OF that(1)] find_last_of_last [OF that(2), of "pre @ ''with T = '' @ ty"]
    by (simp add: ConstexprTypeName_def)
qed

theorem type_name_extracted_witness:
  "ConstexprTypeName GNUC (''WrappedTypeName() ['' @ ''with T = '' @ ''std::vector<int>'' @ '';'' @ '' std::string_view = x]'') =
     Some ''std::vector<int>''"
  by (rule type_name_extracted(2)) (code_simp, simp)

end
