(* ===== verification/Spec2Isabelle.thy ===== *)
theory Spec2Isabelle
  imports Sync Log Accessors ConstexprString Templates
begin

text \<open>
  CxxBus: a model of the library and its properties.

  CxxBus is a C++ library that talks to the D-Bus daemon with coroutines of Boost.Asio. A user builds a
  \<^verbatim>\<open>DBusMessage\<close>, a connection serialises it under a serial of its own and writes it to a socket; the read loop cuts
  the bytes that arrive into messages, parses their headers and hands each to \<^verbatim>\<open>HandleReadMessage\<close>, which gives replies
  to the coroutine that waits for them, signals to the match rules, and other messages to filters, path handlers and
  receivers. All sources are under \<^verbatim>\<open>src/src/\<close>.

  Parts, in the order of the imports:

  \<^item> \<^verbatim>\<open>Prelude\<close>: results with errors as values (\<open>'a result\<close>, one constructor per exception class, one for
    undefined behaviour and one for fuel that ran out), 32-bit and 64-bit arithmetic with wrap-around, padding,
    little-endian numbers, bytes and characters.
  \<^item> \<^verbatim>\<open>DBusTypes\<close>, \<^verbatim>\<open>DBusHelpers\<close> (\<^verbatim>\<open>DBusTypes.h/.cpp\<close>, \<^verbatim>\<open>DBusConcepts.h\<close>, \<^verbatim>\<open>DBusHelpers.h/.cpp\<close>): names and
    their validation, the enumerations, the sendable C++ types as a datatype, their signatures and alignments at
    compile time and at run time, the address of the daemon. Signatures are balanced and determine the wire layout.
  \<^item> \<^verbatim>\<open>Values\<close>, \<^verbatim>\<open>Marshal\<close>, \<^verbatim>\<open>Unmarshal\<close> (\<^verbatim>\<open>DBus.h\<close>): values, \<^verbatim>\<open>Variant\<close> with its small-buffer optimisation, every
    marshalling and unmarshalling template. Uninitialised memory is a function \<open>junk\<close> and a parameter.
  \<^item> \<^verbatim>\<open>WireFormat\<close>, \<^verbatim>\<open>Roundtrip\<close>, \<^verbatim>\<open>Safety\<close>: the layout of the specification (\<open>body\<close>) with the marshaller as its
    refinement; parsing as its inverse, also inside a larger message; termination, and which reads stay in bounds.
  \<^item> \<^verbatim>\<open>VariantObjects\<close>: variants as C++ objects that share contents, when copied, moved, assigned and compared.
  \<^item> \<^verbatim>\<open>Messages\<close>, \<^verbatim>\<open>MessageRoundtrip\<close> (\<^verbatim>\<open>DBusMessage.h/.cpp\<close>, \<^verbatim>\<open>IncomingDBusMessage.h/.cpp\<close>, \<^verbatim>\<open>ReadLoop\<close> in
    \<^verbatim>\<open>DBusConnection.txx\<close>): building, serialising, framing and parsing messages; \<^verbatim>\<open>Inspect\<close> has their
    descriptions.
  \<^item> \<^verbatim>\<open>MatchRule\<close> (\<^verbatim>\<open>DBusMatchRule.h/.cpp\<close>): rules, their text, the walk over a message's arguments, matching; the
    specification is \<open>criteria_hold\<close>, which has each criterion as the comments of the header file document it. The code differs from
    it for senders with a cached name and for namespaces that occur elsewhere than in front (\<open>namespace_anywhere\<close>).
  \<^item> \<^verbatim>\<open>NameCache\<close> (\<^verbatim>\<open>DBusNameCache.h/.txx\<close>): who owns which name; it refines the daemon's view of owners.
  \<^item> \<^verbatim>\<open>Connection\<close>, \<^verbatim>\<open>Exchange\<close> (\<^verbatim>\<open>DBusConnection.h/.txx\<close>): the state of a connection, \<^verbatim>\<open>SendMessageInternal\<close> cut at
    its suspension points, and the delivery of replies. The slots and the overflow map refine one map from
    serials to replies (\<open>calls\<close>); \<open>exchange_step\<close> is every interleaving of sending, answering and collecting.
  \<^item> \<^verbatim>\<open>Handlers\<close> (\<^verbatim>\<open>DBusConnection.txx\<close>): registering match rules, path handlers, filters and receivers, and owning names.
    The locale \<open>handler_registry\<close> states what the two registries share and is interpreted for both.
  \<^item> \<^verbatim>\<open>Dispatch\<close> (\<^verbatim>\<open>HandleReadMessage\<close>, \<^verbatim>\<open>SendMessageNoReply\<close>): who is called for a message, and what is answered.
  \<^item> \<^verbatim>\<open>Lifecycle\<close> (\<^verbatim>\<open>Connect\<close>, \<^verbatim>\<open>AuthenticateDBusConnectionImpl\<close>, \<^verbatim>\<open>SendMessage\<close>, \<^verbatim>\<open>Close\<close>, \<^verbatim>\<open>HandleConnectionLost\<close>).
  \<^item> \<^verbatim>\<open>Threads\<close> (\<^verbatim>\<open>HandleReadMessage\<close> with \<^verbatim>\<open>SingleThreaded\<close> false): dispatch by posting coroutines to the user's
    context and the internal one. A coroutine is suspended in every callback of the user that it awaits, and \<open>thread_step\<close> is every
    interleaving of the coroutines of the strand, the user's context and the internal one.
    The single-threaded dispatch of \<^verbatim>\<open>Dispatch\<close> is its reference: the same callbacks are called.
  \<^item> \<^verbatim>\<open>Sync\<close> (\<^verbatim>\<open>WaitOnAsyncWork\<close>, the \<^verbatim>\<open>Sync\<close> functions, \<^verbatim>\<open>Create\<close>, \<^verbatim>\<open>CreateSync\<close>, \<^verbatim>\<open>CreateDetached\<close>,
    \<^verbatim>\<open>CloseSync\<close>, the destructor, \<^verbatim>\<open>OnDisconnected\<close>): threads that block on the strand, and the life of the object;
    a call that never returns is \<open>None\<close> or \<open>NeverReturns\<close>.
  \<^item> \<^verbatim>\<open>Log\<close> (\<^verbatim>\<open>Log.h/.cpp\<close>): which messages are logged.
  \<^item> \<^verbatim>\<open>Accessors\<close>: the getters, comparisons and conversions of the classes for names, signatures and paths
    (what they share is the locale \<open>string_class\<close>, interpreted for each class), of messages and errors, and
    \<^verbatim>\<open>FastVariant\<close> with the message it points into.
  \<^item> \<^verbatim>\<open>ConstexprString\<close> (\<^verbatim>\<open>DBusHelpers.h\<close>): strings at compile time with their index loops, and the signature of
    a type computed with them, which equals that of \<^verbatim>\<open>DBusHelpers\<close>.
  \<^item> \<^verbatim>\<open>Templates\<close> (\<^verbatim>\<open>AwaitableSignal.h\<close>, \<^verbatim>\<open>InvokeAsyncCallback.h\<close>, \<^verbatim>\<open>ConstexprTypeName.h\<close>).
  \<^item> This theory: a call and its reply through all of these, and a stream of replies (\<open>serve\<close>).

  Conventions. A throwing function is an \<open>Inl\<close>, a function with an exception after a change of state returns
  both. A coroutine is one function per stretch between two suspensions. What is not in \<^verbatim>\<open>src/src\<close> is a parameter:
  the channels of Boost.Asio (\<open>channel_ops\<close>; the properties assume \<open>fifo_channel\<close>, that they are queues, and the
  witnesses use \<open>list_channel\<close>), the daemon (\<open>bus\<close>, a function from calls to replies), the user's callbacks
  (\<open>env_runs\<close>), the order in which an unordered map is traversed, and the environment variables. A daemon may leave a call without
  an answer for ever, or the socket may fail: these are the errors \<open>NoAnswer\<close> and \<open>SystemError\<close>. The contexts of
  Boost.Asio are queues: a context starts work in the order in which one thread posted it. An error that is no exception of the
  program (\<open>thrown\<close> says which are) is never handled like one: a message whose parsing loops for ever ends the read loop
  (\<open>Broken\<close>), and a coroutine that does so blocks its thread (\<open>th_stuck\<close>).

  Fuel. Decoders take a bound \<open>n\<close> on their loops. For types without variants \<open>n\<close> above the length of the input is
  enough for every input (\<open>unmarshal_returns\<close>); for messages that were marshalled it is enough for all types, and
  each property states its bound. The walk over the arguments of a message needs as many steps as there are arguments. A
  decoder on a malicious variant may need more than any \<open>n\<close> (\<open>variant_never_returns\<close>).

  Not modelled. Data races: filters and receivers are registered in the user's context and read on the strand, and path handlers are
  registered on the strand and read in the user's context, without synchronisation; the properties of \<^verbatim>\<open>Threads\<close> are about
  registries that do not change. The lifetimes of objects, but for the destructor and the messages under fast
  variants (\<^verbatim>\<open>weak_ptr\<close> guards are taken to succeed); a user's context that several threads run; partial writes and the
  interleaving of bytes of concurrent writes; the texts of exceptions, but for those of \<^verbatim>\<open>DBusError\<close> and the type
  names in them; hashing; explicit template instantiations
  (\<^verbatim>\<open>DBus.cpp\<close>), which define nothing; the vendored \<^verbatim>\<open>magic_enum\<close>; tests, benchmarks and the build.
\<close>

section \<open>Properties of the whole\<close>

lemma reply_with_body:
  assumes v: "wt v" "sendable v" "length (GetTypeSignature (type_of v)) < 256" "length (body GA v 0) < 67108864"
    and sender: "rd_sender (m_header incoming) = None"
    and reply: "DBusMessage_Parameter v (DBusMessage_Reply incoming) = Inr reply"
  shows "message_ok reply" "m_messageType reply = MT_METHOD_RETURN" "m_replySerial reply = Some (rd_serial (m_header incoming))"
    "m_messageBody reply = body GA v 0" "m_signature reply = Some (MkSignature (GetTypeSignature (type_of v)))"
proof -
  have r: "reply = (DBusMessage_Reply incoming)
      \<lparr> m_signature := Some (MkSignature (GetTypeSignature (type_of v))), m_messageBody := body GA v 0 \<rparr>"
    using reply by (simp add: DBusMessage_Parameter_def marshal_body [OF v(1,2,4)])
  show "message_ok reply"
    using v(3) sender by (simp add: r message_ok_def complete_def DBusMessage_Reply_def new_DBusMessage_def plain_def
        signature_no_null Signature_Empty_def)
  show "m_messageType reply = MT_METHOD_RETURN" "m_replySerial reply = Some (rd_serial (m_header incoming))"
    "m_messageBody reply = body GA v 0" "m_signature reply = Some (MkSignature (GetTypeSignature (type_of v)))"
    by (simp_all add: r DBusMessage_Reply_def new_DBusMessage_def)
qed

lemma begin_sends:
  assumes f: "fifo_channel ops pend" and i: "reply_inv pend st" and n: "calls pend st (st_serial st) = None"
    and call: "message_ok call" "message_small call" "ExpectsReply call"
  obtains st1 t where "SendMessageInternal_begin ops call st = (st1, Inr (message_bytes call (st_serial st), t))"
    "reply_inv pend st1" "calls pend st1 = (calls pend st)(st_serial st \<mapsto> [])" "ticket_ok st1 t"
    "tk_serial t = st_serial st" "tk_expectsReply t"
proof -
  have "Serialize call (st_serial st) = Inr (message_bytes call (st_serial st))"
    using call by (intro serialize_message) (simp_all add: message_small_def)
  then show thesis
    using begin_refines [OF f i n, of call] call(3) that
    by (cases "SendMessageInternal_begin ops call st") (auto split: sum.splits)
qed

lemma reply_collected:
  assumes f: "fifo_channel ops pend" and i: "reply_inv pend st" and t: "ticket_ok st t" "tk_expectsReply t"
    and c: "calls pend st (tk_serial t) = Some [m]" and r: "rd_messageType (m_header m) \<noteq> MT_ERROR"
  obtains st' where "SendMessageInternal_finish junk n ops t st = Some (st', Inr (Some m))"
    "reply_inv pend st'" "calls pend st' = (calls pend st)(tk_serial t := None)"
  using release_channel_refines [OF f i t(1)] c t(2) r that
  by (auto simp: SendMessageInternal_finish_def reply_result_def)

text \<open>C2: A call and its reply, end to end. The bytes \<^verbatim>\<open>SendMessage\<close> writes are read by the peer's loop as the call;
  the bytes of the reply the peer builds, with any value without variants, are read by our loop;
  dispatching it completes the call, whose coroutine gets this message, from which \<^verbatim>\<open>Get\<close> returns the value; and
  the channel is free again. All other calls that are waiting are left as they were.\<close>

theorem call_reply_end_to_end:
  assumes "fifo_channel (env_channel env) pend" and "reply_inv pend st" and "calls pend st (st_serial st) = None"
    and "message_ok call" and "message_small call" and "ExpectsReply call" and "length (message_bytes call (st_serial st)) < n"
    and "wt v" and "sendable v" and "accepts (type_of v) v" and "variant_free (type_of v)"
    and "length (GetTypeSignature (type_of v)) < 256" and "body GA v 0 \<noteq> []"
    and "DBusMessage_Parameter v (DBusMessage_Reply (sent_message call (st_serial st))) = Inr reply"
    and "message_small reply" and "length (message_bytes reply serial) < n"
    and "length (body GA v 0) < 67108864"
  shows "\<exists>st1 t bytes out answer st2 st3.
    SendMessageInternal_begin (env_channel env) call st = (st1, Inr (bytes, t)) \<and>
    ReadLoop_round junk n (bytes @ rest) = Finished (Inr (sent_message call (st_serial st))) rest \<and>
    Serialize reply serial = Inr out \<and>
    ReadLoop_round junk n (out @ rest') = Finished (Inr answer) rest' \<and>
    HandleReadMessage env answer st1 = ([], st2, Inr ()) \<and>
    SendMessageInternal_finish junk n (env_channel env) t st2 = Some (st3, Inr (Some answer)) \<and>
    IncomingDBusMessage_Get junk n (type_of v) answer = Inr v \<and>
    reply_inv pend st3 \<and> calls pend st3 = calls pend st"
proof -
  let ?s = "st_serial st" and ?answer = "sent_message reply serial"
  note f = assms(1)
  have b: "length (body GA v 0) < n"
    using assms(16) reply_with_body(4) [OF assms(8,9,12,17) _ assms(14)]
    by (simp add: length_message_bytes sent_message_def received_header_def Let_def)
  have r: "message_ok reply" "m_messageType reply = MT_METHOD_RETURN" "m_replySerial reply = Some ?s"
      "m_messageBody reply = body GA v 0" "m_signature reply = Some (MkSignature (GetTypeSignature (type_of v)))"
    using reply_with_body [OF assms(8,9,12,17) _ assms(14)] by (simp_all add: sent_message_def received_header_def Let_def)
  have a: "rd_replySerial (m_header ?answer) = Some ?s" "rd_messageType (m_header ?answer) \<noteq> MT_ERROR"
      "rd_signature (m_header ?answer) = m_signature reply" "in_messageBody ?answer = body GA v 0"
    using r assms(13) by (simp_all add: sent_message_def received_header_def Let_def)
  obtain st1 t where 1: "SendMessageInternal_begin (env_channel env) call st = (st1, Inr (message_bytes call ?s, t))"
      "reply_inv pend st1" "calls pend st1 = (calls pend st)(?s \<mapsto> [])" "ticket_ok st1 t" "tk_serial t = ?s" "tk_expectsReply t"
    by (rule begin_sends [OF assms(1-6)])
  obtain st2 where 2: "HandleReply (env_channel env) ?answer ?s st1 = Inr st2" "reply_inv pend st2"
      "calls pend st2 = (calls pend st1)(?s \<mapsto> [?answer])" "ticket_ok st2 t"
    using HandleReply_refines [OF f 1(2), where s = ?s and m = ?answer] 1(3,4) by auto
  obtain st3 where 3: "SendMessageInternal_finish junk n (env_channel env) t st2 = Some (st3, Inr (Some ?answer))"
      "reply_inv pend st3" "calls pend st3 = (calls pend st2)(tk_serial t := None)"
    by (rule reply_collected [OF f 2(2,4) 1(6) _ a(2), of junk n]) (simp_all add: 1(5) 2(3))
  have "calls pend st3 = calls pend st" using 1(3,5) 2(3) 3(3) assms(3) by (simp add: fun_upd_idem)
  moreover have "HandleReadMessage env ?answer st1 = ([], st2, Inr ())"
    using a(1) 2(1) by (simp add: HandleReadMessage_def)
  moreover have "IncomingDBusMessage_Get junk n (type_of v) ?answer = Inr v"
    using body_read_back [OF assms(8,10,11,17) b] a r(5) by (simp add: IncomingDBusMessage_Get_def)
  moreover have "Serialize reply serial = Inr (message_bytes reply serial)"
    using r(1) assms(15) by (intro serialize_message) (simp_all add: message_small_def)
  moreover have "ReadLoop_round junk n (message_bytes reply serial @ rest') = Finished (Inr ?answer) rest'"
    by (rule round_reads_message [OF r(1) assms(15,16)])
  moreover have "ReadLoop_round junk n (message_bytes call ?s @ rest) = Finished (Inr (sent_message call ?s)) rest"
    by (rule round_reads_message [OF assms(4,5,7)])
  ultimately show ?thesis using 1(1) 3(1,2) by blast
qed

definition example_answer :: DBusMessage where
  "example_answer = (DBusMessage_Reply (sent_message example_call 1))
     \<lparr> m_signature := Some (MkSignature ''s''), m_messageBody := body GA (VString StdString ''hi'') 0 \<rparr>"

lemma example_answer_ok:
  "DBusMessage_Parameter (VString StdString ''hi'') (DBusMessage_Reply (sent_message example_call 1)) = Inr example_answer"
  "message_small example_answer" "length (message_bytes example_answer 5) < 200"
  "wt (VString StdString ''hi'')" "sendable (VString StdString ''hi'')" "accepts (type_of (VString StdString ''hi'')) (VString StdString ''hi'')"
  "variant_free (type_of (VString StdString ''hi''))" "length (GetTypeSignature (type_of (VString StdString ''hi''))) < 256"
  "body GA (VString StdString ''hi'') 0 \<noteq> []" "length (body GA (VString StdString ''hi'') 0) < 67108864"
  by code_simp+

theorem call_reply_end_to_end_witness:
  "\<exists>st1 t bytes out answer st2 st3.
    SendMessageInternal_begin list_channel example_call example_connection = (st1, Inr (bytes, t)) \<and>
    Serialize example_answer 5 = Inr out \<and>
    ReadLoop_round no_junk 200 (out @ [1]) = Finished (Inr answer) [1] \<and>
    HandleReadMessage example_env answer st1 = ([], st2, Inr ()) \<and>
    SendMessageInternal_finish no_junk 200 list_channel t st2 = Some (st3, Inr (Some answer)) \<and>
    IncomingDBusMessage_Get no_junk 200 (TString StdString) answer = Inr (VString StdString ''hi'')"
proof -
  have c: "env_channel example_env = list_channel" "st_serial example_connection = 1"
      "calls (\<lambda>c. c) example_connection 1 = None"
    by (simp_all add: example_env_def new_connection_def calls_def active_def)
  show ?thesis
    using call_reply_end_to_end [of example_env "\<lambda>c. c" example_connection example_call 200 "VString StdString ''hi''"
        example_answer 5 no_junk "[]" "[1]"] example_call_ok example_answer_ok
      fifo_list_channel reply_inv_new [OF fifo_list_channel, where name = None]
    unfolding c by fastforce
qed

text \<open>The read loop spawns one coroutine for each message it has cut out, and logs what it cannot parse; an exception
  ends its coroutine only, while a loop without end, or undefined behaviour, in parsing or dispatching a message ends everything.\<close>

fun serve ::
    "('c, 'h) environment \<Rightarrow> IncomingDBusMessage result list \<Rightarrow> ('c, 'h) InternalState \<Rightarrow> 'h event list \<times> ('c, 'h) InternalState" where
  "serve env [] st = ([], st)"
| "serve env (Inl e # messages) st = (if thrown e then serve env messages st else ([], st))"
| "serve env (Inr message # messages) st =
     (case HandleReadMessage env message st of
        (ev, st', Inl e) \<Rightarrow>
          if thrown e then (let (ev', st'') = serve env messages st' in (ev @ ev', st'')) else (ev, st')
      | (ev, st', Inr _) \<Rightarrow> (let (ev', st'') = serve env messages st' in (ev @ ev', st'')))"

definition answers :: "DBusMessage \<Rightarrow> 32 word option" where
  "answers m = (if m_messageType m \<in> {MT_ERROR, MT_METHOD_RETURN} then m_replySerial m else None)"

lemma serve_replies:
  assumes f: "fifo_channel (env_channel env) pend"
  shows "reply_inv pend st \<Longrightarrow> distinct (map (answers \<circ> fst) ms) \<Longrightarrow>
    \<forall>(m, serial) \<in> set ms. \<exists>s. answers m = Some s \<and> calls pend st s = Some [] \<Longrightarrow>
    \<exists>st'. serve env (map (\<lambda>(m, serial). Inr (sent_message m serial)) ms) st = ([], st') \<and> reply_inv pend st' \<and>
      (\<forall>(m, serial) \<in> set ms. calls pend st' (the (answers m)) = Some [sent_message m serial]) \<and>
      (\<forall>s. Some s \<notin> (answers \<circ> fst) ` set ms \<longrightarrow> calls pend st' s = calls pend st s)"
proof (induction ms arbitrary: st)
  case (Cons y ms)
  obtain m serial where y: "y = (m, serial)" by (cases y)
  then obtain s where s: "answers m = Some s" "calls pend st s = Some []" using Cons.prems(3) by auto
  obtain st1 where st1: "HandleReply (env_channel env) (sent_message m serial) s st = Inr st1" "reply_inv pend st1"
      "calls pend st1 = (calls pend st)(s \<mapsto> [sent_message m serial])"
    using HandleReply_refines [OF f Cons.prems(1), where s = s and m = "sent_message m serial"] s(2) by auto
  have h: "HandleReadMessage env (sent_message m serial) st = ([], st1, Inr ())"
    using s(1) st1(1) by (simp add: HandleReadMessage_def sent_message_def received_header_def answers_def Let_def split: if_splits)
  have fresh: "answers m' \<noteq> Some s" if "(m', serial') \<in> set ms" for m' serial'
    using Cons.prems(2) that y s(1) by force
  have open_calls: "\<forall>(m', serial') \<in> set ms. \<exists>s'. answers m' = Some s' \<and> calls pend st1 s' = Some []"
  proof safe
    fix m' serial' assume m': "(m', serial') \<in> set ms"
    then obtain s' where "answers m' = Some s'" "calls pend st s' = Some []" using Cons.prems(3) by auto
    then show "\<exists>s'. answers m' = Some s' \<and> calls pend st1 s' = Some []" using fresh [OF m'] st1(3) by auto
  qed
  obtain st' where st': "serve env (map (\<lambda>(m, serial). Inr (sent_message m serial)) ms) st1 = ([], st')" "reply_inv pend st'"
      "\<forall>(m, serial) \<in> set ms. calls pend st' (the (answers m)) = Some [sent_message m serial]"
      "\<forall>s. Some s \<notin> (answers \<circ> fst) ` set ms \<longrightarrow> calls pend st' s = calls pend st1 s"
    using Cons.IH [OF st1(2) _ open_calls] Cons.prems(2) by auto
  have "Some s \<notin> (answers \<circ> fst) ` set ms" using fresh by (metis comp_apply imageE prod.collapse)
  then have "calls pend st' s = Some [sent_message m serial]" using st'(4) st1(3) by simp
  then show ?case using st' st1(3) y s(1) h by auto
qed simp

text \<open>C11: Replies that arrive as one stream of bytes, in whatever order the calls were answered, complete exactly the calls they
  answer: the read loop cuts them out, dispatching them calls nobody, each waiting call finds its own reply, and every other call is
  left as it was.\<close>

theorem replies_in_one_stream:
  assumes "fifo_channel (env_channel env) pend" and "reply_inv pend st" and "distinct (map (answers \<circ> fst) ms)"
    and "\<And>m serial. (m, serial) \<in> set ms \<Longrightarrow> message_ok m \<and> message_small m \<and> length (message_bytes m serial) < n"
    and "\<forall>(m, serial) \<in> set ms. \<exists>s. answers m = Some s \<and> calls pend st s = Some []"
  shows "\<exists>st'. serve env (ReadLoop_messages junk n (messages_bytes ms)) st = ([], st') \<and> reply_inv pend st' \<and>
    (\<forall>(m, serial) \<in> set ms. calls pend st' (the (answers m)) = Some [sent_message m serial]) \<and>
    (\<forall>s. Some s \<notin> (answers \<circ> fst) ` set ms \<longrightarrow> calls pend st' s = calls pend st s)"
proof -
  have "ReadLoop_messages junk n [] = []"
    by (subst ReadLoop_messages.simps) (simp add: round_short)
  then have "ReadLoop_messages junk n (messages_bytes ms) = map (\<lambda>(m, serial). Inr (sent_message m serial)) ms"
    using stream_cut [OF assms(4), of ms junk "[]"] by simp
  then show ?thesis using serve_replies [OF assms(1-3,5)] by simp
qed

lemma example_answer_answers: "answers example_answer = Some 1"
  by (simp add: answers_def example_answer_def DBusMessage_Reply_def new_DBusMessage_def sent_message_def received_header_def Let_def)

theorem replies_in_one_stream_witness:
  "\<exists>st' t st1 bytes. SendMessageInternal_begin list_channel example_call example_connection = (st1, Inr (bytes, t)) \<and>
    serve example_env (ReadLoop_messages no_junk 200 (messages_bytes [(example_answer, 5)])) st1 = ([], st') \<and>
    calls (\<lambda>c. c) st' 1 = Some [sent_message example_answer 5]"
proof -
  have c: "fifo_channel (env_channel example_env) (\<lambda>c. c)" "st_serial example_connection = 1"
      "calls (\<lambda>c. c) example_connection (st_serial example_connection) = None"
    using fifo_list_channel by (simp_all add: example_env_def new_connection_def calls_def active_def)
  obtain st1 t where st1: "SendMessageInternal_begin list_channel example_call example_connection =
        (st1, Inr (message_bytes example_call (st_serial example_connection), t))"
      "reply_inv (\<lambda>c. c) st1"
      "calls (\<lambda>c. c) st1 = (calls (\<lambda>c. c) example_connection)(st_serial example_connection \<mapsto> [])"
    using begin_sends [OF fifo_list_channel reply_inv_new [OF fifo_list_channel] c(3)] example_call_ok by metis
  have ok: "message_ok example_answer"
    using reply_with_body(1) [OF example_answer_ok(4,5,8,10) _ example_answer_ok(1)] by (simp add: sent_message_def received_header_def Let_def)
  obtain st' where "serve example_env (ReadLoop_messages no_junk 200 (messages_bytes [(example_answer, 5)])) st1 = ([], st')"
      "\<forall>(m, serial) \<in> set [(example_answer, 5 :: 32 word)]. calls (\<lambda>c. c) st' (the (answers m)) = Some [sent_message m serial]"
    using replies_in_one_stream [OF c(1) st1(2), of "[(example_answer, 5)]" 200 no_junk] ok example_answer_ok(2,3)
      example_answer_answers st1(3) c(2) by auto
  then show ?thesis using st1(1) example_answer_answers by auto
qed

end
